(* ===== verification/Chat_Prelude.thy ===== *)
theory Chat_Prelude
  imports Main "HOL-Library.Word"
begin

text \<open>
  The prelude of the development: the fact collections, first-match search in
  a fixed-size table (the \<open>for (i = 0; i < N; i++) if (...) return i; return -1;\<close>
  loop every component of \<open>src/\<close> has), arrays as functions from index to
  byte with slices and block copies (the two big buffers of the epoll server), and
  generic lemmas on lists and folds over slot numbers.
\<close>

named_theorems wf_intros \<open>well-formedness introduction rules\<close>
named_theorems slot_simps \<open>reading a table after an update\<close>

subsection \<open>First-match search in a table\<close>

text \<open>The search loops return an index or \<open>-1\<close>; the model returns \<open>None\<close> for \<open>-1\<close>.\<close>

fun find_slot :: "('a \<Rightarrow> bool) \<Rightarrow> 'a list \<Rightarrow> nat option" where
  "find_slot P [] = None"
| "find_slot P (x # xs) = (if P x then Some 0 else map_option Suc (find_slot P xs))"

lemma find_slot_SomeD:
  "find_slot P xs = Some i \<Longrightarrow> i < length xs \<and> P (xs ! i) \<and> (\<forall>j<i. \<not> P (xs ! j))"
proof (induction xs arbitrary: i)
  case Nil
  then show ?case by simp
next
  case (Cons x xs)
  then show ?case
    by (auto split: if_splits simp: nth_Cons' less_Suc_eq_0_disj)
qed

lemma find_slot_NoneD: "find_slot P xs = None \<Longrightarrow> i < length xs \<Longrightarrow> \<not> P (xs ! i)"
  by (induction xs arbitrary: i) (auto split: if_splits simp: nth_Cons')

lemma find_slot_None_iff: "find_slot P xs = None \<longleftrightarrow> (\<forall>x\<in>set xs. \<not> P x)"
  by (induction xs) auto

lemma find_slot_map: "find_slot P (map f xs) = find_slot (\<lambda>x. P (f x)) xs"
  by (induction xs) simp_all

lemma find_slot_cong: "(\<And>x. x \<in> set xs \<Longrightarrow> P x = Q x) \<Longrightarrow> find_slot P xs = find_slot Q xs"
  by (induction xs) simp_all

lemma find_slot_unique:
  assumes "i < length xs" and "P (xs ! i)"
    and "\<And>j. j < length xs \<Longrightarrow> P (xs ! j) \<Longrightarrow> j = i"
  shows "find_slot P xs = Some i"
proof (cases "find_slot P xs")
  case None
  with assms(1,2) show ?thesis by (auto dest: find_slot_NoneD)
next
  case (Some k)
  then show ?thesis using assms(3) [of k] by (auto dest: find_slot_SomeD)
qed

lemma find_slot_least:
  assumes "i < length xs" and "P (xs ! i)" and "\<And>j. j < i \<Longrightarrow> \<not> P (xs ! j)"
  shows "find_slot P xs = Some i"
proof (cases "find_slot P xs")
  case None
  with assms(1,2) show ?thesis by (auto dest: find_slot_NoneD)
next
  case (Some k)
  with find_slot_SomeD [OF Some] assms show ?thesis
    by (metis linorder_neqE_nat)
qed

subsection \<open>Big arrays as functions\<close>

text \<open>
  The 64 KiB send buffer and the receive buffer are arrays of bytes read and written in
  blocks. They are functions from index to byte: \<open>bslice\<close> is the block
  \<open>[a, b)\<close>, \<open>blit\<close> is \<open>memcpy\<close> to an offset, \<open>shift_down\<close>
  is \<open>memmove(buf, buf + from, n)\<close>.
\<close>

type_synonym barray = "nat \<Rightarrow> char"

definition bslice :: "barray \<Rightarrow> nat \<Rightarrow> nat \<Rightarrow> char list" where
  "bslice b lo hi = map b [lo..<hi]"

definition blit :: "barray \<Rightarrow> nat \<Rightarrow> char list \<Rightarrow> barray" where
  "blit b off d = (\<lambda>i. if off \<le> i \<and> i < off + length d then d ! (i - off) else b i)"

definition shift_down :: "barray \<Rightarrow> nat \<Rightarrow> nat \<Rightarrow> barray" where
  "shift_down b from n = (\<lambda>i. if i < n then b (from + i) else b i)"

lemma length_bslice [simp]: "length (bslice b lo hi) = hi - lo"
  by (simp add: bslice_def)

lemma bslice_empty [simp]: "hi \<le> lo \<Longrightarrow> bslice b lo hi = []"
  by (simp add: bslice_def)

lemma bslice_split: "lo \<le> mid \<Longrightarrow> mid \<le> hi \<Longrightarrow> bslice b lo hi = bslice b lo mid @ bslice b mid hi"
proof -
  assume "lo \<le> mid" and "mid \<le> hi"
  then have "[lo..<hi] = [lo..<mid] @ [mid..<hi]"
    by (metis le_Suc_ex upt_add_eq_append)
  then show ?thesis by (simp add: bslice_def)
qed

lemma nth_bslice [simp]: "i < hi - lo \<Longrightarrow> bslice b lo hi ! i = b (lo + i)"
  by (simp add: bslice_def)

lemma take_bslice: "take n (bslice b lo hi) = bslice b lo (min hi (lo + n))"
  by (rule nth_equalityI) auto

lemma drop_bslice: "drop n (bslice b lo hi) = bslice b (lo + n) hi"
  by (rule nth_equalityI) (auto simp: add.assoc)

lemma bslice_blit_same: "bslice (blit b off d) off (off + length d) = d"
  by (rule nth_equalityI) (auto simp: blit_def)

lemma bslice_blit_before: "hi \<le> off \<Longrightarrow> bslice (blit b off d) lo hi = bslice b lo hi"
  by (rule nth_equalityI) (auto simp: blit_def)

lemma bslice_blit_append:
  "lo \<le> off \<Longrightarrow> bslice (blit b off d) lo (off + length d) = bslice b lo off @ d"
  using bslice_split [of lo off "off + length d" "blit b off d"]
  by (simp add: bslice_blit_same bslice_blit_before)

lemma bslice_shift_down: "hi \<le> n \<Longrightarrow> bslice (shift_down b from n) lo hi = bslice b (from + lo) (from + hi)"
  by (rule nth_equalityI) (auto simp: shift_down_def add.assoc)

subsection \<open>Lists and folds\<close>

lemma take_min_length [simp]: "take (min n (length xs)) xs = take n xs"
  by (simp add: min_def)

lemma fold_fixed_field:
  "(\<And>x s. x \<in> set xs \<Longrightarrow> g (f x s) = g s) \<Longrightarrow> g (fold f xs s) = g s"
  by (induction xs arbitrary: s) auto

lemma fold_invariant_on:
  "I s \<Longrightarrow> (\<And>x s. x \<in> set xs \<Longrightarrow> I s \<Longrightarrow> I (f x s)) \<Longrightarrow> I (fold f xs s)"
  by (induction xs arbitrary: s) auto

lemma list_all_update:
  "list_all P xs \<Longrightarrow> P y \<Longrightarrow> list_all P (xs[i := y])"
  by (auto simp: list_all_iff dest: set_update_subset_insert [THEN subsetD])

lemma list_all_nth: "list_all P xs \<Longrightarrow> i < length xs \<Longrightarrow> P (xs ! i)"
  by (auto simp: list_all_iff)

end
