(* ===== verification/C_Strings.thy ===== *)
theory C_Strings
  imports Chat_Prelude
begin

text \<open>
  The part of the C string library that \<open>src/\<close> uses. A C \<open>char\<close> is an
  Isabelle \<open>char\<close> (8 bits), a C array of characters a list of its whole length,
  and the C string held in an array the characters before its first NUL
  (\<open>cstr\<close>). \<open>strncpy\<close>, \<open>strncmp(..) == 0\<close>,
  \<open>snprintf\<close> and \<open>strncat\<close> follow the C standard; the scanners follow
  \<open>sscanf\<close> on the three formats of the sources; \<open>%d\<close> converts through
  a 64-bit \<open>long\<close> to a 32-bit \<open>int\<close> as glibc does. The lemmas give the
  length and content of each result, the decimal print/scan round trip, and when the
  credential formats read back what was printed.
\<close>

abbreviation NUL :: char where
  "NUL \<equiv> CHR 0x00"

definition cstr :: "char list \<Rightarrow> char list" where
  "cstr a = takeWhile (\<lambda>c. c \<noteq> NUL) a"

definition zeros :: "nat \<Rightarrow> char list" where
  "zeros n = replicate n NUL"

definition cstring :: "char list \<Rightarrow> bool" where
  "cstring s \<longleftrightarrow> NUL \<notin> set s"

subsection \<open>String functions\<close>

definition strncpy :: "char list \<Rightarrow> char list \<Rightarrow> nat \<Rightarrow> char list" where
  "strncpy dst src n =
     (let s = take n (cstr src) in s @ zeros (n - length s) @ drop n dst)"

text \<open>\<open>strneq n a b\<close> is \<open>strncmp(a, b, n) == 0\<close>.\<close>

definition strneq :: "nat \<Rightarrow> char list \<Rightarrow> char list \<Rightarrow> bool" where
  "strneq n a b \<longleftrightarrow> take n (cstr a) = take n (cstr b)"

text \<open>\<open>snprintf sz s\<close> is the C string left in a buffer of \<open>sz\<close>
  bytes when the formatted text is \<open>s\<close>.\<close>

definition snprintf :: "nat \<Rightarrow> char list \<Rightarrow> char list" where
  "snprintf sz s = take (sz - 1) s"

text \<open>\<open>strncat dst src n\<close> on C strings.\<close>

definition strncat :: "char list \<Rightarrow> char list \<Rightarrow> nat \<Rightarrow> char list" where
  "strncat dst src n = dst @ take n src"

lemma cstr_simps [simp]: "cstr [] = []" "cstr (c # s) = (if c = NUL then [] else c # cstr s)"
  by (simp_all add: cstr_def)

lemma cstring_simps [simp]:
  "cstring []" "cstring (c # s) \<longleftrightarrow> c \<noteq> NUL \<and> cstring s"
  "cstring (s @ t) \<longleftrightarrow> cstring s \<and> cstring t"
  by (auto simp: cstring_def)

lemma cstring_cstr [simp]: "cstring (cstr a)"
  by (auto simp: cstring_def cstr_def dest: set_takeWhileD)

lemma cstr_cstring [simp]: "cstring s \<Longrightarrow> cstr s = s"
  by (induction s) auto

lemma cstr_append [simp]: "cstring s \<Longrightarrow> cstr (s @ t) = s @ cstr t"
  by (induction s) auto

lemma cstr_idem [simp]: "cstr (cstr a) = cstr a"
  by simp

lemma cstr_zeros [simp]: "cstr (zeros n) = []"
  by (cases n) (auto simp: zeros_def)

lemma length_zeros [simp]: "length (zeros n) = n"
  by (simp add: zeros_def)

lemma zeros_0 [simp]: "zeros 0 = []"
  by (simp add: zeros_def)

lemma zeros_add: "zeros m @ zeros n = zeros (m + n)"
  by (simp add: zeros_def replicate_add)

lemma take_zeros [simp]: "take n (zeros m) = zeros (min n m)"
  by (simp add: zeros_def)

lemma drop_zeros [simp]: "drop n (zeros m) = zeros (m - n)"
  by (simp add: zeros_def)

lemma length_cstr_le: "length (cstr a) \<le> length a"
  by (simp add: cstr_def length_takeWhile_le)

lemma cstring_take [simp]: "cstring s \<Longrightarrow> cstring (take n s)"
  by (auto simp: cstring_def dest: in_set_takeD)

lemma cstring_drop [simp]: "cstring s \<Longrightarrow> cstring (drop n s)"
  by (auto simp: cstring_def dest: in_set_dropD)

lemma cstr_split: "length (cstr a) < length a \<Longrightarrow> \<exists>r. a = cstr a @ NUL # r"
  by (induction a) (auto split: if_splits)

lemma length_strncpy [simp]: "n \<le> length dst \<Longrightarrow> length (strncpy dst src n) = length dst"
  by (simp add: strncpy_def Let_def)

text \<open>A copy into an array whose bytes from \<open>n\<close> on are zero leaves the first
  \<open>n\<close> characters of the source, zero-padded to the end of the array.\<close>

lemma strncpy_zero_tail:
  assumes "drop n dst = zeros k"
  shows "strncpy dst src n = take n (cstr src) @ zeros (n - length (take n (cstr src)) + k)"
  unfolding strncpy_def Let_def using assms by (simp add: zeros_add)

lemma cstr_strncpy [simp]:
  assumes "drop n dst = zeros k"
  shows "cstr (strncpy dst src n) = take n (cstr src)"
  by (simp only: strncpy_zero_tail [OF assms]) simp

lemma strneq_cstr: "length (cstr a) \<le> n \<Longrightarrow> length (cstr b) \<le> n \<Longrightarrow> strneq n a b \<longleftrightarrow> cstr a = cstr b"
  by (simp add: strneq_def)

lemma strneq_short: "length (cstr a) < n \<Longrightarrow> strneq n a b \<longleftrightarrow> cstr a = cstr b"
  by (auto simp: strneq_def)

lemma strneq_refl [simp]: "strneq n a a"
  by (simp add: strneq_def)

lemma snprintf_fits [simp]: "length s < sz \<Longrightarrow> snprintf sz s = s"
  by (simp add: snprintf_def)

lemma cstring_snprintf [simp]: "cstring s \<Longrightarrow> cstring (snprintf sz s)"
  by (simp add: snprintf_def)

lemma length_snprintf: "0 < sz \<Longrightarrow> length (snprintf sz s) < sz"
  by (simp add: snprintf_def min_def) linarith

lemma strncat_fits [simp]: "length src \<le> n \<Longrightarrow> strncat dst src n = dst @ src"
  by (simp add: strncat_def)

subsection \<open>Decimal numbers\<close>

definition digit :: "nat \<Rightarrow> char" where
  "digit n = char_of (48 + n)"

definition is_digit :: "char \<Rightarrow> bool" where
  "is_digit c \<longleftrightarrow> 48 \<le> (of_char c :: nat) \<and> (of_char c :: nat) \<le> 57"

definition digit_val :: "char \<Rightarrow> nat" where
  "digit_val c = of_char c - 48"

lemma of_char_digit: "n < 10 \<Longrightarrow> (of_char (digit n) :: nat) = 48 + n"
  by (simp add: digit_def)

lemma digit_simps [simp]:
  "digit 0 = CHR ''0''"
  "digit 1 = CHR ''1''" "digit (Suc 0) = CHR ''1''"
  "digit 2 = CHR ''2''"
  "digit 3 = CHR ''3''"
  "digit 4 = CHR ''4''"
  "digit 5 = CHR ''5''"
  "digit 6 = CHR ''6''"
  "digit 7 = CHR ''7''"
  "digit 8 = CHR ''8''"
  "digit 9 = CHR ''9''"
  by code_simp+

lemma is_digit_digit [simp]: "n < 10 \<Longrightarrow> is_digit (digit n)"
  by (simp add: is_digit_def of_char_digit)

lemma digit_val_digit [simp]: "n < 10 \<Longrightarrow> digit_val (digit n) = n"
  by (simp add: digit_val_def of_char_digit)

fun show_nat :: "nat \<Rightarrow> char list" where
  "show_nat n = (if n < 10 then [digit n] else show_nat (n div 10) @ [digit (n mod 10)])"

declare show_nat.simps [simp del]

text \<open>\<open>printf("%d")\<close>\<close>

definition show_int :: "int \<Rightarrow> char list" where
  "show_int z = (if z < 0 then CHR ''-'' # show_nat (nat (- z)) else show_nat (nat z))"

fun read_digits :: "nat \<Rightarrow> char list \<Rightarrow> nat \<times> char list" where
  "read_digits a [] = (a, [])"
| "read_digits a (c # s) = (if is_digit c then read_digits (10 * a + digit_val c) s else (a, c # s))"

lemma show_nat_digits: "\<forall>c\<in>set (show_nat n). is_digit c"
proof (induction n rule: show_nat.induct)
  case (1 n)
  then show ?case by (subst show_nat.simps) auto
qed

lemma show_nat_nonempty [simp]: "show_nat n \<noteq> []"
  by (subst show_nat.simps) simp

lemma length_show_nat: "n < 10 ^ k \<Longrightarrow> 0 < k \<Longrightarrow> length (show_nat n) \<le> k"
proof (induction n arbitrary: k rule: show_nat.induct)
  case (1 n)
  show ?case
  proof (cases "n < 10")
    case True
    with "1.prems" show ?thesis by (subst show_nat.simps) simp
  next
    case False
    have "k \<noteq> 1" using False "1.prems" by auto
    then obtain j where k: "k = Suc j" and "0 < j"
      using "1.prems"(2) by (cases k) auto
    from k "1.prems" have "n div 10 < 10 ^ j" by auto
    with "1.IH" [OF False] \<open>0 < j\<close> have "length (show_nat (n div 10)) \<le> j" by blast
    with False k show ?thesis by (subst show_nat.simps) simp
  qed
qed

lemma read_digits_show:
  "r = [] \<or> \<not> is_digit (hd r) \<Longrightarrow> read_digits a (show_nat n @ r) = (a * 10 ^ length (show_nat n) + n, r)"
proof (induction n arbitrary: r a rule: show_nat.induct)
  case (1 n)
  have stop: "read_digits b r = (b, r)" for b
    using "1.prems" by (cases r) auto
  show ?case
  proof (cases "n < 10")
    case True
    then have "show_nat n = [digit n]" by (subst show_nat.simps) simp
    with True stop show ?thesis by simp
  next
    case False
    then have s: "show_nat n = show_nat (n div 10) @ [digit (n mod 10)]"
      by (subst show_nat.simps) simp
    have gen: "read_digits a (xs @ y) = (let (v, z) = read_digits a xs in read_digits v y)"
      if "\<forall>c\<in>set xs. is_digit c" for a xs y
      using that by (induction xs arbitrary: a) auto
    have "read_digits a (show_nat (n div 10) @ []) = (a * 10 ^ length (show_nat (n div 10)) + n div 10, [])"
      by (rule "1.IH") (use False in auto)
    with s show ?thesis
      by (simp add: gen show_nat_digits stop algebra_simps)
  qed
qed

lemma not_digit_specials [simp]:
  "\<not> is_digit NUL" "\<not> is_digit (CHR '':'')" "\<not> is_digit (CHR ''-'')" "\<not> is_digit (CHR ''+'')"
  "\<not> is_digit (CHR '' '')"
  by (simp_all add: is_digit_def)

lemma cstring_show_nat [simp]: "cstring (show_nat n)"
  using show_nat_digits [of n] not_digit_specials(1) by (auto simp: cstring_def)

lemma cstring_show_int [simp]: "cstring (show_int z)"
  by (simp add: show_int_def)

subsection \<open>The scanf conversions\<close>

definition is_space :: "char \<Rightarrow> bool" where
  "is_space c \<longleftrightarrow> c = CHR '' '' \<or> (9 \<le> (of_char c :: nat) \<and> (of_char c :: nat) \<le> 13)"

lemma digit_not_space: "is_digit c \<Longrightarrow> \<not> is_space c"
  by (auto simp: is_digit_def is_space_def)

text \<open>\<open>%<w>[^:]\<close>: one to \<open>w\<close> characters up to a colon, no skipping of
  blanks; \<open>%<w>s\<close>: blanks skipped, one to \<open>w\<close> non-blank characters;
  \<open>%d\<close>: blanks skipped, a sign, digits. Each returns the value and the rest of the
  input, \<open>None\<close> on a matching or input failure.\<close>

definition scan_set :: "nat \<Rightarrow> char list \<Rightarrow> (char list \<times> char list) option" where
  "scan_set w s = (let m = take w (takeWhile (\<lambda>c. c \<noteq> CHR '':'') s)
                   in if m = [] then None else Some (m, drop (length m) s))"

definition scan_word :: "nat \<Rightarrow> char list \<Rightarrow> (char list \<times> char list) option" where
  "scan_word w s = (let t = dropWhile is_space s; m = take w (takeWhile (\<lambda>c. \<not> is_space c) t)
                    in if m = [] then None else Some (m, drop (length m) t))"

definition scan_lit :: "char \<Rightarrow> char list \<Rightarrow> char list option" where
  "scan_lit c s = (case s of [] \<Rightarrow> None | x # r \<Rightarrow> if x = c then Some r else None)"

text \<open>The value of \<open>%d\<close> is read as a \<open>long\<close>, which saturates, and
  stored in an \<open>int\<close>, which keeps the low 32 bits.\<close>

definition long_to_int :: "int \<Rightarrow> int" where
  "long_to_int v = signed_take_bit 31 (max (- (2 ^ 63)) (min (2 ^ 63 - 1) v))"

definition int32 :: "int \<Rightarrow> bool" where
  "int32 z \<longleftrightarrow> - (2 ^ 31) \<le> z \<and> z < 2 ^ 31"

definition scan_int :: "char list \<Rightarrow> (int \<times> char list) option" where
  "scan_int s =
     (let t = dropWhile is_space s;
          (neg, u) = (case t of [] \<Rightarrow> (False, [])
                       | c # r \<Rightarrow> if c = CHR ''-'' then (True, r)
                                  else if c = CHR ''+'' then (False, r) else (False, t))
      in case u of [] \<Rightarrow> None
         | c # r \<Rightarrow>
             if is_digit c
             then (let (v, rest) = read_digits 0 u
                   in Some (long_to_int (if neg then - int v else int v), rest))
             else None)"

text \<open>\<open>sscanf(s, "%31[^:]:%63s", u, p)\<close> on zeroed buffers: the number of
  conversions done and the two strings.\<close>

definition sscanf_user_pass :: "char list \<Rightarrow> nat \<times> char list \<times> char list" where
  "sscanf_user_pass s =
     (case scan_set 31 (cstr s) of None \<Rightarrow> (0, [], [])
      | Some (u, r) \<Rightarrow>
          (case scan_lit (CHR '':'') r of None \<Rightarrow> (1, u, [])
           | Some r' \<Rightarrow>
               (case scan_word 63 r' of None \<Rightarrow> (1, u, [])
                | Some (p, _) \<Rightarrow> (2, u, p))))"

text \<open>\<open>sscanf(s, "%31[^:]:%63[^:]:%d", u, p, &port)\<close>\<close>

definition sscanf_user_pass_port :: "char list \<Rightarrow> nat \<times> char list \<times> char list \<times> int" where
  "sscanf_user_pass_port s =
     (case scan_set 31 (cstr s) of None \<Rightarrow> (0, [], [], 0)
      | Some (u, r) \<Rightarrow>
          (case scan_lit (CHR '':'') r of None \<Rightarrow> (1, u, [], 0)
           | Some r1 \<Rightarrow>
               (case scan_set 63 r1 of None \<Rightarrow> (1, u, [], 0)
                | Some (p, r2) \<Rightarrow>
                    (case scan_lit (CHR '':'') r2 of None \<Rightarrow> (2, u, p, 0)
                     | Some r3 \<Rightarrow>
                         (case scan_int r3 of None \<Rightarrow> (2, u, p, 0)
                          | Some (port, _) \<Rightarrow> (3, u, p, port))))))"

subsection \<open>What the scanners accept\<close>

definition user_ok :: "char list \<Rightarrow> bool" where
  "user_ok u \<longleftrightarrow> u \<noteq> [] \<and> length u \<le> 31 \<and> cstring u \<and> CHR '':'' \<notin> set u"

definition pass_ok :: "char list \<Rightarrow> bool" where
  "pass_ok p \<longleftrightarrow> p \<noteq> [] \<and> length p \<le> 63 \<and> cstring p \<and> CHR '':'' \<notin> set p"

definition word_ok :: "char list \<Rightarrow> bool" where
  "word_ok p \<longleftrightarrow> p \<noteq> [] \<and> length p \<le> 63 \<and> cstring p \<and> list_all (\<lambda>c. \<not> is_space c) p"

lemma scan_set_accepts:
  assumes "u \<noteq> []" "length u \<le> w" "CHR '':'' \<notin> set u"
  shows "scan_set w (u @ CHR '':'' # r) = Some (u, CHR '':'' # r)"
proof -
  have "takeWhile (\<lambda>c. c \<noteq> CHR '':'') (u @ CHR '':'' # r) = u"
    using assms(3) by (subst takeWhile_append2) auto
  with assms(1,2) show ?thesis unfolding scan_set_def Let_def by simp
qed

lemma scan_set_SomeD:
  assumes "scan_set w s = Some (m, r)"
  shows "m \<noteq> [] \<and> length m \<le> w \<and> CHR '':'' \<notin> set m \<and> s = m @ r"
proof -
  let ?t = "takeWhile (\<lambda>c. c \<noteq> CHR '':'') s"
  from assms have m: "m = take w ?t" and "m \<noteq> []" and r: "r = drop (length m) s"
    by (auto simp: scan_set_def Let_def split: if_splits)
  have "s = m @ (drop w ?t @ dropWhile (\<lambda>c. c \<noteq> CHR '':'') s)"
    unfolding m by (simp flip: append_assoc)
  with r have "s = m @ r" by (metis append_eq_conv_conj)
  moreover have "CHR '':'' \<notin> set m"
    using m by (auto dest!: in_set_takeD set_takeWhileD)
  ultimately show ?thesis using m \<open>m \<noteq> []\<close> by simp
qed

lemma scan_word_accepts:
  assumes "p \<noteq> []" "length p \<le> w" "list_all (\<lambda>c. \<not> is_space c) p"
  shows "scan_word w p = Some (p, [])"
proof -
  from assms(1,3) have dw: "dropWhile is_space p = p" by (cases p) auto
  from assms(3) have tw: "takeWhile (\<lambda>c. \<not> is_space c) p = p"
    by (simp add: list_all_iff)
  show ?thesis unfolding scan_word_def Let_def dw tw using assms(1,2) by simp
qed

lemma scan_word_SomeD:
  "scan_word w s = Some (m, r) \<Longrightarrow> m \<noteq> [] \<and> length m \<le> w \<and> list_all (\<lambda>c. \<not> is_space c) m \<and> set m \<subseteq> set s"
  by (auto simp: scan_word_def Let_def list_all_iff split: if_splits
      dest!: in_set_takeD set_takeWhileD dest: set_dropWhileD)

lemma long_to_int_id: "int32 v \<Longrightarrow> long_to_int v = v"
  by (simp add: long_to_int_def int32_def signed_take_bit_int_eq_self_iff)

lemma int32_long_to_int [simp]: "int32 (long_to_int v)"
  using signed_take_bit_int_greater_eq_minus_exp [of 31] signed_take_bit_int_less_exp [of 31]
  by (simp add: long_to_int_def int32_def)

lemma scan_int_int32: "scan_int s = Some (z, r) \<Longrightarrow> int32 z"
  by (auto simp: scan_int_def Let_def split: prod.splits list.splits if_splits)

lemma scan_int_show_append:
  assumes "int32 z" "s = [] \<or> \<not> is_digit (hd s)"
  shows "scan_int (show_int z @ s) = Some (z, s)"
proof -
  obtain c r where cr: "show_nat (nat \<bar>z\<bar>) = c # r" by (meson list.exhaust show_nat_nonempty)
  then have d: "is_digit c" using show_nat_digits [of "nat \<bar>z\<bar>"] by simp
  then have nsp: "\<not> is_space c" "c \<noteq> CHR ''-''" "c \<noteq> CHR ''+''"
    using digit_not_space not_digit_specials by metis+
  have rd: "read_digits 0 (c # r @ s) = (nat \<bar>z\<bar>, s)"
    using read_digits_show [of s 0 "nat \<bar>z\<bar>"] cr assms(2) by simp
  have minus: "\<not> is_space (CHR ''-'')" by (simp add: is_space_def)
  show ?thesis
    using assms(1) cr d nsp rd minus
    by (auto simp: scan_int_def show_int_def long_to_int_id simp del: read_digits.simps)
qed

lemma scan_int_show: "int32 z \<Longrightarrow> scan_int (show_int z) = Some (z, [])"
  using scan_int_show_append [of z "[]"] by simp

text \<open>A payload printed with \<open>"%s:%s:%d"\<close> from good credentials is read back
  unchanged by the register format, one printed with \<open>"%s:%s"\<close> by the login
  format when the password has no blank.\<close>

lemma sscanf_cstr [simp]:
  "sscanf_user_pass (cstr s) = sscanf_user_pass s"
  "sscanf_user_pass_port (cstr s) = sscanf_user_pass_port s"
  by (simp_all add: sscanf_user_pass_def sscanf_user_pass_port_def)

lemma sscanf_register_roundtrip:
  assumes "user_ok u" "pass_ok p" "int32 z"
  shows "sscanf_user_pass_port (u @ '':'' @ p @ '':'' @ show_int z) = (3, u, p, z)"
proof -
  from assms(1,2) have cs: "cstring (u @ '':'' @ p @ '':'' @ show_int z)"
    by (simp add: user_ok_def pass_ok_def)
  have u: "scan_set 31 (u @ CHR '':'' # (p @ CHR '':'' # show_int z)) = Some (u, CHR '':'' # (p @ CHR '':'' # show_int z))"
    using assms(1) by (intro scan_set_accepts) (auto simp: user_ok_def)
  have p: "scan_set 63 (p @ CHR '':'' # show_int z) = Some (p, CHR '':'' # show_int z)"
    using assms(2) by (intro scan_set_accepts) (auto simp: pass_ok_def)
  show ?thesis
    using cs u p scan_int_show [OF assms(3)]
    by (simp add: sscanf_user_pass_port_def scan_lit_def)
qed

lemma sscanf_login_roundtrip:
  assumes "user_ok u" "word_ok p"
  shows "sscanf_user_pass (u @ '':'' @ p) = (2, u, p)"
proof -
  from assms have cs: "cstring (u @ '':'' @ p)" by (simp add: user_ok_def word_ok_def)
  have "scan_set 31 (u @ CHR '':'' # p) = Some (u, CHR '':'' # p)"
    using assms(1) by (intro scan_set_accepts) (auto simp: user_ok_def)
  moreover have "scan_word 63 p = Some (p, [])"
    using assms(2) by (intro scan_word_accepts) (auto simp: word_ok_def)
  ultimately show ?thesis using cs by (simp add: sscanf_user_pass_def scan_lit_def)
qed

text \<open>Whatever the payload, the strings stored are within the buffers.\<close>

lemma sscanf_user_pass_bounds:
  assumes "sscanf_user_pass s = (n, u, p)"
  shows "length u \<le> 31 \<and> length p \<le> 63 \<and> cstring u \<and> cstring p \<and> CHR '':'' \<notin> set u"
proof -
  have sub: "set (cstr s) \<subseteq> - {NUL}" using cstring_cstr [of s] by (auto simp: cstring_def)
  show ?thesis
    using assms sub
    by (auto simp: sscanf_user_pass_def scan_lit_def cstring_def split: option.splits list.splits if_splits
        dest!: scan_set_SomeD scan_word_SomeD)
qed

lemma sscanf_user_pass_ok:
  "sscanf_user_pass s = (2, u, p) \<Longrightarrow> user_ok u \<and> word_ok p"
  using sscanf_user_pass_bounds [of s 2 u p]
  by (auto simp: user_ok_def word_ok_def sscanf_user_pass_def split: option.splits prod.splits
      dest!: scan_set_SomeD scan_word_SomeD)

lemma sscanf_user_pass_port_ok:
  assumes "sscanf_user_pass_port s = (3, u, p, port)"
  shows "user_ok u \<and> pass_ok p \<and> int32 port"
proof -
  have sub: "set (cstr s) \<subseteq> - {NUL}" using cstring_cstr [of s] by (auto simp: cstring_def)
  show ?thesis
    using assms sub
    by (auto simp: sscanf_user_pass_port_def scan_lit_def user_ok_def pass_ok_def cstring_def
        split: option.splits list.splits if_splits dest!: scan_set_SomeD scan_int_int32)
qed

end
