(* ===== verification/Protocol.thy ===== *)
theory Protocol
  imports C_Strings
begin

unbundle bit_operations_syntax

text \<open>
  \<open>src/protocol.h\<close> and the codec of \<open>src/protocol.c\<close>: the message
  types, the \<open>Message\<close> struct, \<open>pack_message\<close>,
  \<open>unpack_message\<close> and \<open>make_message\<close>. The struct's arrays are lists of
  their whole length. The lemmas give the wire length, the big-endian round trips, that
  unpacking a packed message yields the message with its two names zero-padded
  (\<open>pad_names\<close>), exactly when unpacking fails, and that every message that is
  made or received is well formed.
\<close>

abbreviation (input) MAX_USERNAME_LEN :: nat where "MAX_USERNAME_LEN \<equiv> 32"
abbreviation (input) MAX_PASSWORD_LEN :: nat where "MAX_PASSWORD_LEN \<equiv> 64"
abbreviation (input) MAX_PAYLOAD_LEN :: nat where "MAX_PAYLOAD_LEN \<equiv> 1024"
abbreviation (input) HEADER_SIZE :: nat where "HEADER_SIZE \<equiv> 76"
abbreviation (input) MAX_CLIENTS :: nat where "MAX_CLIENTS \<equiv> 10"

subsection \<open>Message types and the message struct\<close>

text \<open>\<open>MSG_OTHER\<close> is a byte that is no enumerator: the C enum holds it as well.\<close>

datatype msg_type_t =
    MSG_REGISTER | MSG_DISCOVER | MSG_DISCOVER_RESP | MSG_VALIDATE
  | MSG_LOGIN | MSG_LOGOUT
  | MSG_BROADCAST | MSG_PRIVATE
  | MSG_LIST_USERS | MSG_USER_LIST
  | MSG_ACK | MSG_ERROR
  | MSG_HISTORY_REQ | MSG_HISTORY_RESP | MSG_STATUS_CHANGE
  | MSG_OTHER "8 word"

fun type_code :: "msg_type_t \<Rightarrow> 8 word" where
  "type_code MSG_REGISTER = 0x01"
| "type_code MSG_DISCOVER = 0x02"
| "type_code MSG_DISCOVER_RESP = 0x03"
| "type_code MSG_VALIDATE = 0x04"
| "type_code MSG_LOGIN = 0x10"
| "type_code MSG_LOGOUT = 0x11"
| "type_code MSG_BROADCAST = 0x20"
| "type_code MSG_PRIVATE = 0x21"
| "type_code MSG_LIST_USERS = 0x30"
| "type_code MSG_USER_LIST = 0x31"
| "type_code MSG_ACK = 0x40"
| "type_code MSG_ERROR = 0x41"
| "type_code MSG_HISTORY_REQ = 0x50"
| "type_code MSG_HISTORY_RESP = 0x51"
| "type_code MSG_STATUS_CHANGE = 0x52"
| "type_code (MSG_OTHER b) = b"

definition named_types :: "msg_type_t list" where
  "named_types = [MSG_REGISTER, MSG_DISCOVER, MSG_DISCOVER_RESP, MSG_VALIDATE, MSG_LOGIN,
     MSG_LOGOUT, MSG_BROADCAST, MSG_PRIVATE, MSG_LIST_USERS, MSG_USER_LIST, MSG_ACK,
     MSG_ERROR, MSG_HISTORY_REQ, MSG_HISTORY_RESP, MSG_STATUS_CHANGE]"

definition type_of_code :: "8 word \<Rightarrow> msg_type_t" where
  "type_of_code b = (case find (\<lambda>t. type_code t = b) named_types of Some t \<Rightarrow> t | None \<Rightarrow> MSG_OTHER b)"

datatype user_status_t = STATUS_AVAILABLE | STATUS_BUSY | STATUS_AWAY

fun status_code :: "user_status_t \<Rightarrow> nat" where
  "status_code STATUS_AVAILABLE = 0"
| "status_code STATUS_BUSY = 1"
| "status_code STATUS_AWAY = 2"

record Message =
  msg_type :: msg_type_t
  msg_status :: "8 word"
  sender :: "char list"
  receiver :: "char list"
  timestamp :: "64 word"
  payload_len :: "16 word"
  payload :: "char list"

subsection \<open>The codec\<close>

text \<open>The cast of an integer to \<open>char\<close> keeps the low 8 bits; a byte read
  back through \<open>unsigned char\<close> is 0 to 255.\<close>

definition byte_of :: "'a::len word \<Rightarrow> char" where
  "byte_of w = char_of (unat w)"

definition word_of_byte :: "char \<Rightarrow> 'a::len word" where
  "word_of_byte c = of_nat (of_char c)"

definition write_u64_be :: "64 word \<Rightarrow> char list" where
  "write_u64_be val =
     [byte_of (drop_bit 56 val AND 0xFF), byte_of (drop_bit 48 val AND 0xFF),
      byte_of (drop_bit 40 val AND 0xFF), byte_of (drop_bit 32 val AND 0xFF),
      byte_of (drop_bit 24 val AND 0xFF), byte_of (drop_bit 16 val AND 0xFF),
      byte_of (drop_bit 8 val AND 0xFF), byte_of (val AND 0xFF)]"

definition read_u64_be :: "char list \<Rightarrow> 64 word" where
  "read_u64_be buf =
     push_bit 56 (word_of_byte (buf ! 0)) OR push_bit 48 (word_of_byte (buf ! 1)) OR
     push_bit 40 (word_of_byte (buf ! 2)) OR push_bit 32 (word_of_byte (buf ! 3)) OR
     push_bit 24 (word_of_byte (buf ! 4)) OR push_bit 16 (word_of_byte (buf ! 5)) OR
     push_bit 8 (word_of_byte (buf ! 6)) OR word_of_byte (buf ! 7)"

definition read_u16_be :: "char \<Rightarrow> char \<Rightarrow> 16 word" where
  "read_u16_be hi lo = push_bit 8 (word_of_byte hi) OR word_of_byte lo"

definition pack_message :: "Message \<Rightarrow> char list" where
  "pack_message m =
     (let plen = (if unat (payload_len m) \<le> MAX_PAYLOAD_LEN then payload_len m else 1024)
      in [byte_of (type_code (msg_type m)), byte_of (msg_status m)]
         @ strncpy (zeros MAX_USERNAME_LEN) (sender m) (MAX_USERNAME_LEN - 1)
         @ strncpy (zeros MAX_USERNAME_LEN) (receiver m) (MAX_USERNAME_LEN - 1)
         @ write_u64_be (timestamp m)
         @ [byte_of (drop_bit 8 plen AND 0xFF), byte_of (plen AND 0xFF)]
         @ take (unat plen) (payload m))"

definition unpack_message :: "char list \<Rightarrow> nat \<Rightarrow> Message option" where
  "unpack_message buf buf_len =
     (if buf_len < HEADER_SIZE then None
      else
        let plen = read_u16_be (buf ! 74) (buf ! 75);
            m = \<lparr>msg_type = type_of_code (word_of_byte (buf ! 0)),
                 msg_status = word_of_byte (buf ! 1),
                 sender = (take MAX_USERNAME_LEN (drop 2 buf))[MAX_USERNAME_LEN - 1 := NUL],
                 receiver = (take MAX_USERNAME_LEN (drop 34 buf))[MAX_USERNAME_LEN - 1 := NUL],
                 timestamp = read_u64_be (drop 66 buf),
                 payload_len = plen,
                 payload = zeros MAX_PAYLOAD_LEN\<rparr>
        in if unat plen > MAX_PAYLOAD_LEN then None
           else if plen > 0 then
             (if buf_len < HEADER_SIZE + unat plen then None
              else Some (m\<lparr>payload := take (unat plen) (drop HEADER_SIZE buf)
                                     @ zeros (MAX_PAYLOAD_LEN - unat plen)\<rparr>))
           else Some m)"

text \<open>\<open>make_message\<close>: \<open>None\<close> is a null pointer, \<open>now\<close> is
  \<open>time(NULL)\<close>.\<close>

definition make_message ::
  "64 word \<Rightarrow> msg_type_t \<Rightarrow> char list option \<Rightarrow> char list option \<Rightarrow> char list option \<Rightarrow> Message" where
  "make_message now t snd_name rcv_name pl =
     (let name = (\<lambda>x. case x of None \<Rightarrow> zeros MAX_USERNAME_LEN
                       | Some u \<Rightarrow> strncpy (zeros MAX_USERNAME_LEN) u (MAX_USERNAME_LEN - 1));
          m = \<lparr>msg_type = t, msg_status = 0, sender = name snd_name, receiver = name rcv_name,
               timestamp = now, payload_len = 0, payload = zeros MAX_PAYLOAD_LEN\<rparr>
      in case pl of None \<Rightarrow> m
         | Some p \<Rightarrow>
             let plen = min (length (cstr p)) MAX_PAYLOAD_LEN
             in m\<lparr>payload := take plen (cstr p) @ zeros (MAX_PAYLOAD_LEN - plen),
                  payload_len := of_nat plen\<rparr>)"

text \<open>The calls of \<open>src/\<close> pass no null pointer.\<close>

abbreviation new_message :: "64 word \<Rightarrow> msg_type_t \<Rightarrow> char list \<Rightarrow> char list \<Rightarrow> char list \<Rightarrow> Message" where
  "new_message now t s r p \<equiv> make_message now t (Some s) (Some r) (Some p)"

subsection \<open>Well-formed messages\<close>

definition canonical_name :: "char list \<Rightarrow> bool" where
  "canonical_name a \<longleftrightarrow> (\<exists>u. cstring u \<and> length u \<le> 31 \<and> a = u @ zeros (32 - length u))"

definition wf_type :: "msg_type_t \<Rightarrow> bool" where
  "wf_type t \<longleftrightarrow> type_of_code (type_code t) = t"

text \<open>\<open>valid_message\<close> holds of every message made or received;
  \<open>wf_message\<close> moreover has zero-padded names.\<close>

definition valid_message :: "Message \<Rightarrow> bool" where
  "valid_message m \<longleftrightarrow>
     wf_type (msg_type m) \<and>
     length (sender m) = 32 \<and> sender m ! 31 = NUL \<and>
     length (receiver m) = 32 \<and> receiver m ! 31 = NUL \<and>
     unat (payload_len m) \<le> 1024 \<and> length (payload m) = 1024 \<and>
     drop (unat (payload_len m)) (payload m) = zeros (1024 - unat (payload_len m))"

definition wf_message :: "Message \<Rightarrow> bool" where
  "wf_message m \<longleftrightarrow> valid_message m \<and> canonical_name (sender m) \<and> canonical_name (receiver m)"

definition pad_names :: "Message \<Rightarrow> Message" where
  "pad_names m = m\<lparr>sender := strncpy (zeros 32) (sender m) 31,
                   receiver := strncpy (zeros 32) (receiver m) 31\<rparr>"

lemma word_of_byte_byte_of: "word_of_byte (byte_of (w :: 'a::len word)) = (take_bit 8 w :: 'a word)"
proof -
  have "(of_char (char_of (unat w)) :: nat) = take_bit 8 (unat w)"
    by (simp add: take_bit_eq_mod)
  then show ?thesis
    by (simp add: word_of_byte_def byte_of_def flip: unsigned_take_bit_eq)
qed

lemma mask8: "take_bit 8 (w AND 0xFF) = take_bit 8 (w :: 'a::len word)"
proof -
  have "(0xFF :: 'a word) = mask 8" by (simp add: mask_eq_exp_minus_1)
  then have "w AND 0xFF = take_bit 8 w" by (simp only: take_bit_eq_mask)
  then show ?thesis by simp
qed

text \<open>One more byte above the low \<open>k\<close> bits.\<close>

lemma or_next_byte:
  "push_bit k (take_bit 8 (drop_bit k w)) OR take_bit k w = take_bit (k + 8) (w :: 'a::len word)"
  by (rule bit_word_eqI) (auto simp: bit_simps)

lemmas next_byte = or_next_byte [where k = 8, simplified] or_next_byte [where k = 16, simplified]
  or_next_byte [where k = 24, simplified] or_next_byte [where k = 32, simplified]
  or_next_byte [where k = 40, simplified] or_next_byte [where k = 48, simplified]
  or_next_byte [where k = 56, simplified]

lemma read_write_u16: "read_u16_be (byte_of (drop_bit 8 w AND 0xFF)) (byte_of (w AND 0xFF)) = w"
  unfolding read_u16_be_def word_of_byte_byte_of mask8 next_byte
  by (simp add: take_bit_word_eq_self)

lemma read_u64_be_bytes:
  "read_u64_be (b0 # b1 # b2 # b3 # b4 # b5 # b6 # b7 # r) =
     push_bit 56 (word_of_byte b0) OR push_bit 48 (word_of_byte b1) OR
     push_bit 40 (word_of_byte b2) OR push_bit 32 (word_of_byte b3) OR
     push_bit 24 (word_of_byte b4) OR push_bit 16 (word_of_byte b5) OR
     push_bit 8 (word_of_byte b6) OR word_of_byte b7"
  by (simp add: read_u64_be_def)

lemma read_write_u64: "read_u64_be (write_u64_be w @ r) = w"
  unfolding write_u64_be_def append.simps read_u64_be_bytes word_of_byte_byte_of mask8 next_byte
  by (simp add: take_bit_word_eq_self)

lemma length_write_u64 [simp]: "length (write_u64_be w) = 8"
  by (simp add: write_u64_be_def)

lemma word_of_byte_byte_of_8 [simp]: "word_of_byte (byte_of (b :: 8 word)) = b"
  by (simp add: word_of_byte_byte_of take_bit_word_eq_self)

lemma byte_of_word_of_byte [simp]: "byte_of (word_of_byte c :: 8 word) = c"
proof -
  have "(of_char c :: nat) < 256" by simp
  then have "unat (word_of_byte c :: 8 word) = of_char c"
    by (simp add: word_of_byte_def unat_of_nat)
  then show ?thesis by (simp add: byte_of_def)
qed

subsection \<open>Types\<close>

lemma type_of_code_named: "t \<in> set named_types \<Longrightarrow> type_of_code (type_code t) = t"
  by (auto simp: named_types_def type_of_code_def)

lemma type_code_type_of_code [simp]: "type_code (type_of_code b) = b"
  by (auto simp: type_of_code_def find_Some_iff split: option.split)

lemma wf_type_of_code [simp]: "wf_type (type_of_code b)"
  by (simp add: wf_type_def)

lemma wf_type_named [simp]:
  "wf_type MSG_REGISTER" "wf_type MSG_DISCOVER" "wf_type MSG_DISCOVER_RESP" "wf_type MSG_VALIDATE"
  "wf_type MSG_LOGIN" "wf_type MSG_LOGOUT" "wf_type MSG_BROADCAST" "wf_type MSG_PRIVATE"
  "wf_type MSG_LIST_USERS" "wf_type MSG_USER_LIST" "wf_type MSG_ACK" "wf_type MSG_ERROR"
  "wf_type MSG_HISTORY_REQ" "wf_type MSG_HISTORY_RESP" "wf_type MSG_STATUS_CHANGE"
  by (simp_all add: wf_type_def type_of_code_def named_types_def)

subsection \<open>Names\<close>

lemma length_strncpy_name [simp]: "length (strncpy (zeros 32) u 31) = 32"
  by simp

lemma strncpy_name: "strncpy (zeros 32) u 31 = take 31 (cstr u) @ zeros (32 - length (take 31 (cstr u)))"
  by (subst strncpy_zero_tail [where k = 1]) (auto intro!: arg_cong [where f = zeros])

lemma canonical_strncpy [simp, wf_intros]: "canonical_name (strncpy (zeros 32) u 31)"
  unfolding canonical_name_def strncpy_name by (intro exI [of _ "take 31 (cstr u)"]) simp

lemma canonical_zeros [simp]: "canonical_name (zeros 32)"
  unfolding canonical_name_def by (intro exI [of _ "[]"]) simp

lemma cstr_strncpy_name [simp]: "cstr (strncpy (zeros 32) u 31) = take 31 (cstr u)"
  by (simp add: strncpy_name)

lemma strncpy_canonical: "canonical_name a \<Longrightarrow> strncpy (zeros 32) a 31 = a"
  by (auto simp: canonical_name_def strncpy_name)

lemma strncpy_onto_canonical:
  assumes "canonical_name a"
  shows "strncpy a u 31 = strncpy (zeros 32) u 31"
proof -
  from assms have "drop 31 a = zeros 1"
    by (auto simp: canonical_name_def)
  then show ?thesis by (simp add: strncpy_def Let_def)
qed

lemma canonical_length: "canonical_name a \<Longrightarrow> length a = 32 \<and> a ! 31 = NUL"
  by (auto simp: canonical_name_def nth_append zeros_def)

lemma length_cstr_terminated:
  assumes "length a = 32" "a ! 31 = NUL"
  shows "length (cstr a) \<le> 31"
proof (rule ccontr)
  assume "\<not> ?thesis"
  then have "31 < length (takeWhile (\<lambda>c. c \<noteq> NUL) a)" by (simp add: cstr_def)
  then have "takeWhile (\<lambda>c. c \<noteq> NUL) a ! 31 \<noteq> NUL" and "takeWhile (\<lambda>c. c \<noteq> NUL) a ! 31 = a ! 31"
    using nth_mem set_takeWhileD by (fastforce, simp add: takeWhile_nth)
  with assms(2) show False by simp
qed

subsection \<open>Packing\<close>

lemma length_pack_message [simp]: "length (pack_message m) = 76 + min (length (payload m)) (min (unat (payload_len m)) 1024)"
  by (simp add: pack_message_def Let_def)

lemma pack_message_valid:
  assumes "unat (payload_len m) \<le> 1024"
  shows "pack_message m =
    [byte_of (type_code (msg_type m)), byte_of (msg_status m)]
      @ strncpy (zeros 32) (sender m) 31 @ strncpy (zeros 32) (receiver m) 31
      @ write_u64_be (timestamp m)
      @ [byte_of (drop_bit 8 (payload_len m) AND 0xFF), byte_of (payload_len m AND 0xFF)]
      @ take (unat (payload_len m)) (payload m)"
  using assms by (simp add: pack_message_def Let_def)

lemma length_pack_valid:
  "unat (payload_len m) \<le> 1024 \<Longrightarrow> length (payload m) = 1024 \<Longrightarrow> length (pack_message m) = 76 + unat (payload_len m)"
  by simp

lemma length_pack_pos [simp]: "0 < length (pack_message m)" and pack_not_Nil [simp]: "pack_message m \<noteq> []"
  by (simp_all add: pack_message_def Let_def)

lemma length_pack_le: "length (pack_message m) \<le> 1100"
  by simp

text \<open>Reading the fields of a buffer that starts with the fixed header.\<close>

lemma header_fields:
  assumes "buf = [b0, b1] @ s @ r @ ts @ [l0, l1] @ pl"
    and "length s = 32" "length r = 32" "length ts = 8"
  shows "buf ! 0 = b0" "buf ! 1 = b1" "take 32 (drop 2 buf) = s" "take 32 (drop 34 buf) = r"
    "drop 66 buf = ts @ l0 # l1 # pl" "buf ! 74 = l0" "buf ! 75 = l1" "drop 76 buf = pl"
  using assms by (simp_all add: nth_append nth_Cons')

lemma pack_header:
  assumes "unat (payload_len m) \<le> 1024" and buf_def: "buf = pack_message m @ rest"
  shows "buf ! 0 = byte_of (type_code (msg_type m))" "buf ! 1 = byte_of (msg_status m)"
    "take 32 (drop 2 buf) = strncpy (zeros 32) (sender m) 31"
    "take 32 (drop 34 buf) = strncpy (zeros 32) (receiver m) 31"
    "read_u64_be (drop 66 buf) = timestamp m"
    "read_u16_be (buf ! 74) (buf ! 75) = payload_len m"
    "drop 76 buf = take (unat (payload_len m)) (payload m) @ rest"
proof -
  have buf: "buf = [byte_of (type_code (msg_type m)), byte_of (msg_status m)]
      @ strncpy (zeros 32) (sender m) 31 @ strncpy (zeros 32) (receiver m) 31
      @ write_u64_be (timestamp m)
      @ [byte_of (drop_bit 8 (payload_len m) AND 0xFF), byte_of (payload_len m AND 0xFF)]
      @ (take (unat (payload_len m)) (payload m) @ rest)"
    by (simp add: buf_def pack_message_valid [OF assms(1)])
  note h = header_fields [OF buf length_strncpy_name length_strncpy_name length_write_u64]
  show "buf ! 0 = byte_of (type_code (msg_type m))" by (rule h)
  show "buf ! 1 = byte_of (msg_status m)" by (rule h)
  show "take 32 (drop 2 buf) = strncpy (zeros 32) (sender m) 31" by (rule h)
  show "take 32 (drop 34 buf) = strncpy (zeros 32) (receiver m) 31" by (rule h)
  show "read_u64_be (drop 66 buf) = timestamp m" unfolding h(5) by (rule read_write_u64)
  show "read_u16_be (buf ! 74) (buf ! 75) = payload_len m" unfolding h(6,7) by (rule read_write_u16)
  show "drop 76 buf = take (unat (payload_len m)) (payload m) @ rest" by (rule h)
qed

lemma name_update_last: "(strncpy (zeros 32) u 31)[31 := NUL] = strncpy (zeros 32) u 31"
proof -
  have "strncpy (zeros 32) u 31 ! 31 = NUL"
    using canonical_length [OF canonical_strncpy] by blast
  then show ?thesis by (metis list_update_id)
qed

text \<open>The round trip: unpacking at least the packed bytes gives the message with its
  names zero-padded.\<close>

lemma unpack_pack:
  assumes v: "valid_message m"
    and n: "length (pack_message m) \<le> n"
  shows "unpack_message (pack_message m @ rest) n = Some (pad_names m)"
proof -
  from v have len: "unat (payload_len m) \<le> 1024" and pl: "length (payload m) = 1024"
    and t: "wf_type (msg_type m)"
    and z: "drop (unat (payload_len m)) (payload m) = zeros (1024 - unat (payload_len m))"
    by (simp_all add: valid_message_def)
  note h = pack_header [OF len refl, of rest]
  have full: "take (unat (payload_len m)) (payload m) @ zeros (1024 - unat (payload_len m)) = payload m"
    unfolding z [symmetric] by (rule append_take_drop_id)
  have tk: "take (unat (payload_len m)) (take (unat (payload_len m)) (payload m) @ rest)
      = take (unat (payload_len m)) (payload m)"
    using len pl by simp
  have empty: "payload m = zeros 1024" if "\<not> payload_len m > 0"
    using that z by (simp add: word_gt_0)
  have norm: "pad_names m = \<lparr>msg_type = msg_type m, msg_status = msg_status m,
      sender = strncpy (zeros 32) (sender m) 31, receiver = strncpy (zeros 32) (receiver m) 31,
      timestamp = timestamp m, payload_len = payload_len m, payload = payload m\<rparr>"
    by (cases m) (simp add: pad_names_def)
  show ?thesis
    unfolding norm unpack_message_def h Let_def using n len pl t empty
    by (simp add: tk full name_update_last wf_type_def)
qed

lemma valid_pad_names [simp]: "valid_message m \<Longrightarrow> valid_message (pad_names m)"
  using canonical_length [OF canonical_strncpy] by (simp add: valid_message_def pad_names_def)

lemma wf_pad_names [simp, wf_intros]: "valid_message m \<Longrightarrow> wf_message (pad_names m)"
  using valid_pad_names [of m] by (simp add: wf_message_def pad_names_def)

lemma pad_names_wf [simp]: "wf_message m \<Longrightarrow> pad_names m = m"
  by (simp add: wf_message_def pad_names_def strncpy_canonical)

lemma wf_message_valid [simp]: "wf_message m \<Longrightarrow> valid_message m"
  by (simp add: wf_message_def)

lemma pack_pad_names [simp]: "pack_message (pad_names m) = pack_message m"
  using strncpy_canonical [OF canonical_strncpy]
  by (simp add: pack_message_def pad_names_def)

lemma pad_names_simps [simp]:
  "msg_type (pad_names m) = msg_type m" "msg_status (pad_names m) = msg_status m"
  "timestamp (pad_names m) = timestamp m" "payload_len (pad_names m) = payload_len m"
  "payload (pad_names m) = payload m"
  "cstr (sender (pad_names m)) = take 31 (cstr (sender m))"
  "cstr (receiver (pad_names m)) = take 31 (cstr (receiver m))"
  by (simp_all add: pad_names_def)

text \<open>Unpacking fails on a short header, a payload length over the maximum, and a
  buffer that does not hold the announced payload; on nothing else.\<close>

lemma unpack_None_iff:
  "unpack_message buf n = None \<longleftrightarrow>
     n < 76 \<or> 1024 < unat (read_u16_be (buf ! 74) (buf ! 75)) \<or>
     n < 76 + unat (read_u16_be (buf ! 74) (buf ! 75))"
  by (auto simp: unpack_message_def Let_def word_gt_0 unat_eq_0)

lemma unpack_valid:
  assumes "unpack_message buf n = Some m" and "n \<le> length buf"
  shows "valid_message m"
  using assms
  by (auto simp: unpack_message_def Let_def valid_message_def word_gt_0 split: if_splits)

lemma unpack_fields:
  assumes "unpack_message buf n = Some m"
  shows "msg_type m = type_of_code (word_of_byte (buf ! 0))" "msg_status m = word_of_byte (buf ! 1)"
    "payload_len m = read_u16_be (buf ! 74) (buf ! 75)" "timestamp m = read_u64_be (drop 66 buf)"
  using assms by (auto simp: unpack_message_def Let_def split: if_splits)

text \<open>A server that receives and forwards a message changes nothing but the bytes
  after the terminators of the two names.\<close>

lemma forward_unpack:
  "unpack_message buf n = Some m \<Longrightarrow> n \<le> length buf \<Longrightarrow>
   unpack_message (pack_message m) (length (pack_message m)) = Some (pad_names m)"
  using unpack_pack [of m _ "[]"] unpack_valid by simp

lemma pack_inj: "wf_message a \<Longrightarrow> wf_message b \<Longrightarrow> pack_message a = pack_message b \<Longrightarrow> a = b"
  using unpack_pack [of a _ "[]"] unpack_pack [of b _ "[]"] by fastforce

subsection \<open>Making messages\<close>

lemma unat_le_1024 [simp]: "n \<le> 1024 \<Longrightarrow> unat (of_nat n :: 16 word) = n"
  by (simp add: unat_of_nat)

lemma make_message_fields:
  "sender (make_message now t s r p) =
     (case s of None \<Rightarrow> zeros 32 | Some u \<Rightarrow> strncpy (zeros 32) u 31)"
  "receiver (make_message now t s r p) =
     (case r of None \<Rightarrow> zeros 32 | Some u \<Rightarrow> strncpy (zeros 32) u 31)"
  "unat (payload_len (make_message now t s r p)) =
     (case p of None \<Rightarrow> 0 | Some x \<Rightarrow> min (length (cstr x)) 1024)"
  "payload (make_message now t s r p) =
     (case p of None \<Rightarrow> zeros 1024
      | Some x \<Rightarrow> take 1024 (cstr x) @ zeros (1024 - min (length (cstr x)) 1024))"
  by (auto simp: make_message_def Let_def min_def split: option.split)

lemma make_message_simps [simp]:
  "msg_type (make_message now t s r p) = t"
  "msg_status (make_message now t s r p) = 0"
  "timestamp (make_message now t s r p) = now"
  by (auto simp: make_message_def Let_def split: option.splits)

lemma canonical_terminated [simp]: "strncpy (zeros 32) u 31 ! 31 = NUL" "zeros 32 ! 31 = NUL"
  using canonical_length [OF canonical_strncpy] canonical_length [OF canonical_zeros] by auto

lemma wf_make_message [simp, wf_intros]: "wf_type t \<Longrightarrow> wf_message (make_message now t s r p)"
  by (simp add: wf_message_def valid_message_def make_message_fields min_def split: option.split)

lemma new_message_simps [simp]:
  "cstr (sender (new_message now t s r p)) = take 31 (cstr s)"
  "cstr (receiver (new_message now t s r p)) = take 31 (cstr r)"
  "cstr (payload (new_message now t s r p)) = take 1024 (cstr p)"
  "unat (payload_len (new_message now t s r p)) = min (length (cstr p)) 1024"
  by (simp_all add: make_message_fields)

lemma wf_message_set_status [simp, wf_intros]:
  "wf_message m \<Longrightarrow> wf_message (m\<lparr>msg_status := st\<rparr>)"
  "valid_message m \<Longrightarrow> valid_message (m\<lparr>msg_status := st\<rparr>)"
  by (simp_all add: wf_message_def valid_message_def)

end
