(* ===== verification/Stream_IO.thy ===== *)
theory Stream_IO
  imports Protocol
begin

text \<open>
  \<open>send_message\<close> and \<open>recv_message\<close> of \<open>src/protocol.c\<close> on
  a blocking descriptor, over the two system calls they use. What the kernel does with
  one \<open>read\<close> or \<open>write\<close> is a script of outcomes: \<open>RData k\<close>
  hands over at most \<open>k + 1\<close> bytes, \<open>WData k\<close> takes at most
  \<open>k\<close> bytes (\<open>WData 0\<close> is a return of 0), \<open>RIntr\<close> and
  \<open>WIntr\<close> are \<open>EINTR\<close>, \<open>RErr\<close> and \<open>WErr\<close> any other
  error; when the script is used up the kernel transfers everything asked for. The
  bytes of a reading end are all the bytes its peer sends before closing, so no bytes
  left is end of file. Both loops terminate since the script is finite. The lemmas show
  that a send puts a prefix of the packed message on the wire, all of it when it
  returns 0, and that whatever the splitting and interruptions, receiving what was sent
  gives the messages back in order.
\<close>

datatype rd_res = RData nat | RIntr | RErr

record rsock =
  r_bytes :: "char list"
  r_script :: "rd_res list"

datatype rd_out = Bytes "char list" | ReadIntr | ReadErr

text \<open>One \<open>read(fd, buf, n)\<close>; \<open>Bytes []\<close> is a return of 0.\<close>

fun c_read :: "nat \<Rightarrow> rsock \<Rightarrow> rd_out \<times> rsock" where
  "c_read n s =
     (case r_script s of
        [] \<Rightarrow> (Bytes (take n (r_bytes s)), s\<lparr>r_bytes := drop n (r_bytes s)\<rparr>)
      | RData k # rest \<Rightarrow>
          (let j = min n (Suc k)
           in (Bytes (take j (r_bytes s)), s\<lparr>r_bytes := drop j (r_bytes s), r_script := rest\<rparr>))
      | RIntr # rest \<Rightarrow> (ReadIntr, s\<lparr>r_script := rest\<rparr>)
      | RErr # rest \<Rightarrow> (ReadErr, s\<lparr>r_script := rest\<rparr>))"

declare c_read.simps [simp del]

lemma c_read_Bytes:
  assumes "c_read n s = (Bytes bs, s')"
  shows "bs @ r_bytes s' = r_bytes s" "length bs \<le> n" "length (r_script s') \<le> length (r_script s)"
    "set (r_script s') \<subseteq> set (r_script s)"
  using assms by (auto simp: c_read.simps Let_def split: list.splits rd_res.splits)

lemma c_read_Nil:
  assumes "c_read n s = (Bytes [], s')" "0 < n"
  shows "r_bytes s = []"
  using assms by (auto simp: c_read.simps Let_def split: list.splits rd_res.splits)

lemma c_read_Intr:
  assumes "c_read n s = (ReadIntr, s')"
  shows "r_bytes s' = r_bytes s" "length (r_script s') < length (r_script s)"
    "set (r_script s') \<subseteq> set (r_script s)"
  using assms by (auto simp: c_read.simps Let_def split: list.splits rd_res.splits)

lemma c_read_Err: "c_read n s = (ReadErr, s') \<Longrightarrow> RErr \<in> set (r_script s)"
  by (auto simp: c_read.simps Let_def split: list.splits rd_res.splits)

text \<open>The loop \<open>while (received < need) { n = read(...); ... }\<close>.\<close>

function (sequential) read_full :: "nat \<Rightarrow> char list \<Rightarrow> rsock \<Rightarrow> char list option \<times> rsock" where
  "read_full need acc s =
     (if length acc < need then
        (case c_read (need - length acc) s of
           (Bytes bs, s') \<Rightarrow> if bs = [] then (None, s') else read_full need (acc @ bs) s'
         | (ReadIntr, s') \<Rightarrow> read_full need acc s'
         | (ReadErr, s') \<Rightarrow> (None, s'))
      else (Some acc, s))"
  by pat_completeness auto
termination
proof (relation "measure (\<lambda>(need, acc, s). (need - length acc) + length (r_script s))", goal_cases)
  case 1
  show ?case by simp
next
  case prems: (2 need acc s out rest bs)
  have "c_read (need - length acc) s = (Bytes bs, rest)" using prems(2,3) by simp
  from c_read_Bytes(3) [OF this] prems(1,4) show ?case by (cases bs) auto
next
  case prems: (3 need acc s out rest)
  have "c_read (need - length acc) s = (ReadIntr, rest)" using prems(2,3) by simp
  from c_read_Intr(2) [OF this] show ?case by simp
qed

declare read_full.simps [simp del]

definition recv_message :: "rsock \<Rightarrow> Message option \<times> rsock" where
  "recv_message s =
     (case read_full HEADER_SIZE [] s of
        (None, s1) \<Rightarrow> (None, s1)
      | (Some header, s1) \<Rightarrow>
          (let plen = read_u16_be (header ! 74) (header ! 75)
           in if unat plen > MAX_PAYLOAD_LEN then (None, s1)
              else (case read_full (unat plen) [] s1 of
                      (None, s2) \<Rightarrow> (None, s2)
                    | (Some body, s2) \<Rightarrow>
                        (unpack_message (header @ body) (HEADER_SIZE + unat plen), s2))))"

subsection \<open>Receiving\<close>

definition no_rd_err :: "rsock \<Rightarrow> bool" where
  "no_rd_err s \<longleftrightarrow> RErr \<notin> set (r_script s)"

text \<open>With enough bytes and no hard error the loop returns exactly the bytes it needs
  and leaves the rest.\<close>

lemma read_full_enough:
  assumes "need \<le> length acc + length (r_bytes s)" "no_rd_err s" "length acc \<le> need"
  shows "\<exists>s'. read_full need acc s = (Some (acc @ take (need - length acc) (r_bytes s)), s')
     \<and> r_bytes s' = drop (need - length acc) (r_bytes s) \<and> no_rd_err s'"
  using assms
proof (induction need acc s rule: read_full.induct)
  case (1 need acc s)
  show ?case
  proof (cases "length acc < need")
    case False
    with "1.prems" show ?thesis by (subst read_full.simps) auto
  next
    case True
    obtain out s1 where rd: "c_read (need - length acc) s = (out, s1)" by fastforce
    show ?thesis
    proof (cases out)
      case (Bytes bs)
      note b = c_read_Bytes [OF rd [unfolded Bytes]]
      have rb: "r_bytes s = bs @ r_bytes s1" using b(1) by simp
      have ne: "bs \<noteq> []" using c_read_Nil [of "need - length acc" s s1] rd Bytes True "1.prems"(1) by fastforce
      have len: "need \<le> length (acc @ bs) + length (r_bytes s1)" "length (acc @ bs) \<le> need"
        using "1.prems"(1) b(2) True by (simp_all add: rb)
      have ok: "no_rd_err s1" using "1.prems"(2) b(4) by (auto simp: no_rd_err_def)
      obtain s' where s': "read_full need (acc @ bs) s1 = (Some ((acc @ bs) @ take (need - length (acc @ bs)) (r_bytes s1)), s')"
          "r_bytes s' = drop (need - length (acc @ bs)) (r_bytes s1)" "no_rd_err s'"
        using "1.IH"(1) [OF True rd [symmetric] Bytes ne len(1) ok len(2)] by blast
      have eq: "read_full need acc s = read_full need (acc @ bs) s1"
        using True rd Bytes ne by (simp add: read_full.simps [of need acc s])
      have "take (need - length acc) (r_bytes s) = bs @ take (need - length (acc @ bs)) (r_bytes s1)"
        and "drop (need - length acc) (r_bytes s) = drop (need - length (acc @ bs)) (r_bytes s1)"
        using b(2) by (simp_all add: rb)
      with s' show ?thesis by (auto simp: eq)
    next
      case ReadIntr
      note b = c_read_Intr [OF rd [unfolded ReadIntr]]
      have "no_rd_err s1" using "1.prems"(2) b(3) by (auto simp: no_rd_err_def)
      with "1.IH"(2) [OF True rd [symmetric] ReadIntr] "1.prems" b(1) True rd ReadIntr
      show ?thesis by (simp add: read_full.simps [of need acc s])
    next
      case ReadErr
      with rd "1.prems"(2) show ?thesis by (auto simp: no_rd_err_def dest: c_read_Err)
    qed
  qed
qed

text \<open>When it succeeds at all, it has read exactly a prefix of the stream.\<close>

lemma read_full_SomeD:
  assumes "read_full need acc s = (Some bs, s')" "length acc \<le> need"
  shows "length bs = need \<and> bs @ r_bytes s' = acc @ r_bytes s"
  using assms
proof (induction need acc s rule: read_full.induct)
  case (1 need acc s)
  show ?case
  proof (cases "length acc < need")
    case False
    with "1.prems" show ?thesis by (simp add: read_full.simps [of need acc s])
  next
    case True
    obtain out s1 where rd: "c_read (need - length acc) s = (out, s1)" by fastforce
    show ?thesis
    proof (cases out)
      case (Bytes xs)
      with 1 True rd c_read_Bytes(1,2) [of "need - length acc" s xs s1] show ?thesis
        by (auto simp: read_full.simps [of need acc s] split: if_splits)
    next
      case ReadIntr
      with 1 True rd c_read_Intr(1) [of "need - length acc" s s1] show ?thesis
        by (auto simp: read_full.simps [of need acc s])
    next
      case ReadErr
      with 1 True rd show ?thesis by (auto simp: read_full.simps [of need acc s])
    qed
  qed
qed

lemma recv_packed:
  assumes v: "valid_message m" and b: "r_bytes s = pack_message m @ rest" and ok: "no_rd_err s"
  shows "\<exists>s'. recv_message s = (Some (pad_names m), s') \<and> r_bytes s' = rest \<and> no_rd_err s'"
proof -
  have len: "unat (payload_len m) \<le> 1024" and pl: "length (payload m) = 1024"
    using v by (simp_all add: valid_message_def)
  then have lp: "length (pack_message m) = 76 + unat (payload_len m)" by (rule length_pack_valid)
  obtain s1 where s1: "read_full 76 [] s = (Some (take 76 (pack_message m)), s1)"
      "r_bytes s1 = drop 76 (pack_message m) @ rest" "no_rd_err s1"
    using read_full_enough [of 76 "[]" s] ok lp b by auto
  have hdr: "read_u16_be (take 76 (pack_message m) ! 74) (take 76 (pack_message m) ! 75) = payload_len m"
    using pack_header(6) [OF len, of _ "[]"] by simp
  obtain s2 where s2: "read_full (unat (payload_len m)) [] s1 = (Some (drop 76 (pack_message m)), s2)"
      "r_bytes s2 = rest" "no_rd_err s2"
    using read_full_enough [of "unat (payload_len m)" "[]" s1] s1 lp by auto
  have "unpack_message (pack_message m) (76 + unat (payload_len m)) = Some (pad_names m)"
    using unpack_pack [OF v, of "76 + unat (payload_len m)" "[]"] lp by simp
  then show ?thesis
    using s1(1) s2 hdr len by (simp add: recv_message_def Let_def not_less)
qed

text \<open>Whatever the stream, a received message is well formed and is the decoding of
  exactly the bytes consumed.\<close>

lemma recv_message_SomeD:
  assumes "recv_message s = (Some m, s')"
  shows "valid_message m \<and> (\<exists>buf. r_bytes s = buf @ r_bytes s' \<and> length buf = 76 + unat (payload_len m)
     \<and> unpack_message buf (length buf) = Some m)"
proof -
  from assms obtain hd s1 bd where
      1: "read_full 76 [] s = (Some hd, s1)"
    and 2: "read_full (unat (read_u16_be (hd ! 74) (hd ! 75))) [] s1 = (Some bd, s')"
    and u: "unpack_message (hd @ bd) (76 + unat (read_u16_be (hd ! 74) (hd ! 75))) = Some m"
    by (auto simp: recv_message_def Let_def split: prod.splits option.splits if_splits)
  from read_full_SomeD [OF 1] read_full_SomeD [OF 2]
  have l: "length hd = 76" "length bd = unat (read_u16_be (hd ! 74) (hd ! 75))"
      "r_bytes s = (hd @ bd) @ r_bytes s'"
    by simp_all
  from unpack_fields(3) [OF u] l have "payload_len m = read_u16_be (hd ! 74) (hd ! 75)"
    by (simp add: nth_append)
  with u l unpack_valid [OF u] show ?thesis
    by (intro conjI exI [of _ "hd @ bd"]) simp_all
qed

lemma recv_message_consumes:
  "recv_message s = (Some m, s') \<Longrightarrow> length (r_bytes s') < length (r_bytes s)"
  by (drule recv_message_SomeD) auto

text \<open>Receiving until the first failure, as the receiving loops of the programs do.\<close>

function recv_all :: "rsock \<Rightarrow> Message list \<times> rsock" where
  "recv_all s =
     (case recv_message s of
        (None, s') \<Rightarrow> ([], s')
      | (Some m, s') \<Rightarrow> (case recv_all s' of (ms, s'') \<Rightarrow> (m # ms, s'')))"
  by pat_completeness auto
termination
  by (relation "measure (\<lambda>s. length (r_bytes s))") (simp_all add: recv_message_consumes [OF sym])

declare recv_all.simps [simp del]

lemma recv_at_eof:
  assumes "r_bytes s = []"
  shows "\<exists>s'. recv_message s = (None, s')"
proof (cases "recv_message s")
  case (Pair r s')
  with recv_message_consumes [of s _ s'] assms show ?thesis by (cases r) auto
qed

lemma recv_all_packed:
  assumes "r_bytes s = concat (map pack_message ms)" "no_rd_err s" "\<forall>m\<in>set ms. valid_message m"
  shows "fst (recv_all s) = map pad_names ms"
  using assms
proof (induction ms arbitrary: s)
  case Nil
  then obtain s' where "recv_message s = (None, s')" using recv_at_eof [of s] by auto
  then show ?case by (simp add: recv_all.simps [of s])
next
  case (Cons m ms)
  then obtain s' where "recv_message s = (Some (pad_names m), s')"
      "r_bytes s' = concat (map pack_message ms)" "no_rd_err s'"
    using recv_packed [of m s "concat (map pack_message ms)"] by auto
  with Cons.IH [of s'] Cons.prems show ?case
    by (cases "recv_all s'") (simp add: recv_all.simps [of s])
qed

lemma recv_too_long:
  assumes "76 \<le> length (r_bytes s)" "1024 < unat (read_u16_be (r_bytes s ! 74) (r_bytes s ! 75))"
  shows "fst (recv_message s) = None"
proof (cases "read_full 76 [] s")
  case (Pair r s1)
  show ?thesis
  proof (cases r)
    case None
    with Pair show ?thesis by (simp add: recv_message_def)
  next
    case (Some h)
    with read_full_SomeD [of 76 "[]" s h s1] Pair
    have "length h = 76" "r_bytes s = h @ r_bytes s1" by auto
    with assms(2) have "1024 < unat (read_u16_be (h ! 74) (h ! 75))" by (simp add: nth_append)
    with Pair Some show ?thesis by (simp add: recv_message_def Let_def)
  qed
qed

subsection \<open>Sending\<close>

datatype wr_res = WData nat | WIntr | WErr

record wsock =
  w_out :: "char list"
  w_script :: "wr_res list"

datatype wr_out = Wrote nat | WriteIntr | WriteErr

fun c_write :: "char list \<Rightarrow> wsock \<Rightarrow> wr_out \<times> wsock" where
  "c_write buf s =
     (case w_script s of
        [] \<Rightarrow> (Wrote (length buf), s\<lparr>w_out := w_out s @ buf\<rparr>)
      | WData k # rest \<Rightarrow>
          (Wrote (min k (length buf)), s\<lparr>w_out := w_out s @ take k buf, w_script := rest\<rparr>)
      | WIntr # rest \<Rightarrow> (WriteIntr, s\<lparr>w_script := rest\<rparr>)
      | WErr # rest \<Rightarrow> (WriteErr, s\<lparr>w_script := rest\<rparr>))"

declare c_write.simps [simp del]

lemma c_write_Wrote:
  assumes "c_write buf s = (Wrote n, s')"
  shows "n \<le> length buf" "w_out s' = w_out s @ take n buf" "length (w_script s') \<le> length (w_script s)"
    "set (w_script s') \<subseteq> set (w_script s)" "n = 0 \<Longrightarrow> buf \<noteq> [] \<Longrightarrow> WData 0 \<in> set (w_script s)"
  using assms by (auto simp: c_write.simps min_def split: list.splits wr_res.splits if_splits)

lemma c_write_Intr:
  assumes "c_write buf s = (WriteIntr, s')"
  shows "w_out s' = w_out s" "length (w_script s') < length (w_script s)"
    "set (w_script s') \<subseteq> set (w_script s)"
  using assms by (auto simp: c_write.simps split: list.splits wr_res.splits)

lemma c_write_Err:
  assumes "c_write buf s = (WriteErr, s')"
  shows "w_out s' = w_out s" "WErr \<in> set (w_script s)"
  using assms by (auto simp: c_write.simps split: list.splits wr_res.splits)

text \<open>The loop \<open>while (sent < total)\<close> of \<open>send_message\<close>; the result
  is whether it returned 0.\<close>

function (sequential) write_full :: "char list \<Rightarrow> nat \<Rightarrow> wsock \<Rightarrow> bool \<times> wsock" where
  "write_full buf sent s =
     (if sent < length buf then
        (case c_write (drop sent buf) s of
           (Wrote n, s') \<Rightarrow> if n = 0 then (False, s') else write_full buf (sent + n) s'
         | (WriteIntr, s') \<Rightarrow> write_full buf sent s'
         | (WriteErr, s') \<Rightarrow> (False, s'))
      else (True, s))"
  by pat_completeness auto
termination
proof (relation "measure (\<lambda>(buf, sent, s). (length buf - sent) + length (w_script s))", goal_cases)
  case 1
  show ?case by simp
next
  case prems: (2 buf sent s out rest n)
  have "c_write (drop sent buf) s = (Wrote n, rest)" using prems(2,3) by simp
  from c_write_Wrote(3) [OF this] prems(1,4) show ?case by auto
next
  case prems: (3 buf sent s out rest)
  have "c_write (drop sent buf) s = (WriteIntr, rest)" using prems(2,3) by simp
  from c_write_Intr(2) [OF this] show ?case by simp
qed

declare write_full.simps [simp del]

definition send_message :: "wsock \<Rightarrow> Message \<Rightarrow> bool \<times> wsock" where
  "send_message s m = write_full (pack_message m) 0 s"

definition no_wr_err :: "wsock \<Rightarrow> bool" where
  "no_wr_err s \<longleftrightarrow> WErr \<notin> set (w_script s) \<and> WData 0 \<notin> set (w_script s)"

text \<open>A prefix of the rest of the buffer reaches the wire: all of it on success.\<close>

lemma write_full_prefix:
  assumes "write_full buf sent s = (ok, s')"
  shows "\<exists>n. w_out s' = w_out s @ take n (drop sent buf) \<and> (ok \<longrightarrow> length buf \<le> sent + n)"
  using assms
proof (induction buf sent s rule: write_full.induct)
  case (1 buf sent s)
  show ?case
  proof (cases "sent < length buf")
    case False
    with "1.prems" show ?thesis by (auto simp: write_full.simps [of buf sent s] intro: exI [of _ 0])
  next
    case True
    obtain out s1 where wr: "c_write (drop sent buf) s = (out, s1)" by fastforce
    show ?thesis
    proof (cases out)
      case (Wrote n)
      note w = c_write_Wrote(1,2) [OF wr [unfolded Wrote]]
      show ?thesis
      proof (cases "n = 0")
        case True
        with wr Wrote w \<open>sent < length buf\<close> "1.prems" show ?thesis
          by (auto simp: write_full.simps [of buf sent s] intro: exI [of _ 0])
      next
        case False
        then have "write_full buf (sent + n) s1 = (ok, s')"
          using "1.prems" wr Wrote True by (simp add: write_full.simps [of buf sent s])
        from "1.IH"(1) [OF True wr [symmetric] Wrote False this]
        obtain k where "w_out s' = w_out s1 @ take k (drop (sent + n) buf)"
          and "ok \<longrightarrow> length buf \<le> sent + n + k" by auto
        with w show ?thesis
          by (intro exI [of _ "n + k"]) (auto simp: take_add add.commute [of sent n])
      qed
    next
      case WriteIntr
      with "1.IH"(2) [OF True wr [symmetric] WriteIntr] "1.prems" wr True
        c_write_Intr(1) [OF wr [unfolded WriteIntr]]
      show ?thesis by (simp add: write_full.simps [of buf sent s])
    next
      case WriteErr
      with c_write_Err(1) [OF wr [unfolded WriteErr]] "1.prems" wr True
      show ?thesis by (auto simp: write_full.simps [of buf sent s] intro: exI [of _ 0])
    qed
  qed
qed

lemma write_full_ok:
  assumes "no_wr_err s"
  shows "\<exists>s'. write_full buf sent s = (True, s') \<and> no_wr_err s'"
  using assms
proof (induction buf sent s rule: write_full.induct)
  case (1 buf sent s)
  show ?case
  proof (cases "sent < length buf")
    case False
    with "1.prems" show ?thesis by (simp add: write_full.simps [of buf sent s])
  next
    case True
    obtain out s1 where wr: "c_write (drop sent buf) s = (out, s1)" by fastforce
    show ?thesis
    proof (cases out)
      case (Wrote n)
      note w = c_write_Wrote [OF wr [unfolded Wrote]]
      have "n \<noteq> 0" and "no_wr_err s1" using w(4,5) "1.prems" True by (auto simp: no_wr_err_def)
      with "1.IH"(1) [OF True wr [symmetric] Wrote] wr Wrote True show ?thesis
        by (simp add: write_full.simps [of buf sent s])
    next
      case WriteIntr
      with c_write_Intr(3) [OF wr [unfolded WriteIntr]] "1.prems" have "no_wr_err s1"
        by (auto simp: no_wr_err_def)
      with "1.IH"(2) [OF True wr [symmetric] WriteIntr] wr WriteIntr True show ?thesis
        by (simp add: write_full.simps [of buf sent s])
    next
      case WriteErr
      with c_write_Err(2) [OF wr [unfolded WriteErr]] "1.prems" show ?thesis
        by (auto simp: no_wr_err_def)
    qed
  qed
qed

lemma send_message_ok:
  assumes "no_wr_err s"
  shows "\<exists>s'. send_message s m = (True, s') \<and> w_out s' = w_out s @ pack_message m \<and> no_wr_err s'"
proof -
  from write_full_ok [OF assms] obtain s' where s': "write_full (pack_message m) 0 s = (True, s')" "no_wr_err s'"
    by blast
  from write_full_prefix [OF s'(1)] s' show ?thesis
    by (auto simp: send_message_def)
qed

lemma send_message_prefix:
  "send_message s m = (ok, s') \<Longrightarrow> \<exists>n. w_out s' = w_out s @ take n (pack_message m) \<and> (ok \<longrightarrow> w_out s' = w_out s @ pack_message m)"
  unfolding send_message_def by (drule write_full_prefix) auto

text \<open>Sending a list of messages one after the other.\<close>

fun send_all :: "wsock \<Rightarrow> Message list \<Rightarrow> wsock" where
  "send_all s [] = s"
| "send_all s (m # ms) = send_all (snd (send_message s m)) ms"

lemma send_all_ok:
  "no_wr_err s \<Longrightarrow> w_out (send_all s ms) = w_out s @ concat (map pack_message ms)"
proof (induction ms arbitrary: s)
  case Nil
  then show ?case by simp
next
  case (Cons m ms)
  with send_message_ok [of s m] show ?case by auto
qed

subsection \<open>Byte sequences made of whole messages\<close>

definition message_stream :: "char list \<Rightarrow> bool" where
  "message_stream bs \<longleftrightarrow> (\<exists>ms. list_all valid_message ms \<and> bs = concat (map pack_message ms))"

lemma message_stream_Nil [simp]: "message_stream []"
  by (auto simp: message_stream_def intro: exI [of _ "[]"])

lemma message_stream_snoc:
  assumes "message_stream bs" "valid_message m"
  shows "message_stream (bs @ pack_message m)"
proof -
  obtain ms where "list_all valid_message ms" "bs = concat (map pack_message ms)"
    using assms(1) by (auto simp: message_stream_def)
  with assms(2) have "list_all valid_message (ms @ [m]) \<and> bs @ pack_message m = concat (map pack_message (ms @ [m]))"
    by simp
  then show ?thesis unfolding message_stream_def by blast
qed

lemma message_stream_cases:
  assumes "message_stream bs" "bs \<noteq> []"
  obtains m rest where "valid_message m" "bs = pack_message m @ rest" "message_stream rest"
proof -
  obtain ms where ms: "list_all valid_message ms" "bs = concat (map pack_message ms)"
    using assms(1) by (auto simp: message_stream_def)
  with assms(2) obtain m ms' where "ms = m # ms'" by (cases ms) auto
  with ms that [of m "concat (map pack_message ms')"] show ?thesis by (auto simp: message_stream_def)
qed

lemma message_stream_recv:
  assumes "message_stream bs"
  shows "\<exists>ms. bs = concat (map pack_message ms) \<and>
    (\<forall>rs. r_bytes rs = bs \<longrightarrow> no_rd_err rs \<longrightarrow> fst (recv_all rs) = map pad_names ms)"
proof -
  obtain ms where "list_all valid_message ms" "bs = concat (map pack_message ms)"
    using assms by (auto simp: message_stream_def)
  with recv_all_packed [of _ ms] show ?thesis by (auto simp: list_all_iff intro!: exI [of _ ms])
qed

end
