(* ===== verification/Discovery.thy ===== *)
theory Discovery
  imports Stream_IO
begin

text \<open>
  \<open>src/discovery_server.c\<close>: the registry of \<open>MAX_USERS\<close> records,
  \<open>find_user\<close>, \<open>register_user\<close>, the request handler of
  \<open>handle_connection\<close>, and runs of requests in the order in which their threads
  take \<open>reg_lock\<close> (a request enters one critical section, so a run of the
  threads is a sequence of requests). \<open>credentials\<close> abstracts the registry to a
  map from user names to password, address and port; the locale
  \<open>credential_store\<close> is the contract registration keeps, interpreted here on the
  registry.
\<close>

abbreviation (input) MAX_USERS :: nat where "MAX_USERS \<equiv> 128"
abbreviation (input) INET_ADDRSTRLEN :: nat where "INET_ADDRSTRLEN \<equiv> 16"

record UserRecord =
  ur_username :: "char list"
  ur_password :: "char list"
  ur_ip :: "char list"
  ur_port :: int
  ur_active :: bool

type_synonym registry = "UserRecord list"

text \<open>The registry after \<open>memset(registry, 0, sizeof(registry))\<close>.\<close>

definition empty_record :: UserRecord where
  "empty_record = \<lparr>ur_username = zeros MAX_USERNAME_LEN, ur_password = zeros MAX_PASSWORD_LEN,
     ur_ip = zeros INET_ADDRSTRLEN, ur_port = 0, ur_active = False\<rparr>"

definition empty_registry :: registry where
  "empty_registry = replicate MAX_USERS empty_record"

definition find_user :: "registry \<Rightarrow> char list \<Rightarrow> nat option" where
  "find_user reg u =
     find_slot (\<lambda>r. ur_active r \<and> strneq MAX_USERNAME_LEN (ur_username r) u) reg"

definition set_record :: "char list \<Rightarrow> char list \<Rightarrow> char list \<Rightarrow> int \<Rightarrow> UserRecord \<Rightarrow> UserRecord" where
  "set_record u p ip port r = r\<lparr>ur_active := True, ur_port := port,
     ur_username := strncpy (ur_username r) u (MAX_USERNAME_LEN - 1),
     ur_password := strncpy (ur_password r) p (MAX_PASSWORD_LEN - 1),
     ur_ip := strncpy (ur_ip r) ip (INET_ADDRSTRLEN - 1)\<rparr>"

text \<open>\<open>None\<close> is the return of \<open>-1\<close>: registry full.\<close>

definition register_user ::
  "registry \<Rightarrow> char list \<Rightarrow> char list \<Rightarrow> char list \<Rightarrow> int \<Rightarrow> registry option" where
  "register_user reg u p ip port =
     (case (case find_user reg u of
              Some i \<Rightarrow> Some i
            | None \<Rightarrow> find_slot (\<lambda>r. \<not> ur_active r) reg) of
        None \<Rightarrow> None
      | Some i \<Rightarrow> Some (reg[i := set_record u p ip port (reg ! i)]))"

text \<open>The answer to one request; \<open>now\<close> is the clock of
  \<open>make_message\<close>, \<open>peer_ip\<close> the text of the peer's address.\<close>

definition handle_request ::
  "char list \<Rightarrow> 64 word \<Rightarrow> registry \<Rightarrow> Message \<Rightarrow> registry \<times> Message" where
  "handle_request peer_ip now reg req =
     (let reply = (\<lambda>t text. new_message now t ''discovery'' (sender req) text);
          err = (\<lambda>text. (reply MSG_ERROR text)\<lparr>msg_status := 1\<rparr>)
      in case msg_type req of
        MSG_REGISTER \<Rightarrow>
          (case sscanf_user_pass_port (payload req) of
             (n, u, p, port) \<Rightarrow>
               if n \<noteq> 3 then (reg, err ''Bad payload: need user:pass:port'')
               else (case register_user reg u p (take 15 (cstr peer_ip)) port of
                       None \<Rightarrow> (reg, err ''Registry full'')
                     | Some reg' \<Rightarrow> (reg', reply MSG_ACK ''Registered OK'')))
      | MSG_DISCOVER \<Rightarrow>
          (let target = strncpy (zeros MAX_USERNAME_LEN) (payload req) (MAX_USERNAME_LEN - 1)
           in case find_user reg target of
                None \<Rightarrow> (reg, err ''User not found'')
              | Some i \<Rightarrow>
                  (let result = snprintf 64 (cstr (ur_ip (reg ! i)) @ '':'' @ show_int (ur_port (reg ! i)))
                   in (reg, reply MSG_DISCOVER_RESP result)))
      | MSG_VALIDATE \<Rightarrow>
          (case sscanf_user_pass (payload req) of
             (_, u, p) \<Rightarrow>
               (let ok = (case find_user reg u of None \<Rightarrow> False
                          | Some i \<Rightarrow> strneq MAX_PASSWORD_LEN (ur_password (reg ! i)) p)
                in if ok then (reg, (reply MSG_ACK ''Valid'')\<lparr>msg_status := 0\<rparr>)
                   else (reg, (reply MSG_ERROR ''Invalid credentials'')\<lparr>msg_status := 1\<rparr>)))
      | _ \<Rightarrow> (reg, err ''Unknown message type''))"

text \<open>The connection thread: one request is read, one response sent.\<close>

definition handle_connection ::
  "char list \<Rightarrow> 64 word \<Rightarrow> registry \<Rightarrow> rsock \<Rightarrow> wsock \<Rightarrow> registry \<times> rsock \<times> wsock" where
  "handle_connection peer_ip now reg rs ws =
     (case recv_message rs of
        (None, rs') \<Rightarrow> (reg, rs', ws)
      | (Some req, rs') \<Rightarrow>
          (case handle_request peer_ip now reg req of
             (reg', resp) \<Rightarrow> (reg', rs', snd (send_message ws resp))))"

type_synonym disc_request = "char list \<times> 64 word \<times> Message"

fun discovery_run :: "registry \<Rightarrow> disc_request list \<Rightarrow> registry \<times> Message list" where
  "discovery_run reg [] = (reg, [])"
| "discovery_run reg ((ip, now, req) # rs) =
     (case handle_request ip now reg req of
        (reg', resp) \<Rightarrow> (case discovery_run reg' rs of (reg'', resps) \<Rightarrow> (reg'', resp # resps)))"

subsection \<open>The registry invariant\<close>

definition wf_record :: "UserRecord \<Rightarrow> bool" where
  "wf_record r \<longleftrightarrow>
     length (ur_username r) = 32 \<and> drop 31 (ur_username r) = zeros 1 \<and>
     length (ur_password r) = 64 \<and> drop 63 (ur_password r) = zeros 1 \<and>
     length (ur_ip r) = 16 \<and> drop 15 (ur_ip r) = zeros 1 \<and>
     (ur_active r \<longrightarrow> user_ok (cstr (ur_username r)) \<and> pass_ok (cstr (ur_password r)) \<and> int32 (ur_port r))"

definition unique_users :: "registry \<Rightarrow> bool" where
  "unique_users reg \<longleftrightarrow>
     (\<forall>i<length reg. \<forall>j<length reg. ur_active (reg ! i) \<longrightarrow> ur_active (reg ! j) \<longrightarrow>
        cstr (ur_username (reg ! i)) = cstr (ur_username (reg ! j)) \<longrightarrow> i = j)"

definition wf_registry :: "registry \<Rightarrow> bool" where
  "wf_registry reg \<longleftrightarrow> length reg = MAX_USERS \<and> list_all wf_record reg \<and> unique_users reg"

lemma wf_record_empty: "wf_record empty_record"
  by (simp add: wf_record_def empty_record_def)

lemma wf_empty_registry: "wf_registry empty_registry"
  by (simp add: wf_registry_def empty_registry_def unique_users_def list_all_iff wf_record_empty)
    (simp add: empty_record_def)

lemma cstr_length_of_drop:
  assumes "length a = Suc n" "drop n a = zeros 1"
  shows "length (cstr a) \<le> n"
proof (rule ccontr)
  assume "\<not> ?thesis"
  with assms length_cstr_le [of a] have "length (cstr a) = Suc n" by simp
  then have "cstr a = a"
    unfolding cstr_def using assms(1) by (metis takeWhile_eq_take take_all_iff order_refl)
  then have "cstring (drop n a)" by (metis cstring_cstr cstring_drop)
  with assms(2) show False by (simp add: zeros_def)
qed

lemma wf_record_bounds:
  assumes "wf_record r"
  shows "length (cstr (ur_username r)) \<le> 31" "length (cstr (ur_password r)) \<le> 63" "length (cstr (ur_ip r)) \<le> 15"
  using assms by (auto simp: wf_record_def intro!: cstr_length_of_drop)

lemma set_record_fields [simp]:
  assumes "wf_record r"
  shows "cstr (ur_username (set_record u p ip port r)) = take 31 (cstr u)"
    "cstr (ur_password (set_record u p ip port r)) = take 63 (cstr p)"
    "cstr (ur_ip (set_record u p ip port r)) = take 15 (cstr ip)"
    "ur_port (set_record u p ip port r) = port"
    "ur_active (set_record u p ip port r)"
  using assms by (auto simp: set_record_def wf_record_def)

lemma wf_set_record:
  assumes "wf_record r" "user_ok u" "pass_ok p" "int32 port"
  shows "wf_record (set_record u p ip port r)"
proof -
  have u: "take 31 (cstr u) = u" and p: "take 63 (cstr p) = p"
    using assms(2,3) by (simp_all add: user_ok_def pass_ok_def)
  have d: "drop n (strncpy a s n) = drop n a" for a s :: "char list" and n
    by (simp add: strncpy_def Let_def)
  have "wf_record r \<Longrightarrow> user_ok (cstr (ur_username (set_record u p ip port r)))
      \<and> pass_ok (cstr (ur_password (set_record u p ip port r)))"
    using assms(2,3) u p by simp
  with assms(1,4) show ?thesis
    by (simp add: wf_record_def set_record_def d)
qed

subsection \<open>Lookup and registration on a well-formed registry\<close>

lemma wf_registry_nth: "wf_registry reg \<Longrightarrow> i < length reg \<Longrightarrow> wf_record (reg ! i)"
  by (simp add: wf_registry_def list_all_nth)

lemma find_user_SomeD:
  assumes "find_user reg u = Some i" "wf_registry reg" "length (cstr u) \<le> 32"
  shows "i < length reg \<and> ur_active (reg ! i) \<and> cstr (ur_username (reg ! i)) = cstr u"
proof -
  from find_slot_SomeD [OF assms(1) [unfolded find_user_def]]
  have i: "i < length reg" "ur_active (reg ! i)" "strneq 32 (ur_username (reg ! i)) u" by auto
  from wf_record_bounds(1) [OF wf_registry_nth [OF assms(2) i(1)]] i assms(3)
  show ?thesis by (simp add: strneq_cstr)
qed

lemma find_user_NoneD:
  assumes "find_user reg u = None" "i < length reg" "ur_active (reg ! i)"
  shows "cstr (ur_username (reg ! i)) \<noteq> cstr u"
  using find_slot_NoneD [OF assms(1) [unfolded find_user_def] assms(2)] assms(3)
  by (auto simp: strneq_def)

lemma find_user_eq:
  assumes "wf_registry reg" "length (cstr u) \<le> 32"
    and "i < length reg" "ur_active (reg ! i)" "cstr (ur_username (reg ! i)) = cstr u"
  shows "find_user reg u = Some i"
proof (cases "find_user reg u")
  case None
  with assms show ?thesis using find_user_NoneD by blast
next
  case (Some j)
  with find_user_SomeD [OF Some assms(1,2)] assms show ?thesis
    by (auto simp: wf_registry_def unique_users_def)
qed

text \<open>The abstraction: what the registry knows of a user.\<close>

definition credentials :: "registry \<Rightarrow> char list \<Rightarrow> (char list \<times> char list \<times> int) option" where
  "credentials reg u =
     (case find_user reg u of None \<Rightarrow> None
      | Some i \<Rightarrow> Some (cstr (ur_password (reg ! i)), cstr (ur_ip (reg ! i)), ur_port (reg ! i)))"

lemma credentials_None_iff: "credentials reg u = None \<longleftrightarrow> find_user reg u = None"
  by (simp add: credentials_def split: option.split)

text \<open>Arguments as \<open>handle_connection\<close> passes them.\<close>

definition reg_args :: "char list \<Rightarrow> char list \<Rightarrow> char list \<Rightarrow> int \<Rightarrow> bool" where
  "reg_args u p ip port \<longleftrightarrow> user_ok u \<and> pass_ok p \<and> cstring ip \<and> length ip \<le> 15 \<and> int32 port"

definition slot_for :: "registry \<Rightarrow> char list \<Rightarrow> nat option" where
  "slot_for reg u = (case find_user reg u of Some i \<Rightarrow> Some i
                     | None \<Rightarrow> find_slot (\<lambda>r. \<not> ur_active r) reg)"

lemma register_user_alt:
  "register_user reg u p ip port =
     (case slot_for reg u of None \<Rightarrow> None | Some i \<Rightarrow> Some (reg[i := set_record u p ip port (reg ! i)]))"
  by (simp add: register_user_def slot_for_def)

text \<open>The slot written is free or already the user's, so no other user is touched.\<close>

lemma slot_for_SomeD:
  assumes "slot_for reg u = Some i" "wf_registry reg" "user_ok u"
  shows "i < length reg" "ur_active (reg ! i) \<longrightarrow> cstr (ur_username (reg ! i)) = u"
    "\<And>j. j < length reg \<Longrightarrow> ur_active (reg ! j) \<Longrightarrow> cstr (ur_username (reg ! j)) = u \<Longrightarrow> j = i"
proof -
  have u: "cstr u = u" "length (cstr u) \<le> 32" using assms(3) by (auto simp: user_ok_def)
  consider (found) "find_user reg u = Some i"
    | (free) "find_user reg u = None" "find_slot (\<lambda>r. \<not> ur_active r) reg = Some i"
    using assms(1) by (auto simp: slot_for_def split: option.splits)
  then have *: "i < length reg \<and> (ur_active (reg ! i) \<longrightarrow> cstr (ur_username (reg ! i)) = u)
     \<and> (\<forall>j<length reg. ur_active (reg ! j) \<longrightarrow> cstr (ur_username (reg ! j)) = u \<longrightarrow> j = i)"
  proof cases
    case found
    have "j = i" if "j < length reg" "ur_active (reg ! j)" "cstr (ur_username (reg ! j)) = u" for j
      using find_user_eq [OF assms(2) u(2) that(1,2)] that(3) u(1) found by simp
    with find_user_SomeD [OF found assms(2) u(2)] u(1) show ?thesis by simp
  next
    case free
    then show ?thesis
      using find_slot_SomeD [OF free(2)] find_user_NoneD [OF free(1)] u by auto
  qed
  then show "i < length reg" "ur_active (reg ! i) \<longrightarrow> cstr (ur_username (reg ! i)) = u"
    "\<And>j. j < length reg \<Longrightarrow> ur_active (reg ! j) \<Longrightarrow> cstr (ur_username (reg ! j)) = u \<Longrightarrow> j = i"
    by blast+
qed

lemma register_user_wf:
  assumes "register_user reg u p ip port = Some reg'" "wf_registry reg" "reg_args u p ip port"
  shows "wf_registry reg'"
proof -
  from assms(1) obtain i where i: "slot_for reg u = Some i"
    and reg': "reg' = reg[i := set_record u p ip port (reg ! i)]"
    by (auto simp: register_user_alt split: option.splits)
  have ok: "user_ok u" "pass_ok p" "int32 port"
    using assms(3) by (auto simp: reg_args_def)
  note s = slot_for_SomeD [OF i assms(2) ok(1)]
  note r = wf_registry_nth [OF assms(2) s(1)]
  have u: "take 31 (cstr u) = u" using ok(1) by (simp add: user_ok_def)
  have fresh: "j = i" if "j < length reg" "ur_active (reg ! j)" "cstr (ur_username (reg ! j)) = take 31 (cstr u)" for j
    using s(3) [OF that(1,2)] that(3) u by simp
  have "unique_users reg"
    using assms(2) by (simp add: wf_registry_def)
  then have "unique_users reg'"
    unfolding unique_users_def reg' by (metis fresh length_list_update nth_list_update_eq
      nth_list_update_neq set_record_fields(1) [OF r])
  moreover have "list_all wf_record reg'"
    using assms(2) wf_set_record [OF r ok] by (auto simp: reg' wf_registry_def intro: list_all_update)
  ultimately show ?thesis using assms(2) by (simp add: wf_registry_def reg')
qed

text \<open>Registration is a map update.\<close>

lemma register_user_credentials:
  assumes "register_user reg u p ip port = Some reg'" "wf_registry reg" "reg_args u p ip port"
    and "user_ok v"
  shows "credentials reg' v = (if v = u then Some (p, ip, port) else credentials reg v)"
proof -
  from assms(1) obtain i where i: "slot_for reg u = Some i"
    and reg': "reg' = reg[i := set_record u p ip port (reg ! i)]"
    by (auto simp: register_user_alt split: option.splits)
  have ok: "user_ok u" "pass_ok p" "cstring ip" "length ip \<le> 15"
    using assms(3) by (auto simp: reg_args_def)
  note s = slot_for_SomeD [OF i assms(2) ok(1)]
  note f = set_record_fields [OF wf_registry_nth [OF assms(2) s(1)]]
  note wf' = register_user_wf [OF assms(1-3)]
  have u: "take 31 (cstr u) = u" "cstr u = u" and v: "cstr v = v" "length (cstr v) \<le> 32"
    and p: "take 63 (cstr p) = p" and ip: "take 15 (cstr ip) = ip"
    using ok assms(4) by (auto simp: user_ok_def pass_ok_def)
  show ?thesis
  proof (cases "v = u")
    case True
    then have "find_user reg' v = Some i"
      using wf' v s(1) f u by (intro find_user_eq) (auto simp: reg')
    with True s(1) f p ip show ?thesis by (simp add: credentials_def reg')
  next
    case False
    show ?thesis
    proof (cases "find_user reg v")
      case None
      have "find_user reg' v = None"
      proof (rule ccontr)
        assume "find_user reg' v \<noteq> None"
        then obtain j where "find_user reg' v = Some j" by blast
        from find_user_SomeD [OF this wf' v(2)] False f u v find_user_NoneD [OF None, of j]
        show False by (cases "j = i") (auto simp: reg')
      qed
      with None False show ?thesis by (simp add: credentials_def)
    next
      case (Some j)
      note j = find_user_SomeD [OF Some assms(2) v(2)]
      with s(2) False v have "j \<noteq> i" by auto
      with j wf' v have "find_user reg' v = Some j" by (intro find_user_eq) (auto simp: reg')
      with Some \<open>j \<noteq> i\<close> False show ?thesis by (simp add: credentials_def reg')
    qed
  qed
qed

text \<open>Registration fails only for a new user when all slots are taken.\<close>

lemma register_user_None_iff:
  "register_user reg u p ip port = None \<longleftrightarrow> credentials reg u = None \<and> list_all ur_active reg"
  by (auto simp: register_user_alt slot_for_def credentials_None_iff find_slot_None_iff list_all_iff
      split: option.splits dest!: find_slot_SomeD)

subsection \<open>The contract of a credential store\<close>

text \<open>
  What the chat servers and clients rely on: a successful \<open>put\<close> is a map
  update that keeps the invariant, and a user already known can always be put again.
  \<open>put_or_keep\<close> is what a request does to the store.
\<close>

locale credential_store =
  fixes lookup :: "'s \<Rightarrow> 'k \<Rightarrow> 'v option"
    and put :: "'s \<Rightarrow> 'k \<Rightarrow> 'v \<Rightarrow> 's option"
    and invar :: "'s \<Rightarrow> bool"
    and ok :: "'k \<Rightarrow> 'v \<Rightarrow> bool"
    and ok_key :: "'k \<Rightarrow> bool"
  assumes put_invar: "invar s \<Longrightarrow> ok k v \<Longrightarrow> put s k v = Some s' \<Longrightarrow> invar s'"
    and put_lookup: "invar s \<Longrightarrow> ok k v \<Longrightarrow> put s k v = Some s' \<Longrightarrow> ok_key x \<Longrightarrow>
      lookup s' x = (if x = k then Some v else lookup s x)"
    and put_known: "lookup s k \<noteq> None \<Longrightarrow> put s k v \<noteq> None"
begin

definition put_or_keep :: "'k \<times> 'v \<Rightarrow> 's \<Rightarrow> 's" where
  "put_or_keep kv s = (case put s (fst kv) (snd kv) of None \<Rightarrow> s | Some s' \<Rightarrow> s')"

lemma put_or_keep_invar: "invar s \<Longrightarrow> ok (fst kv) (snd kv) \<Longrightarrow> invar (put_or_keep kv s)"
  by (auto simp: put_or_keep_def put_invar split: option.split)

lemma puts_invar: "invar s \<Longrightarrow> \<forall>kv\<in>set kvs. ok (fst kv) (snd kv) \<Longrightarrow> invar (fold put_or_keep kvs s)"
  by (induction kvs arbitrary: s) (auto simp: put_or_keep_invar)

lemma put_or_keep_other:
  "invar s \<Longrightarrow> ok (fst kv) (snd kv) \<Longrightarrow> ok_key x \<Longrightarrow> x \<noteq> fst kv \<Longrightarrow> lookup (put_or_keep kv s) x = lookup s x"
  by (auto simp: put_or_keep_def put_lookup split: option.split)

lemma put_or_keep_known:
  assumes "invar s" "ok (fst kv) (snd kv)" "ok_key (fst kv)" "lookup s (fst kv) \<noteq> None"
  shows "lookup (put_or_keep kv s) (fst kv) = Some (snd kv)"
  using put_known [OF assms(4), of "snd kv"] assms put_lookup
  by (auto simp: put_or_keep_def split: option.split)

text \<open>Once a user is known, the last registration of the user decides.\<close>

lemma puts_last:
  assumes "invar s" "\<forall>kv\<in>set kvs. ok (fst kv) (snd kv)" "ok_key x" "lookup s x \<noteq> None"
  shows "lookup (fold put_or_keep kvs s) x =
    (case map_of (rev kvs) x of None \<Rightarrow> lookup s x | Some v \<Rightarrow> Some v)"
  using assms
proof (induction kvs arbitrary: s)
  case Nil
  then show ?case by simp
next
  case (Cons kv kvs)
  let ?s = "put_or_keep kv s"
  have l: "lookup ?s x = (if x = fst kv then Some (snd kv) else lookup s x)"
    using Cons.prems put_or_keep_known [of s kv] put_or_keep_other [of s kv x] by auto
  then have "lookup ?s x \<noteq> None" using Cons.prems(4) by auto
  with Cons.IH [of ?s] Cons.prems put_or_keep_invar [of s kv]
  have "lookup (fold put_or_keep kvs ?s) x =
      (case map_of (rev kvs) x of None \<Rightarrow> lookup ?s x | Some v \<Rightarrow> Some v)" by simp
  with l show ?case
    by (cases kv) (auto simp: map_add_def split: option.splits)
qed

end

definition reg_put :: "registry \<Rightarrow> char list \<Rightarrow> char list \<times> char list \<times> int \<Rightarrow> registry option" where
  "reg_put reg u v = register_user reg u (fst v) (fst (snd v)) (snd (snd v))"

interpretation reg_store: credential_store credentials reg_put wf_registry
  "\<lambda>u v. reg_args u (fst v) (fst (snd v)) (snd (snd v))" user_ok
proof (unfold_locales, goal_cases)
  case (1 s k v s')
  then show ?case using register_user_wf by (auto simp: reg_put_def)
next
  case (2 s k v s' x)
  then show ?case using register_user_credentials [of s k "fst v" "fst (snd v)" "snd (snd v)" s' x]
    by (auto simp: reg_put_def)
next
  case (3 s k v)
  then show ?case by (auto simp: reg_put_def register_user_None_iff)
qed

subsection \<open>Requests\<close>

text \<open>What a request registers, if anything.\<close>

definition registration :: "char list \<Rightarrow> Message \<Rightarrow> (char list \<times> (char list \<times> char list \<times> int)) option" where
  "registration peer_ip req =
     (if msg_type req = MSG_REGISTER then
        (case sscanf_user_pass_port (payload req) of
           (n, u, p, port) \<Rightarrow> if n = 3 then Some (u, (p, take 15 (cstr peer_ip), port)) else None)
      else None)"

lemma registration_ok:
  "registration peer_ip req = Some (u, v) \<Longrightarrow> reg_args u (fst v) (fst (snd v)) (snd (snd v))"
  by (auto simp: registration_def reg_args_def split: if_splits prod.splits dest: sscanf_user_pass_port_ok)

lemma handle_request_registry:
  "fst (handle_request peer_ip now reg req) =
     (case registration peer_ip req of None \<Rightarrow> reg | Some kv \<Rightarrow> reg_store.put_or_keep kv reg)"
  by (auto simp: handle_request_def registration_def reg_store.put_or_keep_def reg_put_def Let_def
      split: msg_type_t.split prod.split option.split)

lemma handle_request_wf: "wf_registry reg \<Longrightarrow> wf_registry (fst (handle_request peer_ip now reg req))"
  using registration_ok
  by (auto simp: handle_request_registry reg_store.put_or_keep_invar split: option.split)

lemma discovery_run_registry:
  "fst (discovery_run reg rs) =
     fold reg_store.put_or_keep (List.map_filter (\<lambda>(ip, now, req). registration ip req) rs) reg"
proof (induction rs arbitrary: reg)
  case Nil
  then show ?case by simp
next
  case (Cons r rs)
  obtain ip now req where r: "r = (ip, now, req)" by (metis prod_cases3)
  from Cons.IH [of "fst (handle_request ip now reg req)"] show ?case
    by (auto simp: r handle_request_registry split: prod.splits option.splits
        dest: arg_cong [where f = fst])
qed

lemma credentials_ok:
  assumes "credentials reg u = Some (p, ip, port)" "wf_registry reg" "length (cstr u) \<le> 32"
  shows "user_ok (cstr u) \<and> pass_ok p \<and> length ip \<le> 15 \<and> cstring ip \<and> int32 port"
proof -
  from assms(1) obtain i where i: "find_user reg u = Some i"
    and f: "p = cstr (ur_password (reg ! i))" "ip = cstr (ur_ip (reg ! i))" "port = ur_port (reg ! i)"
    by (auto simp: credentials_def split: option.splits)
  note j = find_user_SomeD [OF i assms(2,3)]
  have w: "wf_record (reg ! i)" using wf_registry_nth [OF assms(2)] j by blast
  from wf_record_bounds(3) [OF w] w j show ?thesis by (auto simp: wf_record_def f)
qed

lemma find_user_bound: "find_user reg u = Some i \<Longrightarrow> i < length reg"
  unfolding find_user_def by (drule find_slot_SomeD) simp

lemma length_show_int: "int32 z \<Longrightarrow> length (show_int z) \<le> 11"
proof -
  assume z: "int32 z"
  have "length (show_nat n) \<le> 10" if "n < 10 ^ 10" for n
    using length_show_nat [OF that] by simp
  moreover have "nat \<bar>z\<bar> < 10 ^ 10"
    using z by (simp add: int32_def nat_less_iff abs_less_iff)
  ultimately have "length (show_nat (nat \<bar>z\<bar>)) \<le> 10" by blast
  then show ?thesis by (auto simp: show_int_def)
qed

text \<open>The credential check of \<open>MSG_VALIDATE\<close>, on the abstraction.\<close>

lemma validate_status:
  assumes "wf_registry reg" "msg_type req = MSG_VALIDATE" "sscanf_user_pass (payload req) = (n, u, p)"
  shows "msg_status (snd (handle_request peer_ip now reg req)) = 0
    \<longleftrightarrow> (\<exists>ip port. credentials reg u = Some (p, ip, port))"
proof -
  note b = sscanf_user_pass_bounds [OF assms(3)]
  show ?thesis
  proof (cases "find_user reg u")
    case None
    with assms show ?thesis by (simp add: handle_request_def credentials_def)
  next
    case (Some i)
    have "length (cstr (ur_password (reg ! i))) \<le> 63"
      using wf_record_bounds(2) wf_registry_nth [OF assms(1) find_user_bound [OF Some]] by blast
    then have "strneq 64 (ur_password (reg ! i)) p \<longleftrightarrow> cstr (ur_password (reg ! i)) = p"
      using b by (subst strneq_cstr) auto
    with assms Some show ?thesis by (simp add: handle_request_def credentials_def Let_def)
  qed
qed

lemma handle_request_not_register: "msg_type req \<noteq> MSG_REGISTER \<Longrightarrow> fst (handle_request ip now reg req) = reg"
  by (simp add: handle_request_registry registration_def)

section \<open>Properties of the discovery server\<close>

text \<open>every run of requests, whatever their types and payloads and in whatever
  order the threads enter the critical section, keeps the registry well formed: 128
  records, terminated strings, at most one active record per user name, and every
  active record with a name and password the register format accepts.\<close>
theorem discovery_run_keeps_registry:
  assumes "wf_registry reg"
  shows "wf_registry (fst (discovery_run reg rs))"
proof -
  have "\<forall>kv\<in>set (List.map_filter (\<lambda>(ip, now, req). registration ip req) rs).
      reg_args (fst kv) (fst (snd kv)) (fst (snd (snd kv))) (snd (snd (snd kv)))"
    using registration_ok by (fastforce simp: List.map_filter_def)
  then show ?thesis
    unfolding discovery_run_registry by (rule reg_store.puts_invar [OF assms])
qed

theorem discovery_run_keeps_registry_witness:
  "wf_registry (fst (discovery_run empty_registry
     [(''10.0.0.1'', 5, new_message 5 MSG_REGISTER ''bob'' ''discovery'' ''bob:pw:9001'')]))"
  by (rule discovery_run_keeps_registry [OF wf_empty_registry])

text \<open>the outcome of a register request. A payload that is not
  \<open>user:pass:port\<close> and a new user on a full registry get an error and leave the
  registry as it was; otherwise the answer is an acknowledgement and the registry now
  maps the user to the password, address and port of the request, every other user to
  what it was.\<close>
theorem register_outcome:
  assumes "wf_registry reg" "msg_type req = MSG_REGISTER"
    and "handle_request peer_ip now reg req = (reg', resp)"
  shows "case registration peer_ip req of
      None \<Rightarrow> reg' = reg \<and> msg_type resp = MSG_ERROR \<and> msg_status resp = 1
    | Some (u, v) \<Rightarrow>
        (if credentials reg u = None \<and> list_all ur_active reg
         then reg' = reg \<and> msg_type resp = MSG_ERROR \<and> msg_status resp = 1
         else msg_type resp = MSG_ACK \<and> msg_status resp = 0 \<and>
              (\<forall>x. user_ok x \<longrightarrow> credentials reg' x = ((credentials reg)(u \<mapsto> v)) x))"
proof (cases "registration peer_ip req")
  case None
  with assms show ?thesis
    by (auto simp: handle_request_def registration_def Let_def split: prod.splits if_splits)
next
  case (Some kv)
  obtain u p ip port where kv: "kv = (u, (p, ip, port))" by (metis prod_cases4)
  with Some have sc: "sscanf_user_pass_port (payload req) = (3, u, p, port)" and ip: "ip = take 15 (cstr peer_ip)"
    using assms(2) by (auto simp: registration_def split: prod.splits if_splits)
  note args = registration_ok [OF Some [unfolded kv]]
  show ?thesis
  proof (cases "register_user reg u p ip port")
    case None
    then have full: "credentials reg u = None" "list_all ur_active reg"
      by (simp_all add: register_user_None_iff)
    with assms(2,3) sc ip Some kv None show ?thesis
      by (auto simp: handle_request_def Let_def)
  next
    case (Some r)
    with assms(2,3) sc ip have "reg' = r" "msg_type resp = MSG_ACK" "msg_status resp = 0"
      by (auto simp: handle_request_def Let_def)
    with \<open>registration peer_ip req = Some kv\<close> kv args Some show ?thesis
      using register_user_credentials [OF Some assms(1)] register_user_None_iff [of reg u p ip port] by auto
  qed
qed

theorem register_outcome_witness:
  "\<exists>reg' resp. handle_request ''10.0.0.1'' 5 empty_registry
       (new_message 5 MSG_REGISTER ''bob'' ''discovery'' ''bob'') = (reg', resp) \<and> msg_status resp = 1"
proof -
  let ?q = "new_message 5 MSG_REGISTER ''bob'' ''discovery'' ''bob''"
  obtain reg' resp where h: "handle_request ''10.0.0.1'' 5 empty_registry ?q = (reg', resp)" by fastforce
  have "registration ''10.0.0.1'' ?q = None"
    by (simp add: registration_def sscanf_user_pass_port_def scan_set_def scan_lit_def)
  with register_outcome [OF wf_empty_registry _ h] h show ?thesis by auto
qed

text \<open>a validate request is acknowledged exactly when its payload scans as a user
  and a password and the registry holds that password for that user; it never changes
  the registry.\<close>
theorem validate_accepts_iff:
  assumes "wf_registry reg" "msg_type req = MSG_VALIDATE"
  shows "fst (handle_request peer_ip now reg req) = reg \<and>
    (msg_status (snd (handle_request peer_ip now reg req)) = 0 \<longleftrightarrow>
       (\<exists>u p ip port. sscanf_user_pass (payload req) = (2, u, p) \<and> credentials reg u = Some (p, ip, port)))"
proof -
  obtain n u p where sc: "sscanf_user_pass (payload req) = (n, u, p)" by (metis prod_cases3)
  note b = sscanf_user_pass_bounds [OF sc]
  have "n = 2" if "credentials reg u = Some (p, ip, port)" for ip port
  proof -
    from credentials_ok [OF that assms(1)] b have "p \<noteq> []" by (auto simp: pass_ok_def)
    with sc show ?thesis by (auto simp: sscanf_user_pass_def split: option.splits prod.splits)
  qed
  with validate_status [OF assms sc] sc assms(2) show ?thesis
    by (auto simp: handle_request_not_register)
qed

theorem validate_accepts_iff_witness:
  "msg_status (snd (handle_request [] 7 empty_registry
     (new_message 7 MSG_VALIDATE ''bob'' ''discovery'' ''bob:pw''))) \<noteq> 0"
proof -
  have "credentials empty_registry u = None" for u
    by (simp add: credentials_None_iff find_user_def find_slot_None_iff empty_registry_def empty_record_def)
  then show ?thesis
    using validate_accepts_iff [OF wf_empty_registry, of "new_message 7 MSG_VALIDATE ''bob'' ''discovery'' ''bob:pw''" "[]" 7]
    by auto
qed

text \<open>The registrations of a run, in the order of their critical sections.\<close>

definition registrations :: "disc_request list \<Rightarrow> (char list \<times> (char list \<times> char list \<times> int)) list" where
  "registrations rs = List.map_filter (\<lambda>(ip, now, req). registration ip req) rs"

lemma registrations_ok:
  "kv \<in> set (registrations rs) \<Longrightarrow> reg_args (fst kv) (fst (snd kv)) (fst (snd (snd kv))) (snd (snd (snd kv)))"
  using registration_ok by (fastforce simp: registrations_def List.map_filter_def)

lemma known_after_run:
  assumes "wf_registry reg" "user_ok u" "credentials reg u \<noteq> None"
  shows "credentials (fst (discovery_run reg rs)) u =
    (case map_of (rev (registrations rs)) u of None \<Rightarrow> credentials reg u | Some v \<Rightarrow> Some v)"
  unfolding discovery_run_registry registrations_def [symmetric]
  by (rule reg_store.puts_last) (use assms registrations_ok in auto)


text \<open>A registry with one user, for the witnesses.\<close>

definition one_user :: "registry" where
  "one_user = empty_registry[0 := set_record ''bob'' ''pw'' ''10.0.0.1'' 9001 empty_record]"

lemma register_one_user: "register_user empty_registry ''bob'' ''pw'' ''10.0.0.1'' 9001 = Some one_user"
proof -
  have "find_user empty_registry ''bob'' = None"
    by (simp add: find_user_def find_slot_None_iff empty_registry_def empty_record_def)
  moreover have "find_slot (\<lambda>r. \<not> ur_active r) empty_registry = Some 0"
    by (rule find_slot_least) (simp_all add: empty_registry_def empty_record_def)
  ultimately show ?thesis
    by (simp add: register_user_def one_user_def empty_registry_def)
qed

lemma empty_registry_not_full: "\<not> list_all ur_active empty_registry"
  by (simp add: list_all_iff empty_registry_def empty_record_def)

lemma one_user_args: "reg_args ''bob'' ''pw'' ''10.0.0.1'' 9001"
  by (simp add: reg_args_def user_ok_def pass_ok_def int32_def)

lemma one_user_wf: "wf_registry one_user"
  and one_user_credentials: "credentials one_user ''bob'' = Some (''pw'', ''10.0.0.1'', 9001)"
  using register_user_wf [OF register_one_user wf_empty_registry one_user_args]
    register_user_credentials [OF register_one_user wf_empty_registry one_user_args, of "''bob''"]
  by (simp_all add: user_ok_def)


text \<open>Register, then validate. After an accepted registration of \<open>u\<close>
  with password \<open>p\<close> and any further requests none of which registers
  \<open>u\<close>, a validate request for \<open>u\<close> with a blank-free password
  \<open>q\<close> is acknowledged exactly when \<open>q\<close> is \<open>p\<close>.\<close>
theorem register_then_validate:
  assumes "wf_registry reg" "register_user reg u p ip port = Some reg1" "reg_args u p ip port"
    and "\<forall>kv\<in>set (registrations rs). fst kv \<noteq> u"
    and "msg_type req = MSG_VALIDATE" "cstr (payload req) = u @ '':'' @ q" "word_ok q"
  shows "msg_status (snd (handle_request peer_ip now (fst (discovery_run reg1 rs)) req)) = 0 \<longleftrightarrow> q = p"
proof -
  have u: "user_ok u" using assms(3) by (simp add: reg_args_def)
  have wf1: "wf_registry reg1" using assms(1-3) register_user_wf by blast
  have c1: "credentials reg1 u = Some (p, ip, port)"
    using register_user_credentials [OF assms(2,1,3) u] by simp
  have "map_of (rev (registrations rs)) u = None"
    using assms(4) by (auto simp: map_of_eq_None_iff)
  with known_after_run [OF wf1 u, of rs] c1
  have c: "credentials (fst (discovery_run reg1 rs)) u = Some (p, ip, port)" by simp
  have "sscanf_user_pass (payload req) = (2, u, q)"
    using sscanf_login_roundtrip [OF u assms(7)] assms(6) by (metis sscanf_cstr(1))
  moreover have "wf_registry (fst (discovery_run reg1 rs))"
    unfolding discovery_run_registry registrations_def [symmetric]
    by (rule reg_store.puts_invar [OF wf1]) (use registrations_ok in auto)
  ultimately show ?thesis using validate_status assms(5) c by auto
qed

theorem register_then_validate_witness:
  "msg_status (snd (handle_request [] 7 one_user
     (new_message 7 MSG_VALIDATE ''bob'' ''discovery'' ''bob:pw''))) = 0"
proof -
  have "msg_status (snd (handle_request [] 7 (fst (discovery_run one_user []))
     (new_message 7 MSG_VALIDATE ''bob'' ''discovery'' ''bob:pw''))) = 0 \<longleftrightarrow> ''pw'' = ''pw''"
    by (rule register_then_validate [OF wf_empty_registry register_one_user one_user_args])
      (simp_all add: registrations_def word_ok_def is_space_def)
  then show ?thesis by simp
qed

text \<open>a discover request is answered with the address and port of the named user's
  registration, as text \<open>ip:port\<close>, exactly when the user is registered, and with an
  error otherwise; a longer name is cut to 31 characters first.\<close>
theorem discover_answer:
  assumes "wf_registry reg" "msg_type req = MSG_DISCOVER"
    and "handle_request peer_ip now reg req = (reg', resp)"
  shows "reg' = reg \<and>
    (case credentials reg (take 31 (cstr (payload req))) of
       None \<Rightarrow> msg_type resp = MSG_ERROR \<and> msg_status resp = 1
     | Some (p, ip, port) \<Rightarrow> msg_type resp = MSG_DISCOVER_RESP \<and> msg_status resp = 0
         \<and> cstr (payload resp) = ip @ '':'' @ show_int port)"
proof -
  let ?u = "take 31 (cstr (payload req))"
  have fu: "find_user reg (strncpy (zeros 32) (payload req) 31) = find_user reg ?u"
    by (simp add: find_user_def strneq_def)
  show ?thesis
  proof (cases "find_user reg ?u")
    case None
    with assms(2,3) fu show ?thesis by (auto simp: handle_request_def Let_def credentials_def)
  next
    case (Some i)
    let ?r = "reg ! i"
    have c: "credentials reg ?u = Some (cstr (ur_password ?r), cstr (ur_ip ?r), ur_port ?r)"
      using Some by (simp add: credentials_def)
    from credentials_ok [OF c assms(1)] length_show_int [of "ur_port ?r"]
    have len: "length (cstr (ur_ip ?r)) \<le> 15" "length (show_int (ur_port ?r)) \<le> 11" by auto
    then have "snprintf 64 (cstr (ur_ip ?r) @ '':'' @ show_int (ur_port ?r))
        = cstr (ur_ip ?r) @ '':'' @ show_int (ur_port ?r)" by simp
    with assms(2,3) fu Some c len show ?thesis
      by (auto simp: handle_request_def Let_def)
  qed
qed

theorem discover_answer_witness:
  "cstr (payload (snd (handle_request [] 7 one_user
     (new_message 7 MSG_DISCOVER ''amy'' ''discovery'' ''bob'')))) = ''10.0.0.1:9001''"
proof -
  let ?q = "new_message 7 MSG_DISCOVER ''amy'' ''discovery'' ''bob''"
  obtain reg' resp where h: "handle_request [] 7 one_user ?q = (reg', resp)" by fastforce
  have "show_int 9001 = ''9001''" by (simp add: show_int_def show_nat.simps)
  with discover_answer [OF one_user_wf _ h] h one_user_credentials show ?thesis by simp
qed

text \<open>a password that contains a blank can be registered but never validated: the
  register format reads it whole, the validate and login formats stop at the blank, so
  every validate request for the user is refused.\<close>
theorem blank_password_never_validates:
  assumes "wf_registry reg" "register_user reg u p ip port = Some reg1" "reg_args u p ip port"
    and "\<exists>c\<in>set p. is_space c"
    and "msg_type req = MSG_VALIDATE" "fst (snd (sscanf_user_pass (payload req))) = u"
  shows "msg_status (snd (handle_request peer_ip now reg1 req)) \<noteq> 0"
proof
  assume ok: "msg_status (snd (handle_request peer_ip now reg1 req)) = 0"
  have u: "user_ok u" using assms(3) by (simp add: reg_args_def)
  have wf1: "wf_registry reg1" using assms(1-3) register_user_wf by blast
  have c1: "credentials reg1 u = Some (p, ip, port)"
    using register_user_credentials [OF assms(2,1,3) u] by simp
  obtain n q where sc: "sscanf_user_pass (payload req) = (n, u, q)"
    using assms(6) by (metis prod.collapse)
  with validate_status [OF wf1 assms(5) sc] ok c1 have "q = p" by simp
  moreover have "n = 2"
    using sc \<open>q = p\<close> assms(3) by (auto simp: sscanf_user_pass_def reg_args_def pass_ok_def split: option.splits prod.splits)
  ultimately show False
    using sscanf_user_pass_ok [of "payload req" u q] sc assms(4) by (auto simp: word_ok_def list_all_iff)
qed

theorem blank_password_never_validates_witness:
  "\<exists>reg1. register_user empty_registry ''bob'' ''my pw'' ''10.0.0.1'' 9001 = Some reg1 \<and>
     msg_status (snd (handle_request [] 7 reg1
       (new_message 7 MSG_VALIDATE ''bob'' ''discovery'' ''bob:my pw''))) \<noteq> 0"
proof -
  have "register_user empty_registry ''bob'' ''my pw'' ''10.0.0.1'' 9001 \<noteq> None"
    by (simp add: register_user_None_iff empty_registry_not_full)
  then obtain reg1 where r: "register_user empty_registry ''bob'' ''my pw'' ''10.0.0.1'' 9001 = Some reg1"
    by blast
  have "msg_status (snd (handle_request [] 7 reg1
       (new_message 7 MSG_VALIDATE ''bob'' ''discovery'' ''bob:my pw''))) \<noteq> 0"
  proof (rule blank_password_never_validates [OF wf_empty_registry r])
    show "reg_args ''bob'' ''my pw'' ''10.0.0.1'' 9001"
      by (simp add: reg_args_def user_ok_def pass_ok_def int32_def)
    have "sscanf_user_pass (''bob'' @ '':'' @ ''my pw'') = (2, ''bob'', ''my'')"
      by (simp add: sscanf_user_pass_def scan_set_def scan_lit_def scan_word_def is_space_def)
    then show "fst (snd (sscanf_user_pass (payload (new_message 7 MSG_VALIDATE ''bob'' ''discovery'' ''bob:my pw'')))) = ''bob''"
      by (subst sscanf_cstr(1) [symmetric]) simp
  qed (simp_all add: is_space_def)
  with r show ?thesis by blast
qed

end
