(* ===== verification/Chat_Common.thy ===== *)
theory Chat_Common
  imports Protocol
begin

text \<open>
  What the three chat servers have in common, word for word in
  \<open>src/chat_server_epoll.c\<close>, \<open>src/chat_server_thread.c\<close> and
  \<open>src/chat_server_fork.c\<close>: the environment a handler runs in, the credential
  check \<open>validate\<close>, the history files (\<open>save_history\<close> and the
  reading loop of \<open>MSG_HISTORY_REQ\<close>), the user list of
  \<open>MSG_LIST_USERS\<close>, the status of \<open>MSG_STATUS_CHANGE\<close>, and the two
  contracts their routers rest on: \<open>message_sink\<close>, what queueing a message to a
  slot does to the slots' output streams, and \<open>session_table\<close>, what login and
  logout do to the map from slots to user names. Each server interprets both.
\<close>

subsection \<open>The environment of a handler\<close>

text \<open>
  \<open>e_now\<close> is \<open>time(NULL)\<close>; \<open>e_disc_host\<close> the discovery
  host given on the command line, empty when there is none; \<open>e_disc\<close> what one
  request to it answers, \<open>None\<close> when the connection or the receive fails;
  \<open>e_localtime\<close> the text \<open>strftime\<close> makes of a time stamp in the local
  zone, \<open>None\<close> when \<open>localtime\<close> returns a null pointer (a year that
  does not fit an \<open>int\<close>); \<open>e_appendable\<close> whether
  \<open>fopen(path, "a")\<close> succeeds. History files map paths to contents.
\<close>

record env =
  e_now :: "64 word"
  e_disc_host :: "char list"
  e_disc :: "Message \<Rightarrow> Message option"
  e_localtime :: "64 word \<Rightarrow> char list option"
  e_appendable :: "char list \<Rightarrow> bool"

type_synonym files = "char list \<Rightarrow> char list option"

text \<open>The result is whether \<open>validate\<close> returned 0.\<close>

definition validate_request :: "env \<Rightarrow> char list \<Rightarrow> char list \<Rightarrow> Message" where
  "validate_request e u p =
     new_message (e_now e) MSG_VALIDATE u ''discovery'' (snprintf MAX_PAYLOAD_LEN (u @ '':'' @ p))"

definition validate :: "env \<Rightarrow> char list \<Rightarrow> char list \<Rightarrow> bool" where
  "validate e u p =
     (if e_disc_host e = [] then True
      else (case e_disc e (validate_request e u p) of
              None \<Rightarrow> False
            | Some resp \<Rightarrow> msg_status resp = 0))"

subsection \<open>History files\<close>

definition history_path :: "char list \<Rightarrow> char list" where
  "history_path who = snprintf 128 (''./history'' @ ''/'' @ who @ ''.log'')"

definition newline :: char where
  "newline = CHR 0x0A"

definition history_line :: "char list \<Rightarrow> char list \<Rightarrow> char list \<Rightarrow> char list" where
  "history_line tb rcp text =
     (if rcp \<noteq> [] then ''['' @ tb @ ''] -> '' @ rcp @ '' : '' @ text @ [newline]
      else ''['' @ tb @ ''] BROADCAST : '' @ text @ [newline])"

text \<open>\<open>None\<close>: \<open>strftime\<close> is given a null pointer and the process is
  killed.\<close>

definition save_history ::
  "env \<Rightarrow> char list \<Rightarrow> char list \<Rightarrow> char list \<Rightarrow> 64 word \<Rightarrow> files \<Rightarrow> files option" where
  "save_history e who rcp text ts fs =
     (let path = history_path (cstr who)
      in if \<not> e_appendable e path then Some fs
         else (case e_localtime e ts of
                 None \<Rightarrow> None
               | Some tb \<Rightarrow>
                   (let old = (case fs path of None \<Rightarrow> [] | Some t \<Rightarrow> t)
                    in Some (fs(path \<mapsto> old @ history_line tb (cstr rcp) (cstr text))))))"

text \<open>\<open>fgets(line, n, f)\<close>: up to \<open>n - 1\<close> bytes, ending after the first
  newline; \<open>None\<close> at end of file.\<close>

definition fgets :: "nat \<Rightarrow> char list \<Rightarrow> (char list \<times> char list) option" where
  "fgets n content =
     (if content = [] then None
      else let upto = takeWhile (\<lambda>c. c \<noteq> newline) content;
               len = min (n - 1) (if length upto < length content then Suc (length upto) else length upto)
           in Some (take len content, drop len content))"

lemma fgets_progress:
  assumes "fgets n c = Some (l, r)" "1 < n"
  shows "length r < length c"
proof -
  let ?L = "length (takeWhile (\<lambda>x. x \<noteq> newline) c)"
  define len where "len = min (n - 1) (if ?L < length c then Suc ?L else ?L)"
  have "0 < length c" and r: "r = drop len c"
    using assms(1) by (auto simp: fgets_def Let_def len_def split: if_splits)
  moreover have "?L \<le> length c" by (rule length_takeWhile_le)
  ultimately have "0 < len" using assms(2) by (auto simp: len_def simp del: length_greater_0_conv)
  with r \<open>0 < length c\<close> show ?thesis by (simp del: length_greater_0_conv)
qed

text \<open>The reading loop of \<open>MSG_HISTORY_REQ\<close>. \<open>tot\<close> is always
  \<open>strlen(buf)\<close>.\<close>

function history_loop :: "char list \<Rightarrow> char list \<Rightarrow> char list" where
  "history_loop content buf =
     (case fgets 256 content of
        None \<Rightarrow> buf
      | Some (line, rest) \<Rightarrow>
          (if length buf + length (cstr line) < MAX_PAYLOAD_LEN - 1
           then history_loop rest (buf @ cstr line) else buf))"
  by pat_completeness auto
termination
  by (relation "measure (\<lambda>(content, buf). length content)")
    (auto dest!: fgets_progress)

declare history_loop.simps [simp del]

definition read_history :: "files \<Rightarrow> char list \<Rightarrow> char list" where
  "read_history fs who =
     (let buf = (case fs (history_path (cstr who)) of None \<Rightarrow> [] | Some content \<Rightarrow> history_loop content [])
      in if buf \<noteq> [] then buf else ''No history.'')"

subsection \<open>The user list and the status\<close>

definition status_names :: "char list list" where
  "status_names = [''available'', ''busy'', ''away'']"

text \<open>One entry of the client table as the list sees it: active, user name, status.\<close>

type_synonym session = "bool \<times> char list \<times> nat"

definition list_entry :: "char list \<Rightarrow> nat \<Rightarrow> char list" where
  "list_entry name st = snprintf 64 (cstr name @ ''('' @ status_names ! st @ '')'')"

fun list_loop :: "session list \<Rightarrow> char list \<Rightarrow> bool \<Rightarrow> char list" where
  "list_loop [] acc fst_entry = acc"
| "list_loop ((act, name, st) # ss) acc fst_entry =
     (if \<not> act \<or> cstr name = [] then list_loop ss acc fst_entry
      else
        let acc1 = (if \<not> fst_entry then strncat acc '', '' (MAX_PAYLOAD_LEN - length acc - 1) else acc);
            acc2 = strncat acc1 (list_entry name st) (MAX_PAYLOAD_LEN - length acc1 - 1)
        in list_loop ss acc2 False)"

definition user_list :: "session list \<Rightarrow> char list" where
  "user_list ss = list_loop ss [] True"

definition status_of_payload :: "char list \<Rightarrow> user_status_t" where
  "status_of_payload p =
     (if strneq 4 p ''busy'' then STATUS_BUSY
      else if strneq 4 p ''away'' then STATUS_AWAY else STATUS_AVAILABLE)"

subsection \<open>Replies\<close>

definition server_reply :: "env \<Rightarrow> msg_type_t \<Rightarrow> char list \<Rightarrow> char list \<Rightarrow> Message" where
  "server_reply e t rcp text = new_message (e_now e) t ''server'' rcp text"

definition error_reply :: "env \<Rightarrow> char list \<Rightarrow> char list \<Rightarrow> Message" where
  "error_reply e rcp text = (server_reply e MSG_ERROR rcp text)\<lparr>msg_status := 1\<rparr>"

lemma wf_server_reply [simp, wf_intros]: "wf_type t \<Longrightarrow> wf_message (server_reply e t rcp text)"
  by (simp add: server_reply_def)

lemma wf_error_reply [simp, wf_intros]: "wf_message (error_reply e rcp text)"
  by (simp add: error_reply_def)

lemma reply_simps [simp]:
  "msg_type (server_reply e t rcp text) = t" "msg_status (server_reply e t rcp text) = 0"
  "msg_type (error_reply e rcp text) = MSG_ERROR" "msg_status (error_reply e rcp text) = 1"
  by (simp_all add: server_reply_def error_reply_def)

subsection \<open>Lemmas on histories\<close>

lemma fgets_SomeD: "fgets n c = Some (l, r) \<Longrightarrow> c = l @ r \<and> length l \<le> n - 1"
  by (auto simp: fgets_def Let_def split: if_splits)

lemma history_loop_bound:
  "length buf < 1023 \<Longrightarrow> length (history_loop c buf) < 1023"
  by (induction c buf rule: history_loop.induct)
    (subst history_loop.simps, auto split: option.splits)

text \<open>The answer is the history so far followed by whole lines from the front of the
  file.\<close>

lemma history_loop_prefix:
  "cstring c \<Longrightarrow> \<exists>k. history_loop c buf = buf @ take k c"
proof (induction c buf rule: history_loop.induct)
  case (1 c buf)
  show ?case
  proof (cases "fgets 256 c")
    case None
    then show ?thesis by (auto simp: history_loop.simps [of c] intro: exI [of _ 0])
  next
    case (Some lr)
    obtain l r where lr: "lr = (l, r)" by force
    from fgets_SomeD [OF Some [unfolded lr]] have c: "c = l @ r" by simp
    with 1(2) have cs: "cstring l" "cstring r" by simp_all
    show ?thesis
    proof (cases "length buf + length l < 1023")
      case True
      with 1(1) [OF Some lr [symmetric]] cs obtain k where "history_loop r (buf @ l) = (buf @ l) @ take k r" by auto
      then show ?thesis using Some lr True cs
        by (auto simp: history_loop.simps [of "l @ r"] c intro!: exI [of _ "length l + k"])
    next
      case False
      with Some lr cs show ?thesis by (auto simp: history_loop.simps [of c] intro: exI [of _ 0])
    qed
  qed
qed

lemma length_history_path: "length who \<le> 31 \<Longrightarrow> history_path who = ''./history/'' @ who @ ''.log''"
  by (simp add: history_path_def)

subsection \<open>Lemmas on the user list\<close>

definition entry_text :: "char list \<Rightarrow> nat \<Rightarrow> char list" where
  "entry_text name st = cstr name @ ''('' @ status_names ! st @ '')''"

text \<open>The specification of the list: the entries of the active users with a name,
  separated by a comma and a blank.\<close>

fun joined :: "char list list \<Rightarrow> char list" where
  "joined [] = []"
| "joined [x] = x"
| "joined (x # y # r) = x @ '', '' @ joined (y # r)"

definition listed :: "session list \<Rightarrow> (char list \<times> nat) list" where
  "listed ss = map snd (filter (\<lambda>(act, name, st). act \<and> cstr name \<noteq> []) ss)"

definition wf_session :: "session \<Rightarrow> bool" where
  "wf_session s \<longleftrightarrow> (case s of (act, name, st) \<Rightarrow> length (cstr name) \<le> 31 \<and> st < 3)"

lemma status_name_length: "st < 3 \<Longrightarrow> length (status_names ! st) \<le> 9"
  by (auto simp: status_names_def less_Suc_eq numeral_3_eq_3)

lemma list_entry_text:
  "length (cstr name) \<le> 31 \<Longrightarrow> st < 3 \<Longrightarrow> list_entry name st = entry_text name st \<and> length (entry_text name st) \<le> 42"
  using status_name_length [of st] by (simp add: list_entry_def entry_text_def)

lemma joined_snoc: "joined (xs @ [y]) = (if xs = [] then y else joined xs @ '', '' @ y)"
  by (induction xs rule: joined.induct) auto

text \<open>No entry is cut and no separator lost: after \<open>k\<close> entries at most
  \<open>44 k\<close> bytes are used, and there are at most ten.\<close>

lemma list_loop_joined:
  assumes "list_all wf_session ss" "acc = joined ps" "fst_entry = (ps = [])"
    and "length acc \<le> 44 * length ps" "length ps + length ss \<le> 10"
  shows "list_loop ss acc fst_entry = joined (ps @ map (case_prod entry_text) (listed ss))"
  using assms
proof (induction ss acc fst_entry arbitrary: ps rule: list_loop.induct)
  case (1 acc fst_entry)
  then show ?case by (simp add: listed_def)
next
  case (2 act name st ss acc fst_entry)
  show ?case
  proof (cases "\<not> act \<or> cstr name = []")
    case True
    with 2(1) [OF True, of ps] 2(3-) show ?thesis by (auto simp: listed_def)
  next
    case False
    let ?e = "entry_text name st"
    from 2(3) have w: "length (cstr name) \<le> 31" "st < 3" by (auto simp: wf_session_def)
    from list_entry_text [OF w] have e: "list_entry name st = ?e" "length ?e \<le> 42" by auto
    define acc1 where "acc1 = (if \<not> fst_entry then strncat acc '', '' (1024 - length acc - 1) else acc)"
    have a1: "acc1 = (if ps = [] then acc else acc @ '', '')" "length acc1 \<le> 44 * length ps + 2"
      using 2(4-7) by (auto simp: acc1_def)
    have a2: "strncat acc1 (list_entry name st) (1024 - length acc1 - 1) = joined (ps @ [?e])"
      using a1 e 2(4,7) by (simp add: joined_snoc)
    have "length (joined (ps @ [?e])) \<le> 44 * length (ps @ [?e])"
      using a1 e 2(4,6) by (simp add: joined_snoc)
    with 2(2) [OF False acc1_def refl, of "ps @ [?e]"] a2 2(3,7) False
    show ?thesis by (simp add: listed_def acc1_def [symmetric] Let_def)
  qed
qed

lemma user_list_joined:
  "list_all wf_session ss \<Longrightarrow> length ss \<le> 10 \<Longrightarrow> user_list ss = joined (map (case_prod entry_text) (listed ss))"
  unfolding user_list_def by (subst list_loop_joined [where ps = "[]"]) auto

subsection \<open>Sending to slots: the contract of a message sink\<close>

text \<open>
  \<open>stream st i\<close> is every byte committed to the client of slot \<open>i\<close>, in
  order; \<open>ready n st i\<close> says that slot \<open>i\<close> can take \<open>n\<close> more
  messages without loss; \<open>online st i\<close> is the \<open>active\<close> flag, which
  sending does not touch.
\<close>

locale message_sink =
  fixes send :: "nat \<Rightarrow> Message \<Rightarrow> 's \<Rightarrow> 's"
    and stream :: "'s \<Rightarrow> nat \<Rightarrow> char list"
    and ready :: "nat \<Rightarrow> 's \<Rightarrow> nat \<Rightarrow> bool"
    and online :: "'s \<Rightarrow> nat \<Rightarrow> bool"
  assumes send_stream_same: "ready (Suc n) st i \<Longrightarrow> stream (send i m st) i = stream st i @ pack_message m"
    and send_stream_other: "j \<noteq> i \<Longrightarrow> ready (Suc k) st i \<Longrightarrow> stream (send i m st) j = stream st j"
    and send_ready_same: "ready (Suc n) st i \<Longrightarrow> ready n (send i m st) i"
    and send_ready_other: "j \<noteq> i \<Longrightarrow> ready (Suc k) st i \<Longrightarrow> ready n st j \<Longrightarrow> ready n (send i m st) j"
    and send_online: "online (send i m st) j = online st j"
    and ready_less: "ready n st i \<Longrightarrow> k \<le> n \<Longrightarrow> ready k st i"
begin

text \<open>The loop \<open>for (i ...) if (i != skip && clients[i].active) send(i, m)\<close>.\<close>

definition to_others :: "nat \<Rightarrow> Message \<Rightarrow> nat list \<Rightarrow> 's \<Rightarrow> 's" where
  "to_others skip m = fold (\<lambda>i st. if i \<noteq> skip \<and> online st i then send i m st else st)"

lemma to_others_simps [simp]:
  "to_others skip m [] st = st"
  "to_others skip m (x # xs) st = to_others skip m xs (if x \<noteq> skip \<and> online st x then send x m st else st)"
  by (simp_all add: to_others_def)

lemma to_others_online: "online (to_others skip m xs st) j = online st j"
  by (induction xs arbitrary: st) (auto simp: send_online)

text \<open>Every slot \<open>i\<close> of \<open>R\<close> keeps room for \<open>g i\<close>
  messages when it had room for one more before each message it gets.\<close>

lemma to_others_loop:
  assumes "distinct xs" "\<forall>i\<in>R. ready (if i \<in> set xs \<and> i \<noteq> skip then Suc (g i) else g i) st i"
    and "\<forall>i\<in>set xs. i \<noteq> skip \<longrightarrow> online st i \<longrightarrow> i \<in> R"
  shows "(\<forall>i\<in>R. ready (g i) (to_others skip m xs st) i) \<and>
    stream (to_others skip m xs st) j =
      stream st j @ (if j \<in> set xs \<and> j \<noteq> skip \<and> online st j then pack_message m else [])"
  using assms
proof (induction xs arbitrary: st)
  case Nil
  then show ?case by simp
next
  case (Cons x xs)
  let ?need = "\<lambda>i. if i \<in> set xs \<and> i \<noteq> skip then Suc (g i) else g i"
  have le: "?need i \<le> (if i \<in> set (x # xs) \<and> i \<noteq> skip then Suc (g i) else g i)" for i by simp
  show ?case
  proof (cases "x \<noteq> skip \<and> online st x")
    case False
    have "\<forall>i\<in>R. ready (?need i) st i"
      using Cons.prems(2) ready_less [OF _ le] by blast
    with Cons.IH [of st] Cons.prems(1,3) False show ?thesis by auto
  next
    case True
    let ?st = "send x m st"
    have rx: "ready (Suc (g x)) st x" using Cons.prems(2,3) True by auto
    have "ready (?need i) ?st i" if "i \<in> R" for i
    proof (cases "i = x")
      case True
      then show ?thesis using send_ready_same [OF rx] Cons.prems(1) by simp
    next
      case False
      have "ready (?need i) st i" using Cons.prems(2) that ready_less [OF _ le] by blast
      with False show ?thesis by (rule send_ready_other [OF _ rx])
    qed
    with Cons.IH [of ?st] Cons.prems(1,3)
    have "(\<forall>i\<in>R. ready (g i) (to_others skip m xs ?st) i) \<and>
        stream (to_others skip m xs ?st) j =
          stream ?st j @ (if j \<in> set xs \<and> j \<noteq> skip \<and> online st j then pack_message m else [])"
      by (simp add: send_online)
    with True Cons.prems(1) send_stream_same [OF rx, of m] send_stream_other [OF _ rx, of j m]
    show ?thesis by (cases "j = x") auto
  qed
qed

text \<open>Broadcast: each online slot other than the skipped one gets the message once,
  nobody else gets anything.\<close>

lemma broadcast_stream:
  assumes "\<forall>i<N. i \<noteq> skip \<longrightarrow> online st i \<longrightarrow> ready (Suc n) st i"
  shows "stream (to_others skip m [0..<N] st) j =
    stream st j @ (if j < N \<and> j \<noteq> skip \<and> online st j then pack_message m else [])"
  using to_others_loop [of "[0..<N]" "{i. i < N \<and> i \<noteq> skip \<and> online st i}" skip "\<lambda>_. n" st m j] assms
  by simp

text \<open>The skipped slot keeps its room.\<close>

lemma broadcast_ready_skip:
  assumes "\<forall>i<N. i \<noteq> skip \<longrightarrow> online st i \<longrightarrow> ready (Suc n) st i" "ready k st skip"
  shows "ready k (to_others skip m [0..<N] st) skip"
proof -
  let ?R = "insert skip {i. i < N \<and> i \<noteq> skip \<and> online st i}"
  let ?g = "\<lambda>i. if i = skip then k else n"
  have "\<forall>i\<in>?R. ready (if i \<in> set [0..<N] \<and> i \<noteq> skip then Suc (?g i) else ?g i) st i"
    using assms by auto
  from to_others_loop [OF _ this, of m 0] show ?thesis by auto
qed

text \<open>Broadcast followed by an answer to the sender: the two things a
  \<open>MSG_BROADCAST\<close> queues.\<close>

lemma broadcast_and_ack:
  assumes "\<forall>i<N. i \<noteq> skip \<longrightarrow> online st i \<longrightarrow> ready (Suc n) st i" "ready (Suc k) st skip"
  shows "stream (send skip a (to_others skip m [0..<N] st)) j =
    stream st j @ (if j < N \<and> j \<noteq> skip \<and> online st j then pack_message m else [])
      @ (if j = skip then pack_message a else [])"
proof -
  have r: "ready (Suc k) (to_others skip m [0..<N] st) skip"
    by (rule broadcast_ready_skip [OF assms])
  show ?thesis
    using broadcast_stream [OF assms(1), of m j] send_stream_same [OF r, of a] send_stream_other [OF _ r, of j a]
    by (cases "j = skip") auto
qed

text \<open>A message to one slot and the answer to the sender, which may be the same slot.\<close>

lemma private_and_ack:
  assumes "ready (Suc (Suc n)) st t" "ready (Suc (Suc k)) st s"
  shows "stream (send s a (send t m st)) j =
    stream st j @ (if j = t then pack_message m else []) @ (if j = s then pack_message a else [])"
proof -
  have r: "\<exists>l. ready (Suc l) (send t m st) s"
    using send_ready_same [OF assms(1), of m] send_ready_other [OF _ assms(1) assms(2), of m] by (cases "s = t") auto
  then obtain l where r: "ready (Suc l) (send t m st) s" by blast
  show ?thesis
    using send_stream_same [OF assms(1), of m] send_stream_other [OF _ assms(1), of j m]
      send_stream_same [OF r, of a] send_stream_other [OF _ r, of j a]
    by (cases "j = s"; cases "j = t") auto
qed

end

subsection \<open>Who is logged in where: the contract of a session table\<close>

text \<open>
  \<open>names st i\<close> is the user logged in on slot \<open>i\<close>, if any. Lookup finds
  a slot with the name or tells that there is none; login and logout are map updates.
\<close>

locale session_table =
  fixes names :: "'s \<Rightarrow> nat \<Rightarrow> char list option"
    and lookup :: "'s \<Rightarrow> char list \<Rightarrow> nat option"
    and login :: "nat \<Rightarrow> char list \<Rightarrow> 's \<Rightarrow> 's"
    and logout :: "nat \<Rightarrow> 's \<Rightarrow> 's"
    and invar :: "'s \<Rightarrow> bool"
    and slots :: nat
  assumes lookup_Some: "invar st \<Longrightarrow> length u \<le> 31 \<Longrightarrow> cstring u \<Longrightarrow> lookup st u = Some i \<Longrightarrow> names st i = Some u"
    and lookup_None: "invar st \<Longrightarrow> length u \<le> 31 \<Longrightarrow> cstring u \<Longrightarrow> lookup st u = None \<Longrightarrow> names st i \<noteq> Some u"
    and login_names: "invar st \<Longrightarrow> i < slots \<Longrightarrow> user_ok u \<Longrightarrow> names (login i u st) = (names st)(i \<mapsto> u)"
    and logout_names: "invar st \<Longrightarrow> i < slots \<Longrightarrow> names (logout i st) = (names st)(i := None)"
begin

definition unique_names :: "'s \<Rightarrow> bool" where
  "unique_names st \<longleftrightarrow> (\<forall>i j u. names st i = Some u \<longrightarrow> names st j = Some u \<longrightarrow> i = j)"

lemma login_unique:
  assumes "invar st" "i < slots" "user_ok u" "unique_names st"
    and "lookup st u = None \<or> lookup st u = Some i"
  shows "unique_names (login i u st)"
proof -
  have u: "length u \<le> 31" "cstring u" using assms(3) by (auto simp: user_ok_def)
  have "k = i" if "names st k = Some u" for k
    using assms(5)
  proof
    assume "lookup st u = None"
    with that lookup_None [OF assms(1) u] show ?thesis by blast
  next
    assume "lookup st u = Some i"
    from lookup_Some [OF assms(1) u this] that assms(4) show ?thesis
      by (auto simp: unique_names_def)
  qed
  with assms(4) login_names [OF assms(1-3)] show ?thesis
    by (auto simp: unique_names_def split: if_splits)
qed

lemma logout_unique: "invar st \<Longrightarrow> i < slots \<Longrightarrow> unique_names st \<Longrightarrow> unique_names (logout i st)"
  by (auto simp: unique_names_def logout_names split: if_splits)

lemma lookup_unique:
  assumes "invar st" "unique_names st" "names st i = Some u" "length u \<le> 31" "cstring u"
  shows "lookup st u = Some i"
proof (cases "lookup st u")
  case None
  with assms lookup_None show ?thesis by blast
next
  case (Some j)
  with lookup_Some [OF assms(1,4,5) Some] assms(2,3) show ?thesis by (auto simp: unique_names_def)
qed

lemma login_then_lookup:
  assumes "invar st" "i < slots" "user_ok u" "unique_names st" "lookup st u = None"
    and "invar (login i u st)"
  shows "lookup (login i u st) u = Some i"
  using lookup_unique [OF assms(6) login_unique [OF assms(1-4)], of i u] assms(3,5) login_names [OF assms(1-3)]
  by (auto simp: user_ok_def)

end

end
