(* ===== verification/Wire.thy ===== *)
theory Wire
  imports Discovery Chat_Common
begin

text \<open>
  The wire format and the stream functions of \<open>src/protocol.c\<close> as their
  callers see them, and one exchange with the discovery server over its sockets
  (\<open>disc_exchange\<close>: a request sent with \<open>send_message\<close>, served by
  \<open>handle_connection\<close>, the answer read with \<open>recv_message\<close>).
\<close>

text \<open>Every message \<open>make_message\<close> builds, whatever the strings, survives
  the wire unchanged: its packed form is 76 bytes plus the payload, decoding it gives the
  message back, with names cut to 31 and payload to 1024 bytes.\<close>
theorem made_message_roundtrip:
  assumes "wf_type t" "m = make_message now t (Some s) (Some r) (Some p)"
  shows "unpack_message (pack_message m) (length (pack_message m)) = Some m \<and>
    length (pack_message m) = 76 + min (length (cstr p)) 1024 \<and>
    msg_type m = t \<and> timestamp m = now \<and> cstr (sender m) = take 31 (cstr s) \<and>
    cstr (receiver m) = take 31 (cstr r) \<and> cstr (payload m) = take 1024 (cstr p)"
proof -
  have w: "wf_message m" using assms by simp
  have "unpack_message (pack_message m) (length (pack_message m)) = Some m"
    using unpack_pack [OF wf_message_valid [OF w], of "length (pack_message m)" "[]"] w by simp
  moreover have "msg_type m = t" "timestamp m = now" using assms(2) by (simp_all add: make_message_def Let_def)
  ultimately show ?thesis using assms(2) by (simp add: make_message_fields)
qed

theorem made_message_roundtrip_witness:
  "unpack_message (pack_message (new_message 9 MSG_BROADCAST ''al'' [] ''hi''))
     (length (pack_message (new_message 9 MSG_BROADCAST ''al'' [] ''hi'')))
   = Some (new_message 9 MSG_BROADCAST ''al'' [] ''hi'')"
  by (rule made_message_roundtrip [OF wf_type_named(7) refl, THEN conjunct1])

text \<open>C36: \<open>unpack_message\<close> rejects exactly the short header, the announced payload
  of more than 1024 bytes and the buffer that does not hold the announced payload; what it
  accepts is a message with terminated names and a payload inside its array, and forwarding
  it (pack, unpack) changes at most the bytes behind the terminators of the names.\<close>
theorem unpack_accepts_exactly:
  assumes "n \<le> length buf" "plen = unat (read_u16_be (buf ! 74) (buf ! 75))"
  shows "(unpack_message buf n = None \<longleftrightarrow> n < 76 \<or> 1024 < plen \<or> n < 76 + plen) \<and>
    (\<forall>m. unpack_message buf n = Some m \<longrightarrow> valid_message m \<and> unat (payload_len m) = plen \<and>
       unpack_message (pack_message m) (length (pack_message m)) = Some (pad_names m))"
  using unpack_None_iff [of buf n] unpack_valid [OF _ assms(1)] unpack_fields(3) [of buf n]
    forward_unpack [OF _ assms(1)] assms(2) by auto

theorem unpack_accepts_exactly_witness:
  "unpack_message (zeros 76) 76 \<noteq> None \<and> unpack_message (zeros 75) 75 = None"
  using unpack_accepts_exactly [OF _ refl, of 76 "zeros 76"] unpack_accepts_exactly [OF _ refl, of 75 "zeros 75"]
  by (simp add: read_u16_be_def word_of_byte_def zeros_def)

text \<open>C11: Any sequence of messages sent over a connection with \<open>send_message\<close> is
  received with \<open>recv_message\<close> as the same sequence, whatever partial writes, partial
  reads and interrupted calls there are on either side, as long as no call fails.\<close>
theorem stream_roundtrip:
  assumes "no_wr_err ws" "w_out ws = []" "no_rd_err rs" "r_bytes rs = w_out (send_all ws ms)"
    and "\<forall>m\<in>set ms. wf_message m"
  shows "fst (recv_all rs) = ms"
proof -
  have "fst (recv_all rs) = map pad_names ms"
    using recv_all_packed [of rs ms] send_all_ok [OF assms(1), of ms] assms by simp
  with assms(5) show ?thesis by (simp add: map_idI)
qed

theorem stream_roundtrip_witness:
  "fst (recv_all \<lparr>r_bytes = w_out (send_all \<lparr>w_out = [], w_script = [WData 3, WIntr, WData 50]\<rparr>
       [new_message 9 MSG_BROADCAST ''al'' [] ''hi'', new_message 10 MSG_LIST_USERS ''al'' [] []]),
     r_script = [RData 7, RIntr, RData 80]\<rparr>)
   = [new_message 9 MSG_BROADCAST ''al'' [] ''hi'', new_message 10 MSG_LIST_USERS ''al'' [] []]"
  by (rule stream_roundtrip [where ws = "\<lparr>w_out = [], w_script = [WData 3, WIntr, WData 50]\<rparr>"])
    (simp_all add: no_wr_err_def no_rd_err_def)

lemma recv_consumed:
  assumes "recv_message s = (Some m, s')"
  defines "plen \<equiv> unat (read_u16_be (r_bytes s ! 74) (r_bytes s ! 75))"
  shows "valid_message m" "unat (payload_len m) = plen" "76 + plen \<le> length (r_bytes s)"
    "r_bytes s' = drop (76 + plen) (r_bytes s)" "unpack_message (take (76 + plen) (r_bytes s)) (76 + plen) = Some m"
proof -
  obtain buf where b: "r_bytes s = buf @ r_bytes s'" "length buf = 76 + unat (payload_len m)"
      "unpack_message buf (length buf) = Some m" and v: "valid_message m"
    using recv_message_SomeD [OF assms(1)] by blast
  have "r_bytes s ! 74 = buf ! 74" "r_bytes s ! 75 = buf ! 75" unfolding b(1) using b(2) by (simp_all add: nth_append)
  then have pl: "unat (payload_len m) = plen" using unpack_fields(3) [OF b(3)] by (simp add: plen_def)
  show "valid_message m" by (rule v)
  show "unat (payload_len m) = plen" by (rule pl)
  have l: "length buf = 76 + plen" using b(2) pl by simp
  show "76 + plen \<le> length (r_bytes s)" unfolding b(1) using l by simp
  show "r_bytes s' = drop (76 + plen) (r_bytes s)" unfolding b(1) using l by simp
  show "unpack_message (take (76 + plen) (r_bytes s)) (76 + plen) = Some m" unfolding b(1) using l b(3) by simp
qed

text \<open>C30: On a connection without read errors \<open>recv_message\<close> succeeds exactly
  when a whole message with a payload of at most 1024 bytes is there; the message is well
  formed and the bytes consumed are exactly its own, so the next call starts at the next
  message.\<close>
theorem recv_accepts_exactly:
  assumes "no_rd_err s" "bs = r_bytes s" "plen = unat (read_u16_be (bs ! 74) (bs ! 75))"
  shows "(fst (recv_message s) \<noteq> None \<longleftrightarrow> 76 \<le> length bs \<and> plen \<le> 1024 \<and> 76 + plen \<le> length bs) \<and>
    (\<forall>m s'. recv_message s = (Some m, s') \<longrightarrow>
       valid_message m \<and> unat (payload_len m) = plen \<and> r_bytes s' = drop (76 + plen) bs \<and>
       unpack_message (take (76 + plen) bs) (76 + plen) = Some m)"
proof
  show "fst (recv_message s) \<noteq> None \<longleftrightarrow> 76 \<le> length bs \<and> plen \<le> 1024 \<and> 76 + plen \<le> length bs"
  proof
    assume "fst (recv_message s) \<noteq> None"
    then obtain m s' where "recv_message s = (Some m, s')" by (cases "recv_message s") auto
    from recv_consumed [OF this] assms(2,3) show "76 \<le> length bs \<and> plen \<le> 1024 \<and> 76 + plen \<le> length bs"
      by (auto simp: valid_message_def)
  next
    assume b: "76 \<le> length bs \<and> plen \<le> 1024 \<and> 76 + plen \<le> length bs"
    obtain s1 where s1: "read_full 76 [] s = (Some (take 76 bs), s1)" "r_bytes s1 = drop 76 bs" "no_rd_err s1"
      using read_full_enough [of 76 "[]" s] assms(1,2) b by auto
    have pl: "plen \<le> length bs - 76" using b by linarith
    obtain s2 where s2: "read_full plen [] s1 = (Some (take plen (drop 76 bs)), s2)"
      using read_full_enough [of plen "[]" s1] s1 pl by auto
    have "(take 76 bs @ x) ! 74 = bs ! 74" "(take 76 bs @ x) ! 75 = bs ! 75" for x using b by (simp_all add: nth_append)
    then have "unpack_message (take 76 bs @ take plen (drop 76 bs)) (76 + plen) \<noteq> None"
      using b assms(3) by (simp add: unpack_None_iff del: not_None_eq)
    with s1(1) s2 b show "fst (recv_message s) \<noteq> None"
      by (simp add: recv_message_def Let_def not_less flip: assms(3) del: not_None_eq)
  qed
  show "\<forall>m s'. recv_message s = (Some m, s') \<longrightarrow> valid_message m \<and> unat (payload_len m) = plen \<and>
      r_bytes s' = drop (76 + plen) bs \<and> unpack_message (take (76 + plen) bs) (76 + plen) = Some m"
    using recv_consumed assms(2,3) by auto
qed

theorem recv_accepts_exactly_witness:
  "fst (recv_message \<lparr>r_bytes = zeros 76, r_script = [RIntr, RData 9]\<rparr>) \<noteq> None \<and>
   fst (recv_message \<lparr>r_bytes = zeros 75, r_script = []\<rparr>) = None"
  using recv_accepts_exactly [OF _ refl refl, of "\<lparr>r_bytes = zeros 76, r_script = [RIntr, RData 9]\<rparr>"]
    recv_accepts_exactly [OF _ refl refl, of "\<lparr>r_bytes = zeros 75, r_script = []\<rparr>"]
  by (simp add: no_rd_err_def read_u16_be_def word_of_byte_def zeros_def del: not_None_eq)

text \<open>Whatever happens to the connection, \<open>send_message\<close> puts a prefix of the
  packed message on the wire, and all of it when it returns success; without write errors
  it succeeds.\<close>
theorem send_writes_prefix:
  assumes "send_message s m = (ok, s')"
  shows "(\<exists>n. w_out s' = w_out s @ take n (pack_message m)) \<and> (ok \<longrightarrow> w_out s' = w_out s @ pack_message m) \<and>
    (no_wr_err s \<longrightarrow> ok)"
  using send_message_prefix [OF assms] send_message_ok [of s m] assms by auto

theorem send_writes_prefix_witness:
  "w_out (snd (send_message \<lparr>w_out = [], w_script = [WData 3, WIntr]\<rparr> (new_message 9 MSG_LIST_USERS ''al'' [] [])))
   = pack_message (new_message 9 MSG_LIST_USERS ''al'' [] [])"
proof -
  let ?s = "\<lparr>w_out = [], w_script = [WData 3, WIntr]\<rparr>" and ?m = "new_message 9 MSG_LIST_USERS ''al'' [] []"
  obtain ok s' where r: "send_message ?s ?m = (ok, s')" by fastforce
  from send_writes_prefix [OF r] r show ?thesis by (simp add: no_wr_err_def)
qed

section \<open>The discovery server on its sockets\<close>

text \<open>What comes back over the wire of one exchange with \<open>handle_connection\<close> on
  connections that do not fail.\<close>

definition disc_exchange :: "char list \<Rightarrow> 64 word \<Rightarrow> registry \<Rightarrow> Message \<Rightarrow> registry \<times> Message option" where
  "disc_exchange peer_ip now reg req =
     (case handle_connection peer_ip now reg
         \<lparr>r_bytes = w_out (snd (send_message \<lparr>w_out = [], w_script = []\<rparr> req)), r_script = []\<rparr>
         \<lparr>w_out = [], w_script = []\<rparr> of
        (reg', _, ws) \<Rightarrow> (reg', fst (recv_message \<lparr>r_bytes = w_out ws, r_script = []\<rparr>)))"

lemma handle_connection_serves:
  assumes "valid_message req" "no_rd_err rs" "no_wr_err ws" "r_bytes rs = pack_message req @ rest"
    and h: "handle_request peer_ip now reg (pad_names req) = (reg', resp)"
  shows "\<exists>rs' ws'. handle_connection peer_ip now reg rs ws = (reg', rs', ws') \<and>
    r_bytes rs' = rest \<and> w_out ws' = w_out ws @ pack_message resp"
proof -
  obtain rs' where rs': "recv_message rs = (Some (pad_names req), rs')" "r_bytes rs' = rest"
    using recv_packed [OF assms(1,4,2)] by blast
  obtain ws' where "send_message ws resp = (True, ws')" "w_out ws' = w_out ws @ pack_message resp"
    using send_message_ok [OF assms(3), of resp] by blast
  with rs' h show ?thesis by (simp add: handle_connection_def)
qed

lemma valid_response: "valid_message (snd (handle_request peer_ip now reg req))"
  by (auto simp: handle_request_def Let_def split: msg_type_t.split prod.split option.split)

lemma disc_exchange_eq:
  assumes "wf_message req"
  shows "disc_exchange peer_ip now reg req =
    (fst (handle_request peer_ip now reg req), Some (pad_names (snd (handle_request peer_ip now reg req))))"
proof -
  let ?ws = "\<lparr>w_out = [], w_script = []\<rparr> :: wsock"
  obtain reg' resp where h: "handle_request peer_ip now reg req = (reg', resp)" by fastforce
  have ok: "no_wr_err ?ws" by (simp add: no_wr_err_def)
  have out: "w_out (snd (send_message ?ws req)) = pack_message req" using send_message_ok [OF ok, of req] by auto
  let ?rs = "\<lparr>r_bytes = w_out (snd (send_message ?ws req)), r_script = []\<rparr> :: rsock"
  obtain rs' ws' where hc: "handle_connection peer_ip now reg ?rs ?ws = (reg', rs', ws')" "w_out ws' = pack_message resp"
    using handle_connection_serves [of req ?rs ?ws "[]" peer_ip now reg reg' resp] assms ok out h
    by (auto simp: no_rd_err_def)
  have v: "valid_message resp" using valid_response [of peer_ip now reg req] h by simp
  have "fst (recv_message \<lparr>r_bytes = w_out ws', r_script = []\<rparr>) = Some (pad_names resp)"
    using recv_packed [OF v, of "\<lparr>r_bytes = w_out ws', r_script = []\<rparr>" "[]"] hc(2) by (auto simp: no_rd_err_def)
  with hc h show ?thesis by (simp add: disc_exchange_def)
qed

end
