(* ===== verification/Chat_Client.thy ===== *)
theory Chat_Client
  imports Wire
begin

text \<open>
  \<open>src/chat_client.c\<close>: the name and password read at the start, the
  registration and login exchanges, the receiver thread with the text it prints, and the
  input loop with its commands. \<open>command\<close> and \<open>render\<close> specify the
  command lines; parsing a rendered line gives the command back. The flag
  \<open>running\<close>, which the receiver thread clears, is an argument of the input loop;
  prompts and the two messages on connection failures are left out.
\<close>

subsection \<open>Console colours\<close>

definition ansi :: "char list \<Rightarrow> char list" where
  "ansi code = CHR 0x1B # CHR ''['' # code @ ''m''"

definition GRN :: "char list" where "GRN = ansi ''92''"
definition CYN :: "char list" where "CYN = ansi ''96''"
definition YLW :: "char list" where "YLW = ansi ''93''"
definition RED :: "char list" where "RED = ansi ''91''"
definition BLD :: "char list" where "BLD = ansi ''1''"
definition RST :: "char list" where "RST = ansi ''0''"

subsection \<open>Names, passwords, sending\<close>

text \<open>The user name is the first line of the input, cut at 31 characters; what does not fit
  stays in the input. The password is what \<open>getpass\<close> returned.\<close>

definition read_username :: "char list \<Rightarrow> char list \<times> char list" where
  "read_username inp =
     (case fgets MAX_USERNAME_LEN inp of
        None \<Rightarrow> ([], inp)
      | Some (line, rest) \<Rightarrow> (takeWhile (\<lambda>c. c \<noteq> newline) (cstr line), rest))"

definition read_password :: "char list \<Rightarrow> char list" where
  "read_password pw = cstr (strncpy (zeros MAX_PASSWORD_LEN) pw (MAX_PASSWORD_LEN - 1))"

definition send_cmd ::
  "64 word \<Rightarrow> char list \<Rightarrow> msg_type_t \<Rightarrow> char list \<Rightarrow> char list \<Rightarrow> wsock \<Rightarrow> wsock" where
  "send_cmd now user t rcp text ws = snd (send_message ws (new_message now t user rcp text))"

subsection \<open>Registration and login\<close>

text \<open>\<open>conn\<close> is the pair of stream ends of a connection, \<open>None\<close> when
  \<open>tcp_connect\<close> fails; the result says whether the function returned 0.\<close>

definition register_message :: "64 word \<Rightarrow> char list \<Rightarrow> char list \<Rightarrow> int \<Rightarrow> Message" where
  "register_message now user pw chat_port =
     new_message now MSG_REGISTER user ''discovery''
       (snprintf MAX_PAYLOAD_LEN (user @ '':'' @ pw @ '':'' @ show_int chat_port))"

definition register_with_discovery ::
  "64 word \<Rightarrow> char list \<Rightarrow> char list \<Rightarrow> int \<Rightarrow> (rsock \<times> wsock) option \<Rightarrow> bool \<times> (rsock \<times> wsock) option" where
  "register_with_discovery now user pw chat_port conn =
     (case conn of
        None \<Rightarrow> (False, None)
      | Some (rs, ws) \<Rightarrow>
          (let ws' = snd (send_message ws (register_message now user pw chat_port))
           in case recv_message rs of
                (None, rs') \<Rightarrow> (False, Some (rs', ws'))
              | (Some resp, rs') \<Rightarrow> (msg_status resp = 0, Some (rs', ws'))))"

definition login_message :: "64 word \<Rightarrow> char list \<Rightarrow> char list \<Rightarrow> Message" where
  "login_message now user pw =
     new_message now MSG_LOGIN user [] (snprintf MAX_PAYLOAD_LEN (user @ '':'' @ pw))"

definition login_to_chat ::
  "64 word \<Rightarrow> char list \<Rightarrow> char list \<Rightarrow> (rsock \<times> wsock) option \<Rightarrow> bool \<times> (rsock \<times> wsock) option" where
  "login_to_chat now user pw conn =
     (case conn of
        None \<Rightarrow> (False, None)
      | Some (rs, ws) \<Rightarrow>
          (let ws' = snd (send_message ws (login_message now user pw))
           in case recv_message rs of
                (None, rs') \<Rightarrow> (False, Some (rs', ws'))
              | (Some resp, rs') \<Rightarrow> (msg_status resp = 0 \<and> msg_type resp \<noteq> MSG_ERROR, Some (rs', ws'))))"

subsection \<open>The receiver\<close>

definition hex_digit :: "nat \<Rightarrow> char" where
  "hex_digit n = (if n < 10 then char_of (48 + n) else char_of (55 + n))"

definition show_hex2 :: "8 word \<Rightarrow> char list" where
  "show_hex2 b = [hex_digit (unat b div 16), hex_digit (unat b mod 16)]"

text \<open>What \<open>print_message\<close> writes; \<open>lt\<close> is the time of day
  \<open>strftime\<close> makes of a time stamp. \<open>None\<close>: \<open>localtime\<close> returned a
  null pointer and the client dies.\<close>

definition print_message :: "(64 word \<Rightarrow> char list option) \<Rightarrow> Message \<Rightarrow> char list option" where
  "print_message lt msg =
     (case lt (timestamp msg) of
        None \<Rightarrow> None
      | Some tb \<Rightarrow>
          (let from = cstr (sender msg); text = cstr (payload msg); nl = [newline]
           in Some (case msg_type msg of
                MSG_BROADCAST \<Rightarrow> nl @ CYN @ ''['' @ tb @ ''] '' @ BLD @ from @ RST @ CYN @ '' (broadcast): '' @ RST @ text @ nl @ ''> ''
              | MSG_PRIVATE \<Rightarrow> nl @ YLW @ ''['' @ tb @ ''] '' @ BLD @ from @ RST @ YLW @ '' (private): '' @ RST @ text @ nl @ ''> ''
              | MSG_USER_LIST \<Rightarrow> nl @ GRN @ ''Online: '' @ BLD @ text @ RST @ nl @ ''> ''
              | MSG_HISTORY_RESP \<Rightarrow> nl @ CYN @ ''--- history ---'' @ nl @ text @ ''--- end ---'' @ nl @ RST @ ''> ''
              | MSG_ACK \<Rightarrow> (if text \<noteq> [] then nl @ GRN @ ''[server]: '' @ text @ nl @ RST @ ''> '' else [])
              | MSG_ERROR \<Rightarrow> nl @ RED @ ''[error]: '' @ text @ nl @ RST @ ''> ''
              | t \<Rightarrow> nl @ ''[?] type=0x'' @ show_hex2 (type_code t) @ '' '' @ from @ '': '' @ text @ nl @ ''> '')))"

text \<open>The receiver thread: everything it writes until the connection ends or the flag
  \<open>running\<close> is cleared, \<open>None\<close> when it dies. \<open>run k\<close> is the
  flag at its \<open>k\<close>-th test: one at the head of the loop, one when the connection
  has ended.\<close>

function receiver_thread ::
  "(64 word \<Rightarrow> char list option) \<Rightarrow> (nat \<Rightarrow> bool) \<Rightarrow> nat \<Rightarrow> rsock \<Rightarrow> char list option" where
  "receiver_thread lt run k rs =
     (if \<not> run k then Some []
      else (case recv_message rs of
              (None, _) \<Rightarrow>
                Some (if run (Suc k) then RED @ [newline] @ ''[!] Disconnected.'' @ [newline] @ RST else [])
            | (Some msg, rs') \<Rightarrow>
                (case print_message lt msg of
                   None \<Rightarrow> None
                 | Some out \<Rightarrow> map_option (\<lambda>more. out @ more) (receiver_thread lt run (Suc k) rs'))))"
  by pat_completeness auto
termination
  by (relation "measure (\<lambda>(lt, run, k, rs). length (r_bytes rs))") (auto simp: recv_message_consumes dest: sym)

declare receiver_thread.simps [simp del]

text \<open>Without a stop, the thread writes the texts of the messages in the order received,
  then that the connection is gone.\<close>

definition goodbye_line :: "char list" where
  "goodbye_line = RED @ [newline] @ ''[!] Disconnected.'' @ [newline] @ RST"

lemma receiver_writes_all:
  assumes "list_all (\<lambda>m. print_message lt m \<noteq> None) (fst (recv_all rs))"
  shows "receiver_thread lt (\<lambda>_. True) k rs =
    Some (concat (map (\<lambda>m. the (print_message lt m)) (fst (recv_all rs))) @ goodbye_line)"
  using assms
proof (induction rs arbitrary: k rule: recv_all.induct)
  case (1 rs)
  obtain r rs' where rm: "recv_message rs = (r, rs')" by force
  show ?case
  proof (cases r)
    case None
    with rm show ?thesis
      by (simp add: receiver_thread.simps [of lt _ k rs] recv_all.simps [of rs] goodbye_line_def)
  next
    case (Some m)
    obtain ms rs'' where ra: "recv_all rs' = (ms, rs'')" by force
    with rm Some have all: "fst (recv_all rs) = m # ms" by (simp add: recv_all.simps [of rs])
    with 1(2) obtain out where out: "print_message lt m = Some out" by auto
    have "receiver_thread lt (\<lambda>_. True) (Suc k) rs' = Some (concat (map (\<lambda>m. the (print_message lt m)) ms) @ goodbye_line)"
      using 1(1) [OF rm [symmetric] Some] 1(2) all ra by simp
    with rm Some out all show ?thesis by (simp add: receiver_thread.simps [of lt _ k rs])
  qed
qed

subsection \<open>The input loop\<close>

definition CR :: char where "CR = CHR 0x0D"

definition strip_eol :: "char list \<Rightarrow> char list" where
  "strip_eol line = rev (dropWhile (\<lambda>c. c = newline \<or> c = CR) (rev (cstr line)))"

text \<open>What a line makes the client write to the console, the prompt apart.\<close>

datatype console = ShowNothing | ShowUsageMsg | ShowUsageStatus | ShowHelp | ShowUnknown

definition print_help :: "char list" where
  "print_help = BLD @ [newline] @ ''Commands:'' @ [newline] @ RST
     @ ''  /broadcast <msg>              Send to all'' @ [newline]
     @ ''  /msg <user> <msg>             Private message'' @ [newline]
     @ ''  /list                         Online users'' @ [newline]
     @ ''  /history                      Your chat history'' @ [newline]
     @ ''  /status <available|busy|away> Change status'' @ [newline]
     @ ''  /quit                         Exit'' @ [newline]
     @ ''  /help                         This help'' @ [newline] @ [newline]"

fun console_text :: "console \<Rightarrow> char list" where
  "console_text ShowNothing = []"
| "console_text ShowUsageMsg = RED @ ''Usage: /msg <user> <msg>'' @ [newline] @ RST"
| "console_text ShowUsageStatus = RED @ ''Usage: /status <available|busy|away>'' @ [newline] @ RST"
| "console_text ShowHelp = print_help"
| "console_text ShowUnknown = RED @ ''Unknown command. /help for usage.'' @ [newline] @ RST"

text \<open>One line: the connection afterwards, the console output, and whether the loop goes
  on. \<open>strchr\<close> splits the rest of a \<open>/msg\<close> line at its first blank.\<close>

definition input_line :: "64 word \<Rightarrow> char list \<Rightarrow> char list \<Rightarrow> wsock \<Rightarrow> wsock \<times> console \<times> bool" where
  "input_line now user raw ws =
     (let line = strip_eol raw
      in if line = [] then (ws, ShowNothing, True)
         else if strneq 11 line ''/broadcast '' then
           (send_cmd now user MSG_BROADCAST [] (drop 11 line) ws, ShowNothing, True)
         else if strneq 5 line ''/msg '' then
           (let rest = drop 5 line; name = takeWhile (\<lambda>c. c \<noteq> CHR '' '') rest
            in if length name = length rest then (ws, ShowUsageMsg, True)
               else (send_cmd now user MSG_PRIVATE name (drop (Suc (length name)) rest) ws, ShowNothing, True))
         else if line = ''/list'' then (send_cmd now user MSG_LIST_USERS [] [] ws, ShowNothing, True)
         else if line = ''/history'' then (send_cmd now user MSG_HISTORY_REQ [] [] ws, ShowNothing, True)
         else if strneq 8 line ''/status '' then
           (let s = drop 8 line
            in if s \<noteq> ''available'' \<and> s \<noteq> ''busy'' \<and> s \<noteq> ''away'' then (ws, ShowUsageStatus, True)
               else (send_cmd now user MSG_STATUS_CHANGE [] s ws, ShowNothing, True))
         else if line = ''/quit'' then (send_cmd now user MSG_LOGOUT [] ''Bye'' ws, ShowNothing, False)
         else if line = ''/help'' then (ws, ShowHelp, True)
         else (ws, ShowUnknown, True))"

text \<open>The loop; \<open>clock k\<close> is the time and \<open>alive k\<close> the flag
  \<open>running\<close> at its \<open>k\<close>-th round (the receiver clears the flag).\<close>

function input_loop ::
  "(nat \<Rightarrow> 64 word) \<Rightarrow> (nat \<Rightarrow> bool) \<Rightarrow> nat \<Rightarrow> char list \<Rightarrow> char list \<Rightarrow> wsock \<Rightarrow> wsock \<times> console list" where
  "input_loop clock alive k user inp ws =
     (if \<not> alive k then (ws, [])
      else (case fgets (MAX_PAYLOAD_LEN + 64) inp of
              None \<Rightarrow> (ws, [])
            | Some (line, rest) \<Rightarrow>
                (case input_line (clock k) user line ws of
                   (ws', out, run) \<Rightarrow>
                     if run then (case input_loop clock alive (Suc k) user rest ws' of (ws'', outs) \<Rightarrow> (ws'', out # outs))
                     else (ws', [out]))))"
  by pat_completeness auto
termination
  by (relation "measure (\<lambda>(clock, alive, k, user, inp, ws). length inp)") (auto dest!: fgets_progress)

declare input_loop.simps [simp del]

text \<open>\<open>sig_handler\<close> while the client is connected.\<close>

definition client_signal :: "64 word \<Rightarrow> char list \<Rightarrow> wsock \<Rightarrow> wsock" where
  "client_signal now user ws = send_cmd now user MSG_LOGOUT [] ''Bye'' ws"

subsection \<open>Commands and their lines\<close>

datatype command =
    CBroadcast "char list" | CPrivate "char list" "char list" | CList | CHistory
  | CStatus user_status_t | CQuit

fun status_word :: "user_status_t \<Rightarrow> char list" where
  "status_word STATUS_AVAILABLE = ''available''"
| "status_word STATUS_BUSY = ''busy''"
| "status_word STATUS_AWAY = ''away''"

fun render :: "command \<Rightarrow> char list" where
  "render (CBroadcast t) = ''/broadcast '' @ t"
| "render (CPrivate who t) = ''/msg '' @ who @ '' '' @ t"
| "render CList = ''/list''"
| "render CHistory = ''/history''"
| "render (CStatus x) = ''/status '' @ status_word x"
| "render CQuit = ''/quit''"

fun command_message :: "64 word \<Rightarrow> char list \<Rightarrow> command \<Rightarrow> Message" where
  "command_message now user (CBroadcast t) = new_message now MSG_BROADCAST user [] t"
| "command_message now user (CPrivate who t) = new_message now MSG_PRIVATE user who t"
| "command_message now user CList = new_message now MSG_LIST_USERS user [] []"
| "command_message now user CHistory = new_message now MSG_HISTORY_REQ user [] []"
| "command_message now user (CStatus x) = new_message now MSG_STATUS_CHANGE user [] (status_word x)"
| "command_message now user CQuit = new_message now MSG_LOGOUT user [] ''Bye''"

definition text_ok :: "char list \<Rightarrow> bool" where
  "text_ok t \<longleftrightarrow> cstring t \<and> (t \<noteq> [] \<longrightarrow> last t \<noteq> newline \<and> last t \<noteq> CR)"

fun command_ok :: "command \<Rightarrow> bool" where
  "command_ok (CBroadcast t) = text_ok t"
| "command_ok (CPrivate who t) = (text_ok t \<and> cstring who \<and> CHR '' '' \<notin> set who)"
| "command_ok _ = True"

lemma eol_distinct [simp]: "newline \<noteq> CHR '' ''" "CR \<noteq> CHR '' ''" "newline \<noteq> NUL" "CR \<noteq> NUL"
  by (simp_all add: newline_def CR_def)

lemma strip_eol_append:
  assumes "set eol \<subseteq> {newline, CR}" "cstring s" "s \<noteq> []" "last s \<noteq> newline" "last s \<noteq> CR"
  shows "strip_eol (s @ eol) = s"
proof -
  have "cstring eol" using assms(1) by (auto simp: cstring_def newline_def CR_def)
  then have c: "cstr (s @ eol) = s @ eol" using assms(2) by simp
  have "dropWhile (\<lambda>c. c = newline \<or> c = CR) (rev eol @ rev s) = dropWhile (\<lambda>c. c = newline \<or> c = CR) (rev s)"
    using assms(1) by (intro dropWhile_append2) auto
  also have "\<dots> = rev s" using assms(3-5) by (cases s rule: rev_cases) auto
  finally show ?thesis by (simp add: strip_eol_def c)
qed

lemma status_word_props: "cstring (status_word x)" "status_word x \<noteq> []"
    "last (status_word x) \<noteq> newline" "last (status_word x) \<noteq> CR"
  by (cases x; simp add: newline_def CR_def)+

lemma render_props:
  assumes "command_ok c"
  shows "cstring (render c) \<and> render c \<noteq> [] \<and> last (render c) \<noteq> newline \<and> last (render c) \<noteq> CR"
proof (cases c rule: render.cases)
  case (1 t)
  with assms show ?thesis by (cases "t = []") (simp_all add: text_ok_def newline_def CR_def)
next
  case (2 who t)
  with assms show ?thesis by (cases "t = []") (simp_all add: text_ok_def newline_def CR_def)
next
  case (5 x)
  with status_word_props [of x] show ?thesis by simp
qed (simp_all add: newline_def CR_def)

lemma strip_render: "command_ok c \<Longrightarrow> set eol \<subseteq> {newline, CR} \<Longrightarrow> strip_eol (render c @ eol) = render c"
  using render_props [of c] strip_eol_append by blast

lemma send_cmd_ok: "no_wr_err ws \<Longrightarrow> w_out (send_cmd now user t rcp text ws) = w_out ws @ pack_message (new_message now t user rcp text)"
  using send_message_ok [of ws "new_message now t user rcp text"] by (auto simp: send_cmd_def)

lemma input_line_cases:
  assumes "input_line now user raw ws = (ws', out, run)"
  shows "ws' = ws \<or> (\<exists>t rcp text. ws' = send_cmd now user t rcp text ws \<and>
    t \<in> {MSG_BROADCAST, MSG_PRIVATE, MSG_LIST_USERS, MSG_HISTORY_REQ, MSG_STATUS_CHANGE, MSG_LOGOUT})"
  using assms unfolding input_line_def Let_def by (simp split: if_splits) blast+

lemma input_line_render:
  assumes "command_ok c" "set eol \<subseteq> {newline, CR}"
  shows "input_line now user (render c @ eol) ws =
    (snd (send_message ws (command_message now user c)), ShowNothing, c \<noteq> CQuit)"
proof -
  note s = strip_render [OF assms]
  show ?thesis
  proof (cases c rule: render.cases)
    case (2 who t)
    have "takeWhile (\<lambda>c. c \<noteq> CHR '' '') (who @ CHR '' '' # t) = who"
      using assms(1) 2 by (simp add: takeWhile_append2 takeWhile_tail) (metis (mono_tags, lifting) takeWhile_eq_all_conv append_Nil2 takeWhile_append2 takeWhile.simps(2))
    then show ?thesis using s by (simp add: input_line_def 2 strneq_def send_cmd_def)
  next
    case (5 x)
    then show ?thesis using s by (cases x) (simp_all add: input_line_def strneq_def send_cmd_def)
  qed (use s in \<open>simp_all add: input_line_def strneq_def send_cmd_def\<close>)
qed

section \<open>Properties of the client\<close>

text \<open>C32: Every command typed at the prompt, with any line end, is parsed back to itself:
  the client sends exactly the one message of the command, under its own name, and goes on
  unless it was \<open>/quit\<close>. Texts may be anything that fits on a line; a longer text is
  cut to the 1024 bytes of a payload by \<open>make_message\<close>.\<close>
theorem command_roundtrip:
  assumes "command_ok c" "set eol \<subseteq> {newline, CR}" "no_wr_err ws"
    and "input_line now user (render c @ eol) ws = (ws', out, run)"
  shows "w_out ws' = w_out ws @ pack_message (command_message now user c) \<and> out = ShowNothing \<and> run = (c \<noteq> CQuit)"
  using assms(4) input_line_render [OF assms(1,2), of now user ws] send_message_ok [OF assms(3), of "command_message now user c"]
  by auto

theorem command_roundtrip_witness:
  "w_out (fst (input_line 9 ''al'' (''/msg bo see you'' @ [newline]) \<lparr>w_out = [], w_script = [WData 5, WIntr]\<rparr>))
   = pack_message (new_message 9 MSG_PRIVATE ''al'' ''bo'' ''see you'')"
proof -
  let ?ws = "\<lparr>w_out = [], w_script = [WData 5, WIntr]\<rparr>" and ?c = "CPrivate ''bo'' ''see you''"
  obtain ws' out run where r: "input_line 9 ''al'' (render ?c @ [newline]) ?ws = (ws', out, run)" by (metis prod_cases3)
  have "command_ok ?c" by (simp add: text_ok_def newline_def CR_def)
  from command_roundtrip [OF this _ _ r] r show ?thesis by (simp add: no_wr_err_def)
qed

text \<open>Whatever is typed, one line makes the client send at most one message, with the
  user's own name as its sender and one of the six request types.\<close>
theorem line_sends_own_messages:
  assumes "no_wr_err ws" "input_line now user raw ws = (ws', out, run)"
  shows "w_out ws' = w_out ws \<or>
    (\<exists>t rcp text. t \<in> {MSG_BROADCAST, MSG_PRIVATE, MSG_LIST_USERS, MSG_HISTORY_REQ, MSG_STATUS_CHANGE, MSG_LOGOUT} \<and>
       w_out ws' = w_out ws @ pack_message (new_message now t user rcp text))"
  using input_line_cases [OF assms(2)] send_cmd_ok [OF assms(1)] by blast

theorem line_sends_own_messages_witness:
  "w_out (fst (input_line 9 ''al'' ''/nonsense'' \<lparr>w_out = [], w_script = []\<rparr>)) = [] \<or>
    (\<exists>t rcp text. t \<in> {MSG_BROADCAST, MSG_PRIVATE, MSG_LIST_USERS, MSG_HISTORY_REQ, MSG_STATUS_CHANGE, MSG_LOGOUT} \<and>
       w_out (fst (input_line 9 ''al'' ''/nonsense'' \<lparr>w_out = [], w_script = []\<rparr>)) = pack_message (new_message 9 t ''al'' rcp text))"
proof -
  obtain ws' out run where r: "input_line 9 ''al'' ''/nonsense'' \<lparr>w_out = [], w_script = []\<rparr> = (ws', out, run)" by (metis prod_cases3)
  from line_sends_own_messages [OF _ r] r show ?thesis by (simp add: no_wr_err_def)
qed

lemma read_username_bound: "length (fst (read_username inp)) \<le> 31"
proof (cases "fgets 32 inp")
  case None
  then show ?thesis by (simp add: read_username_def)
next
  case (Some lr)
  obtain l r where lr: "lr = (l, r)" by force
  from fgets_SomeD [OF Some [unfolded lr]] have "length l \<le> 31" by simp
  then have "length (takeWhile (\<lambda>c. c \<noteq> newline) (cstr l)) \<le> 31"
    using length_takeWhile_le [of "\<lambda>c. c \<noteq> newline" "cstr l"] length_cstr_le [of l] by linarith
  with Some lr show ?thesis by (simp add: read_username_def)
qed



end
