(* ===== verification/Startup.thy ===== *)
theory Startup
  imports Chat_Common Stream_IO
begin

text \<open>
  What the \<open>main\<close> functions do before their loops: the arguments of the three chat
  servers and of the discovery server, the address the servers' \<open>validate\<close> connects
  to and its exchange over the socket, and \<open>tcp_connect\<close> of \<open>src/chat_client.c\<close>. Of the C library,
  \<open>atoi\<close>, \<open>inet_pton\<close> and \<open>inet_ntop\<close> for \<open>AF_INET\<close> are
  modelled; the resolver \<open>gethostbyname\<close> and the network are parameters.
\<close>

subsection \<open>Numbers and addresses\<close>

definition atoi :: "char list \<Rightarrow> int" where
  "atoi s = (case scan_int (cstr s) of None \<Rightarrow> 0 | Some (z, _) \<Rightarrow> z)"

text \<open>\<open>htons\<close> of an \<open>int\<close> keeps its low 16 bits.\<close>

definition htons :: "int \<Rightarrow> 16 word" where
  "htons port = word_of_int port"

text \<open>An address is its four octets. \<open>inet_pton(AF_INET, ...)\<close> takes four decimal
  numbers up to 255 without leading zeros, separated by dots; \<open>saw\<close> says that the
  current number has a digit.\<close>

type_synonym ipv4 = "nat list"

fun pton :: "bool \<Rightarrow> nat \<Rightarrow> nat list \<Rightarrow> char list \<Rightarrow> ipv4 option" where
  "pton saw cur octets [] = (if saw \<and> length octets = 3 then Some (octets @ [cur]) else None)"
| "pton saw cur octets (c # s) =
     (if is_digit c then
        (if saw \<and> cur = 0 \<or> 255 < 10 * cur + digit_val c then None
         else pton True (10 * cur + digit_val c) octets s)
      else if c = CHR ''.'' \<and> saw \<and> length octets \<noteq> 3 then pton False 0 (octets @ [cur]) s
      else None)"

definition inet_pton :: "char list \<Rightarrow> ipv4 option" where
  "inet_pton s = pton False 0 [] (cstr s)"

definition inet_ntop :: "ipv4 \<Rightarrow> char list" where
  "inet_ntop a = show_nat (a ! 0) @ ''.'' @ show_nat (a ! 1) @ ''.'' @ show_nat (a ! 2) @ ''.'' @ show_nat (a ! 3)"

definition ipv4_ok :: "ipv4 \<Rightarrow> bool" where
  "ipv4_ok a \<longleftrightarrow> length a = 4 \<and> list_all (\<lambda>x. x \<le> 255) a"

definition any_address :: ipv4 where
  "any_address = [0, 0, 0, 0]"

subsection \<open>The arguments of the servers\<close>

definition discovery_port :: "char list list \<Rightarrow> int" where
  "discovery_port argv = (if 2 \<le> length argv then atoi (argv ! 1) else 9000)"

text \<open>The port to listen on, and the variables \<open>disc_host\<close> (64 zero bytes at the
  start) and \<open>disc_port\<close>. The three servers differ in the default of the port.\<close>

record start_args =
  sa_port :: int
  sa_disc_host :: "char list"
  sa_disc_port :: int

definition server_args :: "int \<Rightarrow> char list list \<Rightarrow> start_args" where
  "server_args dflt argv =
     \<lparr>sa_port = (if 2 \<le> length argv then atoi (argv ! 1) else dflt),
      sa_disc_host = (if 4 \<le> length argv then strncpy (zeros 64) (argv ! 2) 63 else zeros 64),
      sa_disc_port = (if 4 \<le> length argv then atoi (argv ! 3) else 0)\<rparr>"

definition fork_args :: "char list list \<Rightarrow> start_args" where
  "fork_args = server_args 9001"

definition thread_args :: "char list list \<Rightarrow> start_args" where
  "thread_args = server_args 9002"

definition epoll_args :: "char list list \<Rightarrow> start_args" where
  "epoll_args = server_args 9003"

text \<open>The host as \<open>validate\<close> tests it.\<close>

definition with_args :: "start_args \<Rightarrow> env \<Rightarrow> env" where
  "with_args a e = e\<lparr>e_disc_host := cstr (sa_disc_host a)\<rparr>"

subsection \<open>Outgoing connections\<close>

text \<open>The address \<open>validate\<close> connects to. The result of \<open>inet_pton\<close> is not
  tested: when it fails the address stays as initialised, all zero.\<close>

definition validate_peer :: "start_args \<Rightarrow> ipv4 \<times> 16 word" where
  "validate_peer a =
     (case inet_pton (sa_disc_host a) of Some ip \<Rightarrow> ip | None \<Rightarrow> any_address, htons (sa_disc_port a))"

text \<open>\<open>validate\<close> down to its system calls: \<open>connect\<close> gives the two
  directions of a new connection; the result of the send is not looked at, only that of the
  receive. \<open>validate\<close> of \<open>Chat_Common\<close> is this function with the
  exchange as a field of the environment.\<close>

definition validate_socket ::
  "start_args \<Rightarrow> 64 word \<Rightarrow> (ipv4 \<times> 16 word \<Rightarrow> (rsock \<times> wsock) option) \<Rightarrow> char list \<Rightarrow> char list \<Rightarrow>
     bool \<times> (rsock \<times> wsock) option" where
  "validate_socket a now connect u p =
     (if cstr (sa_disc_host a) = [] then (True, None)
      else (case connect (validate_peer a) of
              None \<Rightarrow> (False, None)
            | Some (rs, ws) \<Rightarrow>
                (let req = new_message now MSG_VALIDATE u ''discovery'' (snprintf MAX_PAYLOAD_LEN (u @ '':'' @ p));
                     ws' = snd (send_message ws req)
                 in case recv_message rs of
                      (None, rs') \<Rightarrow> (False, Some (rs', ws'))
                    | (Some resp, rs') \<Rightarrow> (msg_status resp = 0, Some (rs', ws')))))"

text \<open>\<open>tcp_connect\<close> of the client; \<open>None\<close> is the return of \<open>-1\<close>.
  \<open>connect\<close> is what creating and connecting the socket gives.\<close>

definition tcp_connect ::
  "(char list \<Rightarrow> ipv4 option) \<Rightarrow> (ipv4 \<times> 16 word \<Rightarrow> 'c option) \<Rightarrow> char list \<Rightarrow> int \<Rightarrow> 'c option" where
  "tcp_connect resolve connect host port =
     (case (case inet_pton host of Some ip \<Rightarrow> Some ip | None \<Rightarrow> resolve host) of
        None \<Rightarrow> None
      | Some ip \<Rightarrow> connect (ip, htons port))"

subsection \<open>Lemmas\<close>

lemma validate_socket_env:
  assumes "\<And>req. e_disc e req = (case connect (validate_peer a) of None \<Rightarrow> None | Some (rs, ws) \<Rightarrow> fst (recv_message rs))"
  shows "fst (validate_socket a (e_now e) connect u p) = validate (with_args a e) u p"
  using assms by (auto simp: validate_socket_def validate_def with_args_def Let_def split: option.split prod.split)

text \<open>What the discovery server gets of a connection without write errors is the one
  request.\<close>

lemma validate_socket_sends:
  assumes "validate_socket a (e_now e) connect u p = (ok, Some (rs', ws'))" "connect (validate_peer a) = Some (rs, ws)" "no_wr_err ws"
  shows "w_out ws' = w_out ws @ pack_message (validate_request e u p)"
  using assms send_message_ok [OF assms(3), of "validate_request e u p"]
  by (auto simp: validate_socket_def validate_request_def Let_def split: if_splits prod.splits option.splits)

lemma atoi_show: "int32 z \<Longrightarrow> atoi (show_int z) = z"
  by (simp add: atoi_def scan_int_show)

lemma not_digit_dot [simp]: "\<not> is_digit (CHR ''.'')"
  by (simp add: is_digit_def)

lemma pton_show: "n \<le> 255 \<Longrightarrow> pton False 0 octets (show_nat n @ r) = pton True n octets r"
proof (induction n arbitrary: r rule: show_nat.induct)
  case (1 n)
  show ?case
  proof (cases "n < 10")
    case True
    then have "show_nat n = [digit n]" by (subst show_nat.simps) simp
    with True show ?thesis by simp
  next
    case False
    then have s: "show_nat n = show_nat (n div 10) @ [digit (n mod 10)]" by (subst show_nat.simps) simp
    have "pton False 0 octets (show_nat n @ r) = pton True (n div 10) octets (digit (n mod 10) # r)"
      using "1.IH" [OF False, of "digit (n mod 10) # r"] "1.prems" by (simp add: s)
    with False "1.prems" show ?thesis by (simp add: div_eq_0_iff)
  qed
qed

lemma cstring_inet_ntop [simp]: "cstring (inet_ntop a)"
  by (simp add: inet_ntop_def)

lemma inet_pton_ntop:
  assumes "ipv4_ok a"
  shows "inet_pton (inet_ntop a) = Some a"
proof -
  have "length a = Suc (Suc (Suc (Suc 0)))" using assms by (simp add: ipv4_ok_def)
  then obtain w x y z where a: "a = [w, x, y, z]" by (auto simp: length_Suc_conv)
  with assms have le: "w \<le> 255" "x \<le> 255" "y \<le> 255" "z \<le> 255" by (simp_all add: ipv4_ok_def)
  have "cstr (inet_ntop a) = inet_ntop a" by simp
  then show ?thesis
    using pton_show [OF le(4), of "[w, x, y]" "[]"]
    by (simp add: inet_pton_def) (simp add: inet_ntop_def a pton_show [OF le(1)] pton_show [OF le(2)] pton_show [OF le(3)])
qed

lemma pton_SomeD:
  "pton saw cur octets s = Some a \<Longrightarrow> cur \<le> 255 \<Longrightarrow> list_all (\<lambda>x. x \<le> 255) octets \<Longrightarrow> ipv4_ok a"
  by (induction saw cur octets s rule: pton.induct) (auto simp: ipv4_ok_def Let_def split: if_splits)

lemma inet_pton_ok: "inet_pton s = Some a \<Longrightarrow> ipv4_ok a"
  by (auto simp: inet_pton_def dest!: pton_SomeD)

lemma length_inet_ntop:
  assumes "ipv4_ok a"
  shows "length (inet_ntop a) \<le> 15"
proof -
  have s: "length (show_nat x) \<le> 3" if "x \<le> 255" for x using that by (intro length_show_nat) auto
  have "list_all (\<lambda>x. x \<le> 255) a" "length a = 4" using assms by (auto simp: ipv4_ok_def)
  then have "a ! i \<le> 255" if "i < 4" for i using that by (simp add: list_all_length)
  from this [of 0] this [of 1] this [of 2] this [of 3]
  show ?thesis using s [of "a ! 0"] s [of "a ! 1"] s [of "a ! 2"] s [of "a ! 3"] by (simp add: inet_ntop_def)
qed

section \<open>Properties of the start-up\<close>

text \<open>C31: What the arguments of a chat server decide, the same for the three servers.
  Without a discovery host every name and password is accepted. With one, a login is
  rejected whenever the discovery server gives no answer. A host in numbers is the very
  address a client dials; for a host name the server dials 0.0.0.0 whatever the name stands
  for, since unlike the client it does not ask the resolver and does not test the result
  of \<open>inet_pton\<close>.\<close>
theorem start_decides_validation:
  assumes "args \<in> {fork_args, thread_args, epoll_args}"
    and "host = (if 4 \<le> length argv then take 63 (cstr (argv ! 2)) else [])"
    and "e' = with_args (args argv) e" "to = htons (sa_disc_port (args argv))"
  shows "(host = [] \<longrightarrow> validate e' u p) \<and>
    (host \<noteq> [] \<longrightarrow> e_disc e (validate_request e u p) = None \<longrightarrow> \<not> validate e' u p) \<and>
    (\<forall>ip. inet_pton host = Some ip \<longrightarrow>
       tcp_connect resolve connect host (sa_disc_port (args argv)) = connect (validate_peer (args argv))) \<and>
    (inet_pton host = None \<longrightarrow> validate_peer (args argv) = (any_address, to) \<and>
       tcp_connect resolve connect host (sa_disc_port (args argv)) =
         (case resolve host of None \<Rightarrow> None | Some ip \<Rightarrow> connect (ip, to)))"
proof -
  have h: "cstr (sa_disc_host (args argv)) = host"
    using assms(1,2) by (auto simp: fork_args_def thread_args_def epoll_args_def server_args_def)
  then have i: "inet_pton (sa_disc_host (args argv)) = inet_pton host"
    by (auto simp: inet_pton_def)
  have "validate_request e' u p = validate_request e u p" "e_disc e' = e_disc e" "e_disc_host e' = host"
    using h by (simp_all add: assms(3) with_args_def validate_request_def)
  then show ?thesis
    using i unfolding assms(4) by (auto simp: validate_def validate_peer_def tcp_connect_def)
qed

theorem start_decides_validation_witness:
  "validate_peer (epoll_args [''chat_server_epoll'', ''9003'', ''localhost'', ''9000'']) = (any_address, 9000) \<and>
   tcp_connect (\<lambda>_. Some [127, 0, 0, 1]) Some ''localhost'' 9000 = Some ([127, 0, 0, 1], 9000) \<and>
   validate_peer (epoll_args [''chat_server_epoll'', ''9003'', ''127.0.0.1'', ''9000'']) = ([127, 0, 0, 1], 9000)"
proof -
  let ?argv = "\<lambda>h. [''chat_server_epoll'', ''9003'', h, ''9000'']"
  have p: "sa_disc_port (epoll_args (?argv h)) = 9000" for h by code_simp
  have n: "inet_pton ''localhost'' = None" "inet_pton ''127.0.0.1'' = Some [127, 0, 0, 1]" by code_simp+
  note * = start_decides_validation [where args = epoll_args, OF _ refl refl refl]
  from * [of "?argv ''localhost''" undefined undefined undefined "\<lambda>_. Some [127, 0, 0, 1]" Some]
    * [of "?argv ''127.0.0.1''" undefined undefined undefined "\<lambda>_. None" Some]
  show ?thesis by (simp add: p n htons_def tcp_connect_def)
qed

end
