(* ===== verification/Client_Session.thy ===== *)
theory Client_Session
  imports Chat_Client Startup
begin

text \<open>
  \<open>main\<close> of \<open>src/chat_client.c\<close>: the menu, the name and the password,
  registration when the user asked for it, login, and the input loop; and what a whole
  session of typed commands puts on the two connections.
\<close>

subsection \<open>The start of a session\<close>

text \<open>\<open>scanf("%d", &choice); getchar();\<close>: the number, 0 when there is none, and what
  is left of the input. A sign without a digit after it is consumed.\<close>

definition read_choice :: "char list \<Rightarrow> int \<times> char list" where
  "read_choice inp =
     (case scan_int inp of
        Some (z, rest) \<Rightarrow> (z, drop 1 rest)
      | None \<Rightarrow>
          (let t = dropWhile is_space inp
           in (0, drop 1 (if t \<noteq> [] \<and> hd t \<in> {CHR ''-'', CHR ''+''} then tl t else t))))"

text \<open>The environment: the clock of the two requests and of the rounds of the input loop,
  the resolver, the network at the first and the second connection, whether
  \<open>pthread_create\<close> succeeds, what \<open>getpass\<close> returns, and the flag
  \<open>running\<close> at each round.\<close>

type_synonym conn = "rsock \<times> wsock"

record client_env =
  ce_registered_at :: "64 word"
  ce_login_at :: "64 word"
  ce_clock :: "nat \<Rightarrow> 64 word"
  ce_resolve :: "char list \<Rightarrow> ipv4 option"
  ce_disc :: "ipv4 \<times> 16 word \<Rightarrow> conn option"
  ce_chat :: "ipv4 \<times> 16 word \<Rightarrow> conn option"
  ce_thread :: bool
  ce_pass :: "char list"
  ce_alive :: "nat \<Rightarrow> bool"

datatype client_exit = Usage | NotRegistered | NotLoggedIn | NoThread | Goodbye "console list"

text \<open>The exit and the two connections as the program leaves them, \<open>None\<close> when it
  made none. The receiver thread reads from the connection it is left with.\<close>

definition client_main ::
  "client_env \<Rightarrow> char list list \<Rightarrow> char list \<Rightarrow> client_exit \<times> conn option \<times> conn option" where
  "client_main e argv inp =
     (if length argv \<noteq> 5 then (Usage, None, None)
      else
        let disc_host = argv ! 1; disc_port = atoi (argv ! 2);
            chat_host = argv ! 3; chat_port = atoi (argv ! 4);
            (choice, inp1) = read_choice inp;
            (user, inp2) = read_username inp1;
            pw = read_password (ce_pass e);
            (registered, disc) =
              (if choice = 1
               then register_with_discovery (ce_registered_at e) user pw chat_port
                      (tcp_connect (ce_resolve e) (ce_disc e) disc_host disc_port)
               else (True, None))
        in if \<not> registered then (NotRegistered, disc, None)
           else case login_to_chat (ce_login_at e) user pw
                       (tcp_connect (ce_resolve e) (ce_chat e) chat_host chat_port) of
             (True, Some (rs, ws)) \<Rightarrow>
               (if \<not> ce_thread e then (NoThread, disc, Some (rs, ws))
                else case input_loop (ce_clock e) (ce_alive e) 0 user inp2 ws of
                  (ws', outs) \<Rightarrow> (Goodbye outs, disc, Some (rs, ws')))
           | (_, chat) \<Rightarrow> (NotLoggedIn, disc, chat))"

subsection \<open>A typed session\<close>

text \<open>A command that fits on one line, the lines of a session, and its messages.\<close>

definition one_line :: "command \<Rightarrow> bool" where
  "one_line c \<longleftrightarrow> command_ok c \<and> newline \<notin> set (render c) \<and> length (render c) \<le> 1086"

definition typed :: "command list \<Rightarrow> char list" where
  "typed cs = concat (map (\<lambda>c. render c @ [newline]) cs)"

fun session_messages :: "(nat \<Rightarrow> 64 word) \<Rightarrow> nat \<Rightarrow> char list \<Rightarrow> command list \<Rightarrow> Message list" where
  "session_messages clock k user [] = []"
| "session_messages clock k user (c # cs) =
     command_message (clock k) user c # session_messages clock (Suc k) user cs"

lemma typed_simps [simp]: "typed [] = []" "typed (c # cs) = render c @ newline # typed cs"
  by (simp_all add: typed_def)

lemma fgets_line:
  assumes "newline \<notin> set l" "Suc (length l) < n"
  shows "fgets n (l @ newline # r) = Some (l @ [newline], r)"
proof -
  have "takeWhile (\<lambda>c. c \<noteq> newline) (l @ newline # r) = l"
    using assms(1) by (subst takeWhile_append2) auto
  with assms(2) show ?thesis by (simp add: fgets_def Let_def)
qed

lemma wf_command_message [simp]: "wf_message (command_message now user c)"
  by (cases "(now, user, c)" rule: command_message.cases) simp_all

lemma wf_session_messages: "\<forall>m\<in>set (session_messages clock k user cs). wf_message m"
  by (induction cs arbitrary: k) auto

text \<open>The loop takes the commands one by one and sends the message of each.\<close>

lemma input_loop_typed:
  assumes "list_all one_line cs" "CQuit \<notin> set cs"
  shows "input_loop clock (\<lambda>_. True) k user (typed cs @ rest) ws =
    (case input_loop clock (\<lambda>_. True) (k + length cs) user rest
        (send_all ws (session_messages clock k user cs)) of
       (ws', outs) \<Rightarrow> (ws', replicate (length cs) ShowNothing @ outs))"
  using assms
proof (induction cs arbitrary: k ws)
  case Nil
  then show ?case by simp
next
  case (Cons c cs)
  then have c: "command_ok c" "newline \<notin> set (render c)" "length (render c) \<le> 1086" "c \<noteq> CQuit"
    by (auto simp: one_line_def)
  have f: "fgets 1088 (typed (c # cs) @ rest) = Some (render c @ [newline], typed cs @ rest)"
    using fgets_line [OF c(2), of 1088 "typed cs @ rest"] c(3) by simp
  have l: "input_line (clock k) user (render c @ [newline]) ws
      = (snd (send_message ws (command_message (clock k) user c)), ShowNothing, True)"
    using input_line_render [OF c(1), of "[newline]"] c(4) by simp
  from Cons f l show ?case
    by (simp add: input_loop.simps [of clock _ k user "typed (c # cs) @ rest"] del: typed_simps split: prod.split)
qed

lemma input_loop_quit:
  "input_loop clock (\<lambda>_. True) k user (typed [CQuit] @ rest) ws =
    (snd (send_message ws (command_message (clock k) user CQuit)), [ShowNothing])"
proof -
  have f: "fgets 1088 (typed [CQuit] @ rest) = Some (render CQuit @ [newline], rest)"
    using fgets_line [of "''/quit''" 1088 rest] by (simp add: newline_def)
  have "input_line (clock k) user (render CQuit @ [newline]) ws
      = (snd (send_message ws (command_message (clock k) user CQuit)), ShowNothing, False)"
    by (subst input_line_render) simp_all
  with f show ?thesis
    by (simp add: input_loop.simps [of clock _ k user "typed [CQuit] @ rest"] del: typed_simps render.simps)
qed

lemma input_loop_eof: "input_loop clock (\<lambda>_. True) k user [] ws = (ws, [])"
  by (simp add: input_loop.simps [of clock _ k user "[]"] fgets_def)

text \<open>How a session may end: with \<open>/quit\<close>, after which nothing more is read, or at
  the end of the input.\<close>

definition session_input :: "command list \<Rightarrow> char list \<Rightarrow> bool" where
  "session_input cs inp \<longleftrightarrow> list_all one_line cs \<and> CQuit \<notin> set (butlast cs) \<and>
     (if cs \<noteq> [] \<and> last cs = CQuit then \<exists>rest. inp = typed cs @ rest else inp = typed cs)"

lemma session_messages_append:
  "session_messages clock k user (cs @ ds) = session_messages clock k user cs @ session_messages clock (k + length cs) user ds"
  by (induction cs arbitrary: k) auto

lemma length_session_messages [simp]: "length (session_messages clock k user cs) = length cs"
  by (induction cs arbitrary: k) auto

lemma send_all_append: "send_all ws (ms @ ns) = send_all (send_all ws ms) ns"
  by (induction ms arbitrary: ws) auto

lemma input_loop_session:
  assumes "session_input cs inp"
  shows "input_loop clock (\<lambda>_. True) 0 user inp ws =
    (send_all ws (session_messages clock 0 user cs), replicate (length cs) ShowNothing)"
proof (cases "cs \<noteq> [] \<and> last cs = CQuit")
  case True
  then obtain ds where cs: "cs = ds @ [CQuit]" by (metis append_butlast_last_id)
  with assms True obtain rest where inp: "inp = typed ds @ (typed [CQuit] @ rest)"
    by (auto simp: session_input_def typed_def)
  have ds: "list_all one_line ds" "CQuit \<notin> set ds" using assms cs by (auto simp: session_input_def)
  show ?thesis
    unfolding inp input_loop_typed [OF ds] input_loop_quit
    by (simp add: cs session_messages_append send_all_append replicate_append_same)
next
  case False
  then have cs: "list_all one_line cs" "CQuit \<notin> set cs" and inp: "inp = typed cs @ []"
    using assms by (cases cs rule: rev_cases; auto simp: session_input_def)+
  show ?thesis unfolding inp input_loop_typed [OF cs] input_loop_eof by simp
qed

subsection \<open>What is typed before the commands\<close>

lemma read_choice_typed:
  assumes "int32 choice"
  shows "read_choice (show_int choice @ newline # rest) = (choice, rest)"
  using scan_int_show_append [OF assms, of "newline # rest"]
  by (simp add: read_choice_def newline_def is_digit_def)

lemma read_username_typed:
  assumes "cstring user" "newline \<notin> set user" "length user \<le> 30"
  shows "read_username (user @ newline # rest) = (user, rest)"
proof -
  have "takeWhile (\<lambda>c. c \<noteq> newline) (user @ [newline]) = user"
    using assms(2) by (subst takeWhile_append2) auto
  with fgets_line [OF assms(2), of 32 rest] assms(1,3) show ?thesis by (simp add: read_username_def)
qed

lemma login_to_chat_accepted:
  assumes "recv_message rs = (Some resp, rs1)" "msg_status resp = 0" "msg_type resp \<noteq> MSG_ERROR"
  shows "login_to_chat now user pw (Some (rs, ws)) =
    (True, Some (rs1, snd (send_message ws (login_message now user pw))))"
  using assms by (simp add: login_to_chat_def)

lemma wf_login_message [simp]: "wf_message (login_message now user pw)"
  by (simp add: login_message_def)

text \<open>The program as a whole, for input that is typed as the menu asks for it and an
  accepted login.\<close>

lemma client_main_session:
  assumes "length argv = 5" "int32 choice" "cstring user" "newline \<notin> set user" "length user \<le> 30"
    and "session_input cs keys" "ce_thread e" "ce_alive e = (\<lambda>_. True)"
    and "tcp_connect (ce_resolve e) (ce_chat e) (argv ! 3) (atoi (argv ! 4)) = Some (rs, ws)"
    and "recv_message rs = (Some resp, rs1)" "msg_status resp = 0" "msg_type resp \<noteq> MSG_ERROR"
    and "reg = register_with_discovery (ce_registered_at e) user (read_password (ce_pass e)) (atoi (argv ! 4))
           (tcp_connect (ce_resolve e) (ce_disc e) (argv ! 1) (atoi (argv ! 2)))"
    and "choice = 1 \<longrightarrow> fst reg"
  shows "client_main e argv (show_int choice @ newline # user @ newline # keys) =
    (Goodbye (replicate (length cs) ShowNothing), if choice = 1 then snd reg else None,
     Some (rs1, send_all ws (login_message (ce_login_at e) user (read_password (ce_pass e))
       # session_messages (ce_clock e) 0 user cs)))"
  using assms(1,7,8,14) assms(13) [symmetric]
  by (cases reg) (auto simp add: client_main_def Let_def read_choice_typed [OF assms(2)] read_username_typed [OF assms(3-5)]
      assms(9) login_to_chat_accepted [OF assms(10-12)] input_loop_session [OF assms(6)])

section \<open>Properties of a session\<close>

text \<open>C9: A whole session, from the menu to the end. A user who chooses to log in, or to
  register and is registered, and whose login the server accepts, types commands, one a
  line, the last one \<open>/quit\<close> or not. Then the program ends regularly, what follows
  \<open>/quit\<close> is not read, and whoever reads the connection, in whatever pieces and with
  whatever interruptions, receives exactly the login request with the name and password
  typed, and after it exactly the messages of the commands, in the order typed. In
  particular a session that ends without \<open>/quit\<close> sends no \<open>MSG_LOGOUT\<close>.
  What the receiver thread prints as long as \<open>running\<close> is set are the texts of
  the messages that follow the answer to the login, in order.\<close>
theorem client_session_sends_commands:
  assumes "length argv = 5" "int32 choice" "cstring user" "newline \<notin> set user" "length user \<le> 30"
    and "session_input cs keys" "ce_thread e" "ce_alive e = (\<lambda>_. True)"
    and "tcp_connect (ce_resolve e) (ce_chat e) (argv ! 3) (atoi (argv ! 4)) = Some (rs, ws)"
    and "no_wr_err ws" "w_out ws = []"
    and "recv_message rs = (Some resp, rs1)" "msg_status resp = 0" "msg_type resp \<noteq> MSG_ERROR"
    and "reg = register_with_discovery (ce_registered_at e) user (read_password (ce_pass e)) (atoi (argv ! 4))
           (tcp_connect (ce_resolve e) (ce_disc e) (argv ! 1) (atoi (argv ! 2)))"
    and "choice = 1 \<longrightarrow> fst reg"
    and "client_main e argv (show_int choice @ newline # user @ newline # keys) = (ex, disc, chat)"
  shows "ex = Goodbye (replicate (length cs) ShowNothing) \<and> disc = (if choice = 1 then snd reg else None) \<and>
    (\<exists>ws'. chat = Some (rs1, ws') \<and>
      (\<forall>srv. r_bytes srv = w_out ws' \<and> no_rd_err srv \<longrightarrow>
        fst (recv_all srv) = login_message (ce_login_at e) user (read_password (ce_pass e))
          # session_messages (ce_clock e) 0 user cs)) \<and>
    (list_all (\<lambda>m. print_message lt m \<noteq> None) (fst (recv_all rs1)) \<longrightarrow>
      receiver_thread lt (\<lambda>_. True) 0 rs1 =
        Some (concat (map (\<lambda>m. the (print_message lt m)) (fst (recv_all rs1))) @ goodbye_line))"
proof -
  let ?login = "login_message (ce_login_at e) user (read_password (ce_pass e))"
  let ?ms = "?login # session_messages (ce_clock e) 0 user cs"
  have main: "(ex, disc, chat) = (Goodbye (replicate (length cs) ShowNothing),
      if choice = 1 then snd reg else None, Some (rs1, send_all ws ?ms))"
    using client_main_session [OF assms(1-9,12-16)] assms(17) by simp
  have wf: "\<forall>m\<in>set ?ms. wf_message m" using wf_session_messages by simp
  then have "\<forall>m\<in>set ?ms. valid_message m" "map pad_names ?ms = ?ms" by (auto intro!: map_idI simp del: list.map)
  then have "fst (recv_all srv) = ?ms" if "r_bytes srv = w_out (send_all ws ?ms)" "no_rd_err srv" for srv
    using recv_all_packed [of srv ?ms] send_all_ok [OF assms(10), of ?ms] assms(11) that by simp
  with main receiver_writes_all [of lt rs1 0] show ?thesis by blast
qed

definition session_example :: client_env where
  "session_example = \<lparr>ce_registered_at = 7, ce_login_at = 8, ce_clock = (\<lambda>k. 9 + of_nat k),
     ce_resolve = (\<lambda>_. None), ce_disc = (\<lambda>_. None),
     ce_chat = (\<lambda>to. if to = ([127, 0, 0, 1], 9003)
        then Some (\<lparr>r_bytes = pack_message (new_message 8 MSG_ACK ''server'' ''al'' ''Welcome''), r_script = [RIntr, RData 9]\<rparr>,
                   \<lparr>w_out = [], w_script = [WData 5, WIntr]\<rparr>) else None),
     ce_thread = True, ce_pass = ''pw'', ce_alive = (\<lambda>_. True)\<rparr>"

theorem client_session_sends_commands_witness:
  "\<exists>disc rs ws. client_main session_example [''chat_client'', ''127.0.0.1'', ''9000'', ''127.0.0.1'', ''9003'']
      (''2'' @ newline # ''al'' @ newline # ''/msg bo hi'' @ newline # ''/quit'' @ newline # ''/list'')
    = (Goodbye [ShowNothing, ShowNothing], disc, Some (rs, ws)) \<and>
    fst (recv_all \<lparr>r_bytes = w_out ws, r_script = [RData 3]\<rparr>) =
      [login_message 8 ''al'' ''pw'', new_message 9 MSG_PRIVATE ''al'' ''bo'' ''hi'', new_message 10 MSG_LOGOUT ''al'' [] ''Bye'']"
proof -
  let ?e = session_example and ?argv = "[''chat_client'', ''127.0.0.1'', ''9000'', ''127.0.0.1'', ''9003'']"
  let ?cs = "[CPrivate ''bo'' ''hi'', CQuit]"
  let ?keys = "''/msg bo hi'' @ newline # ''/quit'' @ newline # ''/list''"
  let ?ack = "new_message 8 MSG_ACK ''server'' ''al'' ''Welcome''"
  let ?rs = "\<lparr>r_bytes = pack_message ?ack, r_script = [RIntr, RData 9]\<rparr>" and ?ws = "\<lparr>w_out = [], w_script = [WData 5, WIntr]\<rparr>"
  obtain ex disc chat where m: "client_main ?e ?argv (show_int 2 @ newline # ''al'' @ newline # ?keys) = (ex, disc, chat)"
    by (metis prod_cases3)
  have rq: "recv_message ?rs = (Some ?ack, snd (recv_message ?rs))"
    using recv_packed [of ?ack ?rs "[]"] by (auto simp: no_rd_err_def)
  have s: "session_input ?cs ?keys"
    by (auto simp: session_input_def one_line_def text_ok_def newline_def CR_def)
  have a: "inet_pton ''127.0.0.1'' = Some [127, 0, 0, 1]" "atoi ''9003'' = 9003" by code_simp+
  then have t: "tcp_connect (ce_resolve ?e) (ce_chat ?e) (?argv ! 3) (atoi (?argv ! 4)) = Some (?rs, ?ws)"
    by (simp add: tcp_connect_def session_example_def htons_def)
  have two: "show_int 2 = ''2''" by code_simp
  have pw: "read_password ''pw'' = ''pw''" by code_simp
  from client_session_sends_commands [OF _ _ _ _ _ s _ _ t _ _ rq _ _ refl _ m]
  have "ex = Goodbye (replicate (length ?cs) ShowNothing) \<and>
    (\<exists>ws'. chat = Some (snd (recv_message ?rs), ws') \<and>
      (\<forall>srv. r_bytes srv = w_out ws' \<and> no_rd_err srv \<longrightarrow>
        fst (recv_all srv) = login_message (ce_login_at ?e) ''al'' (read_password (ce_pass ?e))
          # session_messages (ce_clock ?e) 0 ''al'' ?cs))"
    by (simp add: int32_def session_example_def no_wr_err_def newline_def)
  with m two pw show ?thesis
    by (auto simp: session_example_def no_rd_err_def)
qed

end
