(* ===== verification/Send_Buffer.thy ===== *)
theory Send_Buffer
  imports Stream_IO
begin

text \<open>
  The non-blocking output side of \<open>src/chat_server_epoll.c\<close>: the kernel as the
  epoll server sees it, one \<open>write\<close> on a non-blocking descriptor, the per-client
  send buffer \<open>SendBuf\<close> with \<open>sb_empty\<close>, \<open>sb_push\<close> and
  \<open>sb_flush\<close>, and the write loop of \<open>slot_send\<close>. The buffer is a FIFO
  queue of bytes: \<open>sb_content\<close> abstracts it, \<open>byte_queue\<close> is the
  contract, interpreted on the buffer. The locale's lemma says that whatever is pushed
  and flushed, the bytes written followed by those still queued are the bytes accepted,
  in order.
\<close>

abbreviation (input) SBUF_SIZE :: nat where "SBUF_SIZE \<equiv> 65536"

record SendBuf =
  sb_buf :: barray
  sb_head :: nat
  sb_tail :: nat

definition sb_init :: SendBuf where
  "sb_init = \<lparr>sb_buf = (\<lambda>_. NUL), sb_head = 0, sb_tail = 0\<rparr>"

definition sb_empty :: "SendBuf \<Rightarrow> bool" where
  "sb_empty sb \<longleftrightarrow> sb_head sb = sb_tail sb"

text \<open>The first part of \<open>sb_push\<close>: move the content to the front when the
  data does not fit behind it.\<close>

definition sb_compact :: "SendBuf \<Rightarrow> nat \<Rightarrow> SendBuf" where
  "sb_compact sb n =
     (if sb_tail sb + n > SBUF_SIZE then
        (let used = sb_tail sb - sb_head sb
         in sb\<lparr>sb_buf := shift_down (sb_buf sb) (sb_head sb) used, sb_head := 0, sb_tail := used\<rparr>)
      else sb)"

definition sb_push :: "SendBuf \<Rightarrow> char list \<Rightarrow> SendBuf \<times> bool" where
  "sb_push sb d =
     (let sb1 = sb_compact sb (length d)
      in if sb_tail sb1 + length d > SBUF_SIZE then (sb1, False)
         else (sb1\<lparr>sb_buf := blit (sb_buf sb1) (sb_tail sb1) d, sb_tail := sb_tail sb1 + length d\<rparr>, True))"

subsection \<open>The kernel\<close>

text \<open>
  Per descriptor: the bytes that have arrived, what follows them (\<open>SockOpen\<close>:
  nothing yet, a read gives \<open>EAGAIN\<close>), the outcomes of the next writes
  (\<open>NbTake k\<close> takes at most \<open>k\<close> bytes, \<open>NbErr\<close> is any error
  but \<open>EAGAIN\<close>), the bytes taken, and the epoll registration. With no outcome
  left, a write takes everything.
\<close>

datatype nb_res = NbTake nat | NbAgain | NbErr

datatype sock_end = SockOpen | SockEof | SockErr

datatype interest = NotWatched | WatchIn | WatchInOut

record kernel =
  k_in :: "nat \<Rightarrow> char list"
  k_end :: "nat \<Rightarrow> sock_end"
  k_script :: "nat \<Rightarrow> nb_res list"
  k_out :: "nat \<Rightarrow> char list"
  k_interest :: "nat \<Rightarrow> interest"

datatype nb_out = NbWrote nat | NbEagain | NbError

definition nb_write :: "nat \<Rightarrow> char list \<Rightarrow> kernel \<Rightarrow> nb_out \<times> kernel" where
  "nb_write fd buf k =
     (case k_script k fd of
        [] \<Rightarrow> (NbWrote (length buf), k\<lparr>k_out := (k_out k)(fd := k_out k fd @ buf)\<rparr>)
      | NbTake j # rest \<Rightarrow>
          (NbWrote (min j (length buf)),
           k\<lparr>k_out := (k_out k)(fd := k_out k fd @ take j buf), k_script := (k_script k)(fd := rest)\<rparr>)
      | NbAgain # rest \<Rightarrow> (NbEagain, k\<lparr>k_script := (k_script k)(fd := rest)\<rparr>)
      | NbErr # rest \<Rightarrow> (NbError, k\<lparr>k_script := (k_script k)(fd := rest)\<rparr>))"

text \<open>\<open>epoll_ctl(.., EPOLL_CTL_MOD, ..)\<close>: no effect on a descriptor that is not
  registered.\<close>

definition epmod :: "nat \<Rightarrow> interest \<Rightarrow> kernel \<Rightarrow> kernel" where
  "epmod fd ev k = (if k_interest k fd = NotWatched then k else k\<lparr>k_interest := (k_interest k)(fd := ev)\<rparr>)"

definition good_script :: "kernel \<Rightarrow> nat \<Rightarrow> bool" where
  "good_script k fd \<longleftrightarrow> NbErr \<notin> set (k_script k fd) \<and> NbTake 0 \<notin> set (k_script k fd)"

lemma nb_write_Wrote:
  assumes "nb_write fd buf k = (NbWrote n, k')"
  shows "n \<le> length buf" "k_out k' fd = k_out k fd @ take n buf"
    "length (k_script k' fd) \<le> length (k_script k fd)"
    "set (k_script k' fd) \<subseteq> set (k_script k fd)"
    "n = 0 \<Longrightarrow> buf \<noteq> [] \<Longrightarrow> NbTake 0 \<in> set (k_script k fd)"
    "n < length buf \<Longrightarrow> length (k_script k' fd) < length (k_script k fd)"
  using assms by (auto simp: nb_write_def min_def split: list.splits nb_res.splits if_splits)

lemma nb_write_fail:
  assumes "nb_write fd buf k = (r, k')" "r = NbEagain \<or> r = NbError"
  shows "k_out k' = k_out k" "set (k_script k' fd) \<subseteq> set (k_script k fd)"
    "r = NbError \<Longrightarrow> NbErr \<in> set (k_script k fd)"
  using assms by (auto simp: nb_write_def split: list.splits nb_res.splits)

lemma nb_write_frame:
  assumes "nb_write fd buf k = (r, k')"
  shows "k_in k' = k_in k" "k_end k' = k_end k" "k_interest k' = k_interest k"
    "fd' \<noteq> fd \<Longrightarrow> k_out k' fd' = k_out k fd'" "fd' \<noteq> fd \<Longrightarrow> k_script k' fd' = k_script k fd'"
  using assms by (auto simp: nb_write_def split: list.splits nb_res.splits)

lemma epmod_simps [simp]:
  "k_in (epmod fd ev k) = k_in k" "k_end (epmod fd ev k) = k_end k"
  "k_script (epmod fd ev k) = k_script k" "k_out (epmod fd ev k) = k_out k"
  by (simp_all add: epmod_def)

subsection \<open>The write loop of \<open>slot_send\<close>\<close>

text \<open>\<open>None\<close>: the early \<open>return\<close> on an error or a return of 0;
  otherwise the bytes sent when the loop ends or breaks on \<open>EAGAIN\<close>.\<close>

function (sequential) slot_write :: "nat \<Rightarrow> char list \<Rightarrow> nat \<Rightarrow> kernel \<Rightarrow> nat option \<times> kernel" where
  "slot_write fd wire sent k =
     (if sent < length wire then
        (case nb_write fd (drop sent wire) k of
           (NbWrote n, k') \<Rightarrow> if n > 0 then slot_write fd wire (sent + n) k' else (None, k')
         | (NbEagain, k') \<Rightarrow> (Some sent, k')
         | (NbError, k') \<Rightarrow> (None, k'))
      else (Some sent, k))"
  by pat_completeness auto
termination
  by (relation "measure (\<lambda>(fd, wire, sent, k). length wire - sent)") auto

declare slot_write.simps [simp del]

subsection \<open>The loop of \<open>sb_flush\<close>\<close>

datatype flush_res = FlushDone | FlushPartial | FlushError

function (sequential) sb_flush :: "SendBuf \<Rightarrow> nat \<Rightarrow> kernel \<Rightarrow> flush_res \<times> SendBuf \<times> kernel" where
  "sb_flush sb fd k =
     (if sb_head sb < sb_tail sb then
        (case nb_write fd (bslice (sb_buf sb) (sb_head sb) (sb_tail sb)) k of
           (NbWrote n, k') \<Rightarrow>
             if n > 0 then sb_flush (sb\<lparr>sb_head := sb_head sb + n\<rparr>) fd k' else (FlushError, sb, k')
         | (NbEagain, k') \<Rightarrow> (FlushPartial, sb, k')
         | (NbError, k') \<Rightarrow> (FlushError, sb, k'))
      else (FlushDone, sb\<lparr>sb_head := 0, sb_tail := 0\<rparr>, k))"
  by pat_completeness auto
termination
  by (relation "measure (\<lambda>(sb, fd, k). sb_tail sb - sb_head sb)") auto

declare sb_flush.simps [simp del]

subsection \<open>The buffer as a byte queue\<close>

definition wf_sb :: "SendBuf \<Rightarrow> bool" where
  "wf_sb sb \<longleftrightarrow> sb_head sb \<le> sb_tail sb \<and> sb_tail sb \<le> SBUF_SIZE"

definition sb_content :: "SendBuf \<Rightarrow> char list" where
  "sb_content sb = bslice (sb_buf sb) (sb_head sb) (sb_tail sb)"

text \<open>What one successful \<open>write\<close> of \<open>n\<close> bytes does in
  \<open>sb_flush\<close>.\<close>

definition sb_drain :: "nat \<Rightarrow> SendBuf \<Rightarrow> SendBuf" where
  "sb_drain n sb = sb\<lparr>sb_head := sb_head sb + n\<rparr>"

lemma wf_sb_init [simp]: "wf_sb sb_init" "sb_content sb_init = []"
  by (simp_all add: wf_sb_def sb_init_def sb_content_def)

lemma length_sb_content: "length (sb_content sb) = sb_tail sb - sb_head sb"
  by (simp add: sb_content_def)

lemma sb_empty_content: "wf_sb sb \<Longrightarrow> sb_empty sb \<longleftrightarrow> sb_content sb = []"
  by (auto simp: wf_sb_def sb_empty_def sb_content_def bslice_def)

lemma sb_compact_props:
  assumes "wf_sb sb"
  shows "wf_sb (sb_compact sb n)" "sb_content (sb_compact sb n) = sb_content sb"
    "sb_tail (sb_compact sb n) + n \<le> SBUF_SIZE \<longleftrightarrow> length (sb_content sb) + n \<le> SBUF_SIZE"
  using assms by (auto simp: wf_sb_def sb_compact_def sb_content_def Let_def bslice_shift_down)

lemma sb_push_props:
  assumes "wf_sb sb" "sb_push sb d = (sb', ok)"
  shows "wf_sb sb'" "ok \<longleftrightarrow> length (sb_content sb) + length d \<le> SBUF_SIZE"
    "sb_content sb' = sb_content sb @ (if ok then d else [])"
proof -
  let ?c = "sb_compact sb (length d)"
  note c = sb_compact_props [OF assms(1), of "length d"]
  have ht: "sb_head ?c \<le> sb_tail ?c" using c(1) by (simp add: wf_sb_def)
  show "ok \<longleftrightarrow> length (sb_content sb) + length d \<le> SBUF_SIZE"
    using assms(2) c(3) by (auto simp: sb_push_def Let_def split: if_splits)
  show "wf_sb sb'"
    using assms(2) c(1) ht by (auto simp: sb_push_def Let_def wf_sb_def split: if_splits)
  show "sb_content sb' = sb_content sb @ (if ok then d else [])"
    using assms(2) c(2) ht
    by (auto simp: sb_push_def Let_def sb_content_def bslice_blit_append split: if_splits)
qed

lemma sb_drain_props:
  assumes "wf_sb sb" "n \<le> length (sb_content sb)"
  shows "wf_sb (sb_drain n sb)" "sb_content (sb_drain n sb) = drop n (sb_content sb)"
  using assms by (auto simp: wf_sb_def sb_drain_def sb_content_def drop_bslice)

text \<open>The contract: pushing appends all of the data or, when it does not fit, nothing;
  draining removes from the front.\<close>

datatype queue_op = Push "char list" | Drain nat

locale byte_queue =
  fixes content :: "'q \<Rightarrow> char list"
    and push :: "'q \<Rightarrow> char list \<Rightarrow> 'q \<times> bool"
    and drain :: "nat \<Rightarrow> 'q \<Rightarrow> 'q"
    and wf :: "'q \<Rightarrow> bool"
    and capacity :: nat
  assumes push_wf: "wf q \<Longrightarrow> push q d = (q', ok) \<Longrightarrow> wf q'"
    and push_ok: "wf q \<Longrightarrow> push q d = (q', ok) \<Longrightarrow> ok \<longleftrightarrow> length (content q) + length d \<le> capacity"
    and push_content: "wf q \<Longrightarrow> push q d = (q', ok) \<Longrightarrow> content q' = content q @ (if ok then d else [])"
    and drain_wf: "wf q \<Longrightarrow> n \<le> length (content q) \<Longrightarrow> wf (drain n q)"
    and drain_content: "wf q \<Longrightarrow> n \<le> length (content q) \<Longrightarrow> content (drain n q) = drop n (content q)"
begin

text \<open>A run of the queue: the bytes accepted and the bytes emitted.\<close>

fun run :: "queue_op list \<Rightarrow> 'q \<Rightarrow> char list \<times> char list \<times> 'q" where
  "run [] q = ([], [], q)"
| "run (Push d # ops) q =
     (case push q d of (q', ok) \<Rightarrow>
        case run ops q' of (acc, out, r) \<Rightarrow> ((if ok then d else []) @ acc, out, r))"
| "run (Drain n # ops) q =
     (let j = min n (length (content q)) in
        case run ops (drain j q) of (acc, out, r) \<Rightarrow> (acc, take j (content q) @ out, r))"

lemma fifo:
  assumes "wf q" "run ops q = (acc, out, r)"
  shows "wf r \<and> content q @ acc = out @ content r"
  using assms
proof (induction ops q arbitrary: acc out r rule: run.induct)
  case (1 q)
  then show ?case by simp
next
  case (2 d ops q)
  obtain q' ok where p: "push q d = (q', ok)" by fastforce
  obtain acc' out' r' where rr: "run ops q' = (acc', out', r')" by (metis prod_cases3)
  from "2.IH" [OF p [symmetric] push_wf [OF "2.prems"(1) p] rr] "2.prems" p rr
    push_content [OF "2.prems"(1) p]
  show ?case by auto
next
  case (3 n ops q)
  define j where "j = min n (length (content q))"
  obtain acc' out' r' where rr: "run ops (drain j q) = (acc', out', r')" by (metis prod_cases3)
  have j: "j \<le> length (content q)" by (simp add: j_def)
  from "3.IH" [OF j_def drain_wf [OF "3.prems"(1) j] rr] drain_content [OF "3.prems"(1) j]
  have "wf r'" "drop j (content q) @ acc' = out' @ content r'" by auto
  moreover have "acc = acc'" "out = take j (content q) @ out'" "r = r'"
    using "3.prems"(2) rr by (simp_all add: j_def [symmetric])
  ultimately show ?case by (metis append.assoc append_take_drop_id)
qed

end

interpretation sbq: byte_queue sb_content sb_push sb_drain wf_sb SBUF_SIZE
  by unfold_locales (rule sb_push_props sb_drain_props; assumption)+

subsection \<open>Writing and flushing\<close>

lemma slot_write_Some:
  assumes "slot_write fd wire sent k = (Some n, k')" "sent \<le> length wire"
  shows "sent \<le> n \<and> n \<le> length wire \<and> k_out k' fd = k_out k fd @ take (n - sent) (drop sent wire)"
  using assms
proof (induction fd wire sent k rule: slot_write.induct)
  case (1 fd wire sent k)
  show ?case
  proof (cases "sent < length wire")
    case False
    with "1.prems" show ?thesis by (simp add: slot_write.simps [of fd wire sent])
  next
    case True
    obtain o1 k1 where w: "nb_write fd (drop sent wire) k = (o1, k1)" by fastforce
    show ?thesis
    proof (cases o1)
      case (NbWrote j)
      note p = nb_write_Wrote(1,2) [OF w [unfolded NbWrote]]
      have j: "0 < j" using "1.prems"(1) w NbWrote True
        by (auto simp: slot_write.simps [of fd wire sent k] split: if_splits)
      with "1.prems"(1) w NbWrote True have "slot_write fd wire (sent + j) k1 = (Some n, k')"
        by (simp add: slot_write.simps [of fd wire sent k])
      with "1.IH" [OF True w [symmetric] NbWrote j] p True
      have ih: "sent + j \<le> n" "n \<le> length wire"
          "k_out k' fd = k_out k fd @ take j (drop sent wire) @ take (n - (sent + j)) (drop (sent + j) wire)"
        by auto
      have "n - sent = j + (n - (sent + j))" using ih(1) by simp
      then have "take (n - sent) (drop sent wire)
          = take j (drop sent wire) @ take (n - (sent + j)) (drop (sent + j) wire)"
        by (metis take_add drop_drop add.commute)
      with ih show ?thesis by simp
    next
      case NbEagain
      with "1.prems" w True nb_write_fail(1) [OF w] show ?thesis
        by (auto simp: slot_write.simps [of fd wire sent k])
    next
      case NbError
      with "1.prems" w True show ?thesis by (auto simp: slot_write.simps [of fd wire sent k])
    qed
  qed
qed

lemma slot_write_good:
  assumes "good_script k fd" "slot_write fd wire sent k = (r, k')"
  shows "r \<noteq> None \<and> good_script k' fd"
  using assms
proof (induction fd wire sent k rule: slot_write.induct)
  case (1 fd wire sent k)
  show ?case
  proof (cases "sent < length wire")
    case False
    with "1.prems" show ?thesis by (auto simp: slot_write.simps [of fd wire sent])
  next
    case True
    obtain o1 k1 where w: "nb_write fd (drop sent wire) k = (o1, k1)" by fastforce
    show ?thesis
    proof (cases o1)
      case (NbWrote j)
      note p = nb_write_Wrote [OF w [unfolded NbWrote]]
      have "j \<noteq> 0" "good_script k1 fd" using p "1.prems"(1) True by (auto simp: good_script_def)
      with "1.IH" [OF True w [symmetric] NbWrote] "1.prems"(2) w NbWrote True show ?thesis
        by (simp add: slot_write.simps [of fd wire sent k])
    next
      case NbEagain
      with "1.prems" w True nb_write_fail(2) [OF w] show ?thesis
        by (auto simp: slot_write.simps [of fd wire sent k] good_script_def)
    next
      case NbError
      with "1.prems"(1) nb_write_fail(3) [OF w] show ?thesis by (simp add: good_script_def)
    qed
  qed
qed

text \<open>Nothing but the descriptor's own output and script changes.\<close>

lemma slot_write_frame:
  assumes "slot_write fd wire sent k = (r, k')"
  shows "k_in k' = k_in k \<and> k_end k' = k_end k \<and> k_interest k' = k_interest k
    \<and> (\<forall>fd'. fd' \<noteq> fd \<longrightarrow> k_out k' fd' = k_out k fd' \<and> k_script k' fd' = k_script k fd')"
  using assms
proof (induction fd wire sent k rule: slot_write.induct)
  case (1 fd wire sent k)
  obtain o1 k1 where w: "nb_write fd (drop sent wire) k = (o1, k1)" by fastforce
  note f = nb_write_frame [OF w]
  from 1 w f show ?case
    by (cases o1) (auto simp: slot_write.simps [of fd wire sent k] split: if_splits)
qed

lemma sb_flush_props:
  assumes "wf_sb sb" "sb_flush sb fd k = (r, sb', k')"
  shows "wf_sb sb' \<and> k_out k' fd @ sb_content sb' = k_out k fd @ sb_content sb
    \<and> (r = FlushDone \<longrightarrow> sb_content sb' = []) \<and> (good_script k fd \<longrightarrow> r \<noteq> FlushError \<and> good_script k' fd)"
  using assms
proof (induction sb fd k rule: sb_flush.induct)
  case (1 sb fd k)
  show ?case
  proof (cases "sb_head sb < sb_tail sb")
    case False
    with "1.prems" show ?thesis by (auto simp: sb_flush.simps [of sb] wf_sb_def sb_content_def)
  next
    case True
    obtain o1 k1 where w: "nb_write fd (bslice (sb_buf sb) (sb_head sb) (sb_tail sb)) k = (o1, k1)" by fastforce
    show ?thesis
    proof (cases o1)
      case (NbWrote j)
      note p = nb_write_Wrote [OF w [unfolded NbWrote]]
      show ?thesis
      proof (cases "j > 0")
        case False
        with p True have "\<not> good_script k fd"
          by (auto simp: good_script_def simp flip: length_greater_0_conv)
        with False "1.prems" w NbWrote p True show ?thesis by (auto simp: sb_flush.simps [of sb])
      next
        case j: True
        have eq: "sb_flush (sb_drain j sb) fd k1 = (r, sb', k')"
          using "1.prems"(2) w NbWrote True j by (simp add: sb_flush.simps [of sb] sb_drain_def)
        have jl: "j \<le> length (sb_content sb)" using p(1) by (simp add: sb_content_def)
        have good: "good_script k fd \<Longrightarrow> good_script k1 fd" using p(4) by (auto simp: good_script_def)
        from "1.IH" [OF True w [symmetric] NbWrote j, folded sb_drain_def,
            OF sb_drain_props(1) [OF "1.prems"(1) jl] eq] p(2) good sb_drain_props(2) [OF "1.prems"(1) jl]
        show ?thesis by (simp flip: sb_content_def)
      qed
    next
      case NbEagain
      with "1.prems" w True nb_write_fail(1,2) [OF w] show ?thesis
        by (auto simp: sb_flush.simps [of sb] good_script_def)
    next
      case NbError
      with "1.prems" w True nb_write_fail [OF w] show ?thesis
        by (auto simp: sb_flush.simps [of sb] good_script_def)
    qed
  qed
qed

lemma sb_flush_frame:
  assumes "sb_flush sb fd k = (r, sb', k')"
  shows "k_in k' = k_in k \<and> k_end k' = k_end k \<and> k_interest k' = k_interest k
    \<and> (\<forall>fd'. fd' \<noteq> fd \<longrightarrow> k_out k' fd' = k_out k fd' \<and> k_script k' fd' = k_script k fd')"
  using assms
proof (induction sb fd k rule: sb_flush.induct)
  case (1 sb fd k)
  obtain o1 k1 where w: "nb_write fd (bslice (sb_buf sb) (sb_head sb) (sb_tail sb)) k = (o1, k1)" by fastforce
  note f = nb_write_frame [OF w]
  from 1 w f show ?case
    by (cases o1) (auto simp: sb_flush.simps [of sb] split: if_splits)
qed

end
