(* ===== verification/Epoll_Server.thy ===== *)
theory Epoll_Server
  imports Chat_Common Send_Buffer
begin

text \<open>
  \<open>src/chat_server_epoll.c\<close>: the client table, the helpers, the message
  processor and the I/O handlers. The table is a function from slot number to client,
  of which the slots below \<open>MAX_CLIENTS\<close> are used. One handler runs in one
  environment \<open>e\<close> (its clock, what the discovery server answers it).
  \<open>ep_crashed\<close> records that \<open>save_history\<close> killed the process.
\<close>

abbreviation (input) RBUF_SIZE :: int where "RBUF_SIZE \<equiv> 1116"

record epoll_client =
  ec_fd :: nat
  ec_active :: bool
  ec_in_use :: bool
  ec_status :: nat
  ec_username :: "char list"
  ec_ip :: "char list"
  ec_rbuf :: barray
  ec_rbuf_len :: int
  ec_sbuf :: SendBuf

record epoll =
  ep_clients :: "nat \<Rightarrow> epoll_client"
  ep_kern :: kernel
  ep_files :: files
  ep_crashed :: bool

text \<open>\<open>memset(c, 0, sizeof(Client))\<close>\<close>

definition zero_client :: epoll_client where
  "zero_client = \<lparr>ec_fd = 0, ec_active = False, ec_in_use = False, ec_status = 0,
     ec_username = zeros MAX_USERNAME_LEN, ec_ip = zeros 16, ec_rbuf = (\<lambda>_. NUL), ec_rbuf_len = 0,
     ec_sbuf = sb_init\<rparr>"

definition upd_client :: "nat \<Rightarrow> (epoll_client \<Rightarrow> epoll_client) \<Rightarrow> epoll \<Rightarrow> epoll" where
  "upd_client s f st = st\<lparr>ep_clients := (ep_clients st)(s := f (ep_clients st s))\<rparr>"

definition client_table :: "epoll \<Rightarrow> epoll_client list" where
  "client_table st = map (ep_clients st) [0..<MAX_CLIENTS]"

subsection \<open>Helpers\<close>

definition find_by_fd :: "epoll \<Rightarrow> nat \<Rightarrow> nat option" where
  "find_by_fd st fd = find_slot (\<lambda>c. ec_in_use c \<and> ec_fd c = fd) (client_table st)"

definition find_by_user :: "epoll \<Rightarrow> char list \<Rightarrow> nat option" where
  "find_by_user st u =
     find_slot (\<lambda>c. ec_active c \<and> strneq MAX_USERNAME_LEN (ec_username c) u) (client_table st)"

definition find_free :: "epoll \<Rightarrow> nat option" where
  "find_free st = find_slot (\<lambda>c. \<not> ec_in_use c) (client_table st)"

definition slot_push :: "nat \<Rightarrow> char list \<Rightarrow> epoll \<Rightarrow> epoll" where
  "slot_push s d st =
     (let st1 = upd_client s (\<lambda>c. c\<lparr>ec_sbuf := fst (sb_push (ec_sbuf c) d)\<rparr>) st
      in st1\<lparr>ep_kern := epmod (ec_fd (ep_clients st s)) WatchInOut (ep_kern st1)\<rparr>)"

definition slot_send :: "nat \<Rightarrow> Message \<Rightarrow> epoll \<Rightarrow> epoll" where
  "slot_send s m st =
     (let wire = pack_message m; c = ep_clients st s
      in if wire = [] then st
         else if sb_empty (ec_sbuf c) then
           (case slot_write (ec_fd c) wire 0 (ep_kern st) of
              (None, k) \<Rightarrow> st\<lparr>ep_kern := k\<rparr>
            | (Some sent, k) \<Rightarrow>
                if sent = length wire then st\<lparr>ep_kern := k\<rparr>
                else slot_push s (drop sent wire) (st\<lparr>ep_kern := k\<rparr>))
         else slot_push s wire st)"

text \<open>The loop over the table that sends to every active slot but one.\<close>

definition send_others :: "nat \<Rightarrow> Message \<Rightarrow> epoll \<Rightarrow> epoll" where
  "send_others skip m st =
     fold (\<lambda>i st. if i \<noteq> skip \<and> ec_active (ep_clients st i) then slot_send i m st else st)
       [0..<MAX_CLIENTS] st"

definition bcast_note :: "env \<Rightarrow> nat \<Rightarrow> char list \<Rightarrow> epoll \<Rightarrow> epoll" where
  "bcast_note e skip note st = send_others skip (new_message (e_now e) MSG_BROADCAST ''server'' [] note) st"

definition disconnect_client :: "env \<Rightarrow> nat \<Rightarrow> epoll \<Rightarrow> epoll" where
  "disconnect_client e s st =
     (let c = ep_clients st s
      in if \<not> ec_in_use c then st
         else
           let st1 = (if ec_active c
                      then bcast_note e s (snprintf 64 (cstr (ec_username c) @ '' disconnected'')) st
                      else st);
               k = ep_kern st1;
               st2 = st1\<lparr>ep_kern := k\<lparr>k_interest := (k_interest k)(ec_fd c := NotWatched)\<rparr>\<rparr>
           in upd_client s (\<lambda>_. zero_client) st2)"

definition login_slot :: "nat \<Rightarrow> char list \<Rightarrow> epoll \<Rightarrow> epoll" where
  "login_slot s u = upd_client s (\<lambda>c. c\<lparr>
     ec_username := strncpy (ec_username c) u (MAX_USERNAME_LEN - 1), ec_active := True,
     ec_status := status_code STATUS_AVAILABLE\<rparr>)"

definition logout_slot :: "nat \<Rightarrow> epoll \<Rightarrow> epoll" where
  "logout_slot s = upd_client s (\<lambda>c. c\<lparr>ec_active := False, ec_username := zeros MAX_USERNAME_LEN\<rparr>)"

definition sessions :: "epoll \<Rightarrow> session list" where
  "sessions st = map (\<lambda>c. (ec_active c, ec_username c, ec_status c)) (client_table st)"

subsection \<open>The message processor\<close>

definition process_message :: "env \<Rightarrow> nat \<Rightarrow> Message \<Rightarrow> epoll \<Rightarrow> epoll" where
  "process_message e s msg st =
     (let c = ep_clients st s
      in case msg_type msg of
        MSG_LOGIN \<Rightarrow>
          (case sscanf_user_pass (payload msg) of (n, u, p) \<Rightarrow>
             if n \<noteq> 2 then slot_send s (error_reply e [] ''Bad login format'') st
             else if find_by_user st u \<noteq> None then slot_send s (error_reply e u ''Already logged in'') st
             else if \<not> validate e u p then slot_send s (error_reply e u ''Invalid credentials'') st
             else slot_send s (server_reply e MSG_ACK u ''Login successful'') (login_slot s u st))
      | MSG_LOGOUT \<Rightarrow>
          (let note = snprintf 64 (cstr (ec_username c) @ '' left'')
           in disconnect_client e s (bcast_note e s note (logout_slot s st)))
      | MSG_BROADCAST \<Rightarrow>
          (if \<not> ec_active c then slot_send s (error_reply e [] ''Not authenticated'') st
           else (case save_history e (sender msg) [] (payload msg) (timestamp msg) (ep_files st) of
                   None \<Rightarrow> st\<lparr>ep_crashed := True\<rparr>
                 | Some fs \<Rightarrow>
                     slot_send s (server_reply e MSG_ACK (sender msg) [])
                       (send_others s msg (st\<lparr>ep_files := fs\<rparr>))))
      | MSG_PRIVATE \<Rightarrow>
          (if \<not> ec_active c then slot_send s (error_reply e [] ''Not authenticated'') st
           else (case find_by_user st (receiver msg) of
                   None \<Rightarrow> slot_send s (error_reply e (sender msg) ''User not online'') st
                 | Some t \<Rightarrow>
                     (case save_history e (sender msg) (receiver msg) (payload msg) (timestamp msg) (ep_files st) of
                        None \<Rightarrow> st\<lparr>ep_crashed := True\<rparr>
                      | Some fs \<Rightarrow>
                          slot_send s (server_reply e MSG_ACK (sender msg) [])
                            (slot_send t msg (st\<lparr>ep_files := fs\<rparr>)))))
      | MSG_LIST_USERS \<Rightarrow>
          slot_send s (server_reply e MSG_USER_LIST (sender msg) (user_list (sessions st))) st
      | MSG_HISTORY_REQ \<Rightarrow>
          slot_send s (server_reply e MSG_HISTORY_RESP (sender msg) (read_history (ep_files st) (sender msg))) st
      | MSG_STATUS_CHANGE \<Rightarrow>
          slot_send s (server_reply e MSG_ACK (sender msg) ''Status updated'')
            (upd_client s (\<lambda>c. c\<lparr>ec_status := status_code (status_of_payload (payload msg))\<rparr>) st)
      | _ \<Rightarrow> slot_send s (error_reply e (sender msg) ''Unknown type'') st)"

subsection \<open>Frame lemmas\<close>

lemma upd_client_simps [simp]:
  "ep_clients (upd_client s f st) = (ep_clients st)(s := f (ep_clients st s))"
  "ep_kern (upd_client s f st) = ep_kern st"
  "ep_files (upd_client s f st) = ep_files st"
  "ep_crashed (upd_client s f st) = ep_crashed st"
  by (simp_all add: upd_client_def)

lemma slot_push_simps [simp]:
  "ep_clients (slot_push s d st) =
     (ep_clients st)(s := (ep_clients st s)\<lparr>ec_sbuf := fst (sb_push (ec_sbuf (ep_clients st s)) d)\<rparr>)"
  "ep_kern (slot_push s d st) = epmod (ec_fd (ep_clients st s)) WatchInOut (ep_kern st)"
  "ep_files (slot_push s d st) = ep_files st"
  "ep_crashed (slot_push s d st) = ep_crashed st"
  by (simp_all add: slot_push_def Let_def)

text \<open>What a send leaves unchanged in a client: everything but the send buffer.\<close>

definition same_session :: "epoll_client \<Rightarrow> epoll_client \<Rightarrow> bool" where
  "same_session c d \<longleftrightarrow> d = c\<lparr>ec_sbuf := ec_sbuf d\<rparr>"

lemma same_session_refl [simp]: "same_session c c"
  by (simp add: same_session_def)

lemma same_session_trans: "same_session a b \<Longrightarrow> same_session b c \<Longrightarrow> same_session a c"
  by (simp add: same_session_def) (metis (no_types, lifting) epoll_client.update_convs(9) epoll_client.surjective)

lemma same_sessionD:
  "same_session c d \<Longrightarrow> ec_fd d = ec_fd c \<and> ec_active d = ec_active c \<and> ec_in_use d = ec_in_use c
     \<and> ec_status d = ec_status c \<and> ec_username d = ec_username c \<and> ec_ip d = ec_ip c
     \<and> ec_rbuf d = ec_rbuf c \<and> ec_rbuf_len d = ec_rbuf_len c"
  by (cases c; cases d) (simp add: same_session_def)

lemma slot_send_frame:
  "same_session (ep_clients st j) (ep_clients (slot_send i m st) j)"
  "ep_files (slot_send i m st) = ep_files st"
  "ep_crashed (slot_send i m st) = ep_crashed st"
  by (auto simp: slot_send_def Let_def same_session_def split: prod.split option.split)

lemmas slot_send_session [simp] = slot_send_frame(1) [THEN same_sessionD, THEN conjunct1]
  slot_send_frame(1) [THEN same_sessionD, THEN conjunct2, THEN conjunct1]
  slot_send_frame(1) [THEN same_sessionD, THEN conjunct2, THEN conjunct2, THEN conjunct1]
  slot_send_frame(1) [THEN same_sessionD, THEN conjunct2, THEN conjunct2, THEN conjunct2, THEN conjunct1]

lemma slot_send_other: "i \<noteq> j \<Longrightarrow> ep_clients (slot_send i m st) j = ep_clients st j"
  by (auto simp: slot_send_def Let_def split: prod.split option.split)

lemma send_others_frame:
  "same_session (ep_clients st j) (ep_clients (send_others skip m st) j)"
  "ep_files (send_others skip m st) = ep_files st"
  "ep_crashed (send_others skip m st) = ep_crashed st"
proof -
  show "same_session (ep_clients st j) (ep_clients (send_others skip m st) j)"
    unfolding send_others_def
    by (rule fold_invariant_on) (auto intro: same_session_trans slot_send_frame(1))
  show "ep_files (send_others skip m st) = ep_files st"
    "ep_crashed (send_others skip m st) = ep_crashed st"
    unfolding send_others_def by (rule fold_fixed_field; simp add: slot_send_frame)+
qed

lemma bcast_note_frame:
  "same_session (ep_clients st j) (ep_clients (bcast_note e skip note st) j)"
  "ep_files (bcast_note e skip note st) = ep_files st"
  "ep_crashed (bcast_note e skip note st) = ep_crashed st"
  by (simp_all add: bcast_note_def send_others_frame)

end
