(* ===== verification/Epoll_Invariant.thy ===== *)
theory Epoll_Invariant
  imports Epoll_Server
begin

text \<open>
  The invariant of the epoll server's client table and kernel registrations, kept by
  every operation, and the interpretations of the two server contracts:
  \<open>ep_sessions\<close> (\<open>session_table\<close>) for the lookup, login and logout of
  the table, \<open>ep_sink\<close> (\<open>message_sink\<close>) for \<open>slot_send\<close>, whose
  output stream is what the kernel has taken followed by what the send buffer holds.
\<close>

definition wf_client :: "epoll_client \<Rightarrow> bool" where
  "wf_client c \<longleftrightarrow> canonical_name (ec_username c) \<and> ec_status c < 3 \<and> wf_sb (ec_sbuf c) \<and>
     (if ec_active c then ec_in_use c \<and> user_ok (cstr (ec_username c)) else cstr (ec_username c) = []) \<and>
     (if ec_in_use c then 0 \<le> ec_rbuf_len c \<and> ec_rbuf_len c \<le> RBUF_SIZE else ec_rbuf_len c \<le> 0)"

definition wf_table :: "epoll \<Rightarrow> bool" where
  "wf_table st \<longleftrightarrow> (\<forall>i. wf_client (ep_clients st i)) \<and>
     (\<forall>i. ec_in_use (ep_clients st i) \<longrightarrow> i < MAX_CLIENTS) \<and>
     (\<forall>i j. ec_in_use (ep_clients st i) \<longrightarrow> ec_in_use (ep_clients st j) \<longrightarrow>
        ec_fd (ep_clients st i) = ec_fd (ep_clients st j) \<longrightarrow> i = j) \<and>
     (\<forall>i. ec_in_use (ep_clients st i) \<longrightarrow> k_interest (ep_kern st) (ec_fd (ep_clients st i)) \<noteq> NotWatched)"

definition ep_names :: "epoll \<Rightarrow> nat \<Rightarrow> char list option" where
  "ep_names st i = (if ec_active (ep_clients st i) then Some (cstr (ec_username (ep_clients st i))) else None)"

lemma wf_zero_client [simp]: "wf_client zero_client"
  by (simp add: wf_client_def zero_client_def)

lemma wf_table_client: "wf_table st \<Longrightarrow> wf_client (ep_clients st i)"
  by (simp add: wf_table_def)

lemma wf_table_name: "wf_table st \<Longrightarrow> length (cstr (ec_username (ep_clients st i))) \<le> 31"
  using canonical_length length_cstr_terminated by (auto simp: wf_table_def wf_client_def)

lemma wf_table_active: "wf_table st \<Longrightarrow> ec_active (ep_clients st i) \<Longrightarrow>
  ec_in_use (ep_clients st i) \<and> i < MAX_CLIENTS \<and> user_ok (cstr (ec_username (ep_clients st i)))"
  by (auto simp: wf_table_def wf_client_def)

lemma client_table_nth [simp]: "i < 10 \<Longrightarrow> client_table st ! i = ep_clients st i"
  and length_client_table [simp]: "length (client_table st) = 10"
  by (simp_all add: client_table_def)

subsection \<open>Lookup, login, logout\<close>

lemma find_by_user_Some:
  assumes "wf_table st" "length (cstr u) \<le> 32" "find_by_user st u = Some i"
  shows "i < 10 \<and> ec_active (ep_clients st i) \<and> cstr (ec_username (ep_clients st i)) = cstr u"
proof -
  from find_slot_SomeD [OF assms(3) [unfolded find_by_user_def]]
  have "i < 10" "ec_active (ep_clients st i)" "strneq 32 (ec_username (ep_clients st i)) u" by auto
  with assms(2) wf_table_name [OF assms(1), of i] show ?thesis by (simp add: strneq_cstr)
qed

lemma find_by_user_None:
  assumes "wf_table st" "find_by_user st u = None" "ec_active (ep_clients st i)"
  shows "cstr (ec_username (ep_clients st i)) \<noteq> cstr u"
proof -
  from wf_table_active [OF assms(1,3)] have "i < 10" by simp
  with find_slot_NoneD [OF assms(2) [unfolded find_by_user_def], of i] assms(3)
  show ?thesis by (auto simp: strneq_def)
qed

lemma login_slot_client:
  assumes "wf_table st"
  shows "ep_clients (login_slot s u st) s = (ep_clients st s)\<lparr>ec_username := strncpy (zeros 32) u 31,
    ec_active := True, ec_status := 0\<rparr>"
proof -
  have "canonical_name (ec_username (ep_clients st s))"
    using wf_table_client [OF assms, of s] by (simp add: wf_client_def)
  from strncpy_onto_canonical [OF this] show ?thesis by (simp add: login_slot_def)
qed

interpretation ep_sessions: session_table ep_names find_by_user login_slot logout_slot wf_table 10
proof (unfold_locales, goal_cases)
  case (1 st u i)
  then show ?case using find_by_user_Some [of st u i] by (simp add: ep_names_def)
next
  case (2 st u i)
  then show ?case using find_by_user_None [of st u i] by (auto simp: ep_names_def)
next
  case (3 st i u)
  then show ?case
    using login_slot_client [OF 3(1), of i u]
    by (auto simp: ep_names_def login_slot_def user_ok_def fun_eq_iff)
next
  case (4 st i)
  then show ?case by (auto simp: ep_names_def logout_slot_def fun_eq_iff)
qed

definition wf_epoll :: "epoll \<Rightarrow> bool" where
  "wf_epoll st \<longleftrightarrow> wf_table st \<and> ep_sessions.unique_names st"

lemma wf_login:
  assumes "wf_epoll st" "ec_in_use (ep_clients st s)" "user_ok u" "find_by_user st u = None"
  shows "wf_epoll (login_slot s u st)"
proof -
  have t: "wf_table st" and s: "s < 10" using assms(1,2) by (auto simp: wf_epoll_def wf_table_def)
  have u: "take 31 (cstr u) = u" using assms(3) by (simp add: user_ok_def)
  have "wf_client (ep_clients (login_slot s u st) s)"
    using wf_table_client [OF t, of s] assms(2,3) u
    by (simp add: login_slot_client [OF t]) (simp add: wf_client_def)
  with t assms(2) have "wf_table (login_slot s u st)"
    by (auto simp: wf_table_def login_slot_def)
  with ep_sessions.login_unique [OF t s assms(3)] assms(1,4) show ?thesis
    by (simp add: wf_epoll_def)
qed

lemma wf_logout:
  assumes "wf_epoll st" "s < 10"
  shows "wf_epoll (logout_slot s st)"
proof -
  have t: "wf_table st" using assms(1) by (simp add: wf_epoll_def)
  then have "wf_table (logout_slot s st)"
    by (auto simp: wf_table_def logout_slot_def wf_client_def)
  with ep_sessions.logout_unique [OF t assms(2)] assms(1) show ?thesis by (simp add: wf_epoll_def)
qed

subsection \<open>Sending keeps the invariant\<close>

lemma wf_client_same_session:
  "wf_client c \<Longrightarrow> same_session c d \<Longrightarrow> wf_sb (ec_sbuf d) \<Longrightarrow> wf_client d"
  by (drule same_sessionD) (simp add: wf_client_def)

lemma slot_send_sbuf: "wf_sb (ec_sbuf (ep_clients st j)) \<Longrightarrow> wf_sb (ec_sbuf (ep_clients (slot_send i m st) j))"
  using sb_push_props(1)
  by (auto simp: slot_send_def Let_def split: prod.split option.split) (metis prod.collapse)+

lemma epmod_watched: "k_interest k fd \<noteq> NotWatched \<Longrightarrow> k_interest (epmod fd' WatchInOut k) fd \<noteq> NotWatched"
  "k_interest k fd \<noteq> NotWatched \<Longrightarrow> k_interest (epmod fd' WatchIn k) fd \<noteq> NotWatched"
  by (simp_all add: epmod_def)

lemma slot_send_interest:
  "k_interest (ep_kern st) fd \<noteq> NotWatched \<Longrightarrow> k_interest (ep_kern (slot_send i m st)) fd \<noteq> NotWatched"
  by (auto simp: slot_send_def Let_def epmod_watched dest!: slot_write_frame split: prod.split option.split)

text \<open>An update of the state that changes neither the sessions nor the registrations.\<close>

lemma wf_epoll_same_sessions:
  assumes "wf_epoll st" "\<And>j. same_session (ep_clients st j) (ep_clients st' j)"
    and "\<And>j. wf_sb (ec_sbuf (ep_clients st' j))"
    and "\<And>fd. k_interest (ep_kern st) fd \<noteq> NotWatched \<Longrightarrow> k_interest (ep_kern st') fd \<noteq> NotWatched"
  shows "wf_epoll st'"
proof -
  note d = assms(2) [THEN same_sessionD]
  have "wf_table st'"
    using assms(1,4) d wf_client_same_session [OF _ assms(2,3)]
    unfolding wf_epoll_def wf_table_def by simp
  moreover have "ep_names st' = ep_names st" using d by (simp add: ep_names_def fun_eq_iff)
  ultimately show ?thesis using assms(1) by (simp add: wf_epoll_def ep_sessions.unique_names_def)
qed

lemma wf_epoll_sbuf: "wf_epoll st \<Longrightarrow> wf_sb (ec_sbuf (ep_clients st j))"
  by (simp add: wf_epoll_def wf_table_def wf_client_def)

lemma wf_slot_send [wf_intros]:
  assumes "wf_epoll st"
  shows "wf_epoll (slot_send i m st)"
  by (rule wf_epoll_same_sessions [OF assms slot_send_frame(1)])
    (use slot_send_sbuf wf_epoll_sbuf [OF assms] slot_send_interest in blast)+

lemma wf_send_others [wf_intros]: "wf_epoll st \<Longrightarrow> wf_epoll (send_others skip m st)"
  unfolding send_others_def by (rule fold_invariant_on) (auto intro: wf_slot_send)

lemma wf_bcast_note [wf_intros]: "wf_epoll st \<Longrightarrow> wf_epoll (bcast_note e skip note st)"
  by (simp add: bcast_note_def wf_send_others)

text \<open>Freeing a slot and its registration.\<close>

lemma wf_free_slot:
  assumes "wf_epoll st" "ec_in_use (ep_clients st s)"
  defines "k \<equiv> (ep_kern st)\<lparr>k_interest := (k_interest (ep_kern st))(ec_fd (ep_clients st s) := NotWatched)\<rparr>"
  shows "wf_epoll (upd_client s (\<lambda>_. zero_client) (st\<lparr>ep_kern := k\<rparr>))"
proof -
  let ?st = "upd_client s (\<lambda>_. zero_client) (st\<lparr>ep_kern := k\<rparr>)"
  have z: "\<not> ec_in_use zero_client" "\<not> ec_active zero_client" by (simp_all add: zero_client_def)
  have "wf_table ?st"
    using assms(1,2) z unfolding wf_epoll_def wf_table_def by (auto simp: k_def)
  moreover have "ep_names ?st = (ep_names st)(s := None)"
    using z by (auto simp: ep_names_def fun_eq_iff)
  ultimately show ?thesis
    using assms(1) by (auto simp: wf_epoll_def ep_sessions.unique_names_def split: if_splits)
qed

lemma wf_disconnect [wf_intros]:
  assumes "wf_epoll st"
  shows "wf_epoll (disconnect_client e s st)"
proof (cases "ec_in_use (ep_clients st s)")
  case False
  with assms show ?thesis by (simp add: disconnect_client_def Let_def)
next
  case True
  let ?st1 = "if ec_active (ep_clients st s)
     then bcast_note e s (snprintf 64 (cstr (ec_username (ep_clients st s)) @ '' disconnected'')) st else st"
  have w: "wf_epoll ?st1" using assms wf_bcast_note by simp
  have c: "ec_in_use (ep_clients ?st1 s)" "ec_fd (ep_clients ?st1 s) = ec_fd (ep_clients st s)"
    using True bcast_note_frame(1) [THEN same_sessionD] by simp_all
  from wf_free_slot [OF w c(1)] c(2) True show ?thesis
    by (simp add: disconnect_client_def Let_def)
qed

lemma wf_set_files [simp]:
  "wf_epoll (st\<lparr>ep_files := fs\<rparr>) \<longleftrightarrow> wf_epoll st" "wf_epoll (st\<lparr>ep_crashed := b\<rparr>) \<longleftrightarrow> wf_epoll st"
  by (simp_all add: wf_epoll_def wf_table_def ep_sessions.unique_names_def ep_names_def)

lemma wf_set_status:
  assumes "wf_epoll st" "n < 3"
  shows "wf_epoll (upd_client s (\<lambda>c. c\<lparr>ec_status := n\<rparr>) st)"
proof -
  have "wf_client ((ep_clients st s)\<lparr>ec_status := n\<rparr>)"
    using assms wf_table_client [of st s] by (simp add: wf_epoll_def wf_client_def)
  then have "wf_table (upd_client s (\<lambda>c. c\<lparr>ec_status := n\<rparr>) st)"
    using assms(1) by (auto simp: wf_epoll_def wf_table_def)
  moreover have "ep_names (upd_client s (\<lambda>c. c\<lparr>ec_status := n\<rparr>) st) = ep_names st"
    by (simp add: ep_names_def fun_eq_iff)
  ultimately show ?thesis using assms(1) by (simp add: wf_epoll_def ep_sessions.unique_names_def)
qed

lemma status_code_less [simp]: "status_code x < 3"
  by (cases x) simp_all

lemma wf_process_message:
  assumes "wf_epoll st" "ec_in_use (ep_clients st s)"
  shows "wf_epoll (process_message e s msg st)"
proof -
  have s: "s < 10" using assms by (simp add: wf_epoll_def wf_table_def)
  show ?thesis
    using assms wf_login [OF assms] wf_logout [OF assms(1) s] wf_set_status [OF assms(1)]
    by (auto simp: process_message_def Let_def sscanf_user_pass_ok intro!: wf_intros
        split: msg_type_t.split prod.split option.split)
qed

end
