(* ===== verification/Epoll_Delivery.thy ===== *)
theory Epoll_Delivery
  imports Epoll_Invariant
begin

text \<open>
  What the epoll server's sends deliver: the interpretation \<open>ep_sink\<close> of
  \<open>message_sink\<close> on \<open>slot_send\<close>, and from it the effect of each message
  type on every client's output stream. The stream of a slot is every byte its client
  has been or will be sent on this connection: what the kernel has taken, then what the
  send buffer holds. A slot is ready for \<open>n\<close> messages when its descriptor is its
  own, its coming writes meet no hard error (partial writes and \<open>EAGAIN\<close> are
  allowed), and its send buffer has room for \<open>n\<close> messages of the largest size.
\<close>

definition ep_stream :: "epoll \<Rightarrow> nat \<Rightarrow> char list" where
  "ep_stream st i =
     (let c = ep_clients st i
      in if ec_in_use c then k_out (ep_kern st) (ec_fd c) @ sb_content (ec_sbuf c) else [])"

definition ep_ready :: "nat \<Rightarrow> epoll \<Rightarrow> nat \<Rightarrow> bool" where
  "ep_ready n st i \<longleftrightarrow>
     (let c = ep_clients st i
      in ec_in_use c \<and> wf_sb (ec_sbuf c) \<and> good_script (ep_kern st) (ec_fd c) \<and>
         (\<forall>j. j \<noteq> i \<longrightarrow> ec_in_use (ep_clients st j) \<longrightarrow> ec_fd (ep_clients st j) \<noteq> ec_fd c) \<and>
         length (sb_content (ec_sbuf c)) + n * 1100 \<le> SBUF_SIZE)"

definition ep_online :: "epoll \<Rightarrow> nat \<Rightarrow> bool" where
  "ep_online st i = ec_active (ep_clients st i)"

lemma sb_push_fits:
  assumes "wf_sb sb" "length (sb_content sb) + length d \<le> SBUF_SIZE"
  shows "wf_sb (fst (sb_push sb d)) \<and> sb_content (fst (sb_push sb d)) = sb_content sb @ d"
proof (cases "sb_push sb d")
  case (Pair sb' ok)
  with sb_push_props [OF assms(1) Pair] assms(2) show ?thesis by simp
qed

text \<open>One send on a ready slot, split into what the kernel takes and what is queued.\<close>

lemma slot_send_ready:
  assumes "ep_ready (Suc n) st i" and c_def: "c = ep_clients st i" and st'_def: "st' = slot_send i m st"
  shows "\<exists>t d. t @ d = pack_message m \<and>
     k_out (ep_kern st') (ec_fd c) = k_out (ep_kern st) (ec_fd c) @ t \<and>
     sb_content (ec_sbuf (ep_clients st' i)) = sb_content (ec_sbuf c) @ d \<and>
     (sb_content (ec_sbuf c) \<noteq> [] \<longrightarrow> t = []) \<and>
     wf_sb (ec_sbuf (ep_clients st' i)) \<and> good_script (ep_kern st') (ec_fd c)"
proof -
  let ?fd = "ec_fd c" and ?wire = "pack_message m"
  have r: "wf_sb (ec_sbuf c)" "good_script (ep_kern st) ?fd"
      "length (sb_content (ec_sbuf c)) + 1100 \<le> SBUF_SIZE"
    using assms(1) by (auto simp: ep_ready_def Let_def c_def)
  have len: "length ?wire \<le> 1100" by simp
  show ?thesis
  proof (cases "sb_empty (ec_sbuf c)")
    case False
    then have "sb_content (ec_sbuf c) \<noteq> []" using sb_empty_content r(1) by blast
    have "st' = slot_push i ?wire st" using False by (simp add: st'_def slot_send_def Let_def c_def)
    with sb_push_fits [OF r(1), of ?wire] r len show ?thesis
      by (intro exI [of _ "[]"] exI [of _ ?wire]) (simp add: c_def good_script_def)
  next
    case True
    then have e: "sb_content (ec_sbuf c) = []" using sb_empty_content r(1) by blast
    obtain o1 k where w: "slot_write ?fd ?wire 0 (ep_kern st) = (o1, k)" by fastforce
    from slot_write_good [OF r(2) w] obtain sent where o1: "o1 = Some sent" and g: "good_script k ?fd" by blast
    from slot_write_Some [OF w [unfolded o1]] have k: "sent \<le> length ?wire"
        "k_out k ?fd = k_out (ep_kern st) ?fd @ take sent ?wire" by auto
    show ?thesis
    proof (cases "sent = length ?wire")
      case True
      have "st' = st\<lparr>ep_kern := k\<rparr>"
        using \<open>sb_empty (ec_sbuf c)\<close> w o1 True by (simp add: st'_def slot_send_def Let_def c_def)
      with k g r e True show ?thesis
        by (intro exI [of _ ?wire] exI [of _ "[]"]) (simp add: c_def)
    next
      case False
      have st': "st' = slot_push i (drop sent ?wire) (st\<lparr>ep_kern := k\<rparr>)"
        using \<open>sb_empty (ec_sbuf c)\<close> w o1 False by (simp add: st'_def slot_send_def Let_def c_def)
      have "length (drop sent ?wire) \<le> 1100" by simp
      with sb_push_fits [OF r(1), of "drop sent ?wire"] r(3) k g st' e show ?thesis
        by (intro exI [of _ "take sent ?wire"] exI [of _ "drop sent ?wire"])
          (simp add: c_def good_script_def)
    qed
  qed
qed

lemma slot_send_other_fd:
  assumes "fd \<noteq> ec_fd (ep_clients st i)"
  shows "k_out (ep_kern (slot_send i m st)) fd = k_out (ep_kern st) fd"
    "k_script (ep_kern (slot_send i m st)) fd = k_script (ep_kern st) fd"
  using assms by (auto simp: slot_send_def Let_def dest!: slot_write_frame split: prod.split option.split)

interpretation ep_sink: message_sink slot_send ep_stream ep_ready ep_online
proof (unfold_locales, goal_cases)
  case (1 n st i m)
  then have "ec_in_use (ep_clients st i)" by (simp add: ep_ready_def Let_def)
  with slot_send_ready [OF 1 refl refl, of m] show ?case
    by (auto simp: ep_stream_def Let_def)
next
  case (2 j i k st m)
  then have "ec_in_use (ep_clients st j) \<Longrightarrow> ec_fd (ep_clients st j) \<noteq> ec_fd (ep_clients st i)"
    by (simp add: ep_ready_def Let_def)
  with 2 show ?case by (auto simp: ep_stream_def Let_def slot_send_other slot_send_other_fd)
next
  case (3 n st i m)
  from slot_send_ready [OF 3 refl refl, of m] obtain t d where td: "t @ d = pack_message m"
      "sb_content (ec_sbuf (ep_clients (slot_send i m st) i)) = sb_content (ec_sbuf (ep_clients st i)) @ d"
      "wf_sb (ec_sbuf (ep_clients (slot_send i m st) i))"
      "good_script (ep_kern (slot_send i m st)) (ec_fd (ep_clients st i))" by blast
  have "length d \<le> 1100" using td(1) length_pack_le [of m] by (metis length_append le_add2 le_trans)
  with td 3 show ?case by (simp add: ep_ready_def Let_def)
next
  case (4 j i k st n m)
  then have "ec_fd (ep_clients st j) \<noteq> ec_fd (ep_clients st i)" by (simp add: ep_ready_def Let_def)
  with 4 show ?case
    by (simp add: ep_ready_def Let_def slot_send_other slot_send_other_fd good_script_def)
next
  case (5 i m st j)
  then show ?case by (simp add: ep_online_def)
next
  case (6 n st i k)
  then have "k * 1100 \<le> n * 1100" by simp
  with 6 show ?case by (auto simp: ep_ready_def Let_def)
qed

lemma send_others_sink: "send_others skip m st = ep_sink.to_others skip m [0..<10] st"
  by (simp add: send_others_def ep_sink.to_others_def ep_online_def)

lemma ep_stream_files [simp]:
  "ep_stream (st\<lparr>ep_files := fs\<rparr>) = ep_stream st" "ep_ready n (st\<lparr>ep_files := fs\<rparr>) = ep_ready n st"
  "ep_online (st\<lparr>ep_files := fs\<rparr>) = ep_online st"
  by (simp_all add: ep_stream_def ep_ready_def ep_online_def Let_def fun_eq_iff)

lemma ep_stream_login [simp]:
  "ep_stream (login_slot s u st) = ep_stream st" "ep_ready n (login_slot s u st) = ep_ready n st"
  "ep_stream (logout_slot s st) = ep_stream st" "ep_ready n (logout_slot s st) = ep_ready n st"
  by (auto simp: ep_stream_def ep_ready_def login_slot_def logout_slot_def Let_def fun_eq_iff)

lemma ep_stream_status [simp]:
  "ep_stream (upd_client s (\<lambda>c. c\<lparr>ec_status := n\<rparr>) st) = ep_stream st"
  "ep_ready k (upd_client s (\<lambda>c. c\<lparr>ec_status := n\<rparr>) st) = ep_ready k st"
  by (auto simp: ep_stream_def ep_ready_def Let_def fun_eq_iff)

lemma ep_online_bound: "wf_epoll st \<Longrightarrow> ep_online st i \<Longrightarrow> i < 10"
  using wf_table_active by (auto simp: wf_epoll_def ep_online_def)

end
