(* ===== verification/Epoll_Loop.thy ===== *)
theory Epoll_Loop
  imports Epoll_Delivery
begin

text \<open>
  The I/O handlers and the event loop of \<open>src/chat_server_epoll.c\<close>:
  \<open>handle_read\<close> (the read loop into \<open>rbuf\<close> and the loop over its
  complete messages), \<open>handle_write\<close>, the accept branch and the dispatch of
  \<open>main\<close>, and the server as a step relation over what the network and the kernel
  do. A \<open>read\<close> returns as many of the bytes that have arrived as there is room
  for.
\<close>

subsection \<open>Reading\<close>

datatype read_res = ReadAgain | ReadDrop

text \<open>The first loop of \<open>handle_read\<close>: \<open>ReadAgain\<close> is its break on
  \<open>EAGAIN\<close>, \<open>ReadDrop\<close> each of its three disconnects.\<close>

function (sequential) read_loop ::
  "barray \<Rightarrow> int \<Rightarrow> char list \<Rightarrow> sock_end \<Rightarrow> read_res \<times> barray \<times> int \<times> char list" where
  "read_loop buf len pending fin =
     (let room = RBUF_SIZE - len
      in if room \<le> 0 then (ReadDrop, buf, len, pending)
         else if pending \<noteq> [] then
           (let n = min (nat room) (length pending)
            in read_loop (blit buf (nat len) (take n pending)) (len + int n) (drop n pending) fin)
         else if fin = SockEof then (ReadDrop, buf, len, pending)
         else if fin = SockOpen then (ReadAgain, buf, len, pending)
         else (ReadDrop, buf, len, pending))"
  by pat_completeness auto
termination
  by (relation "measure (\<lambda>(buf, len, pending, fin). length pending)") auto

declare read_loop.simps [simp del]

text \<open>A disconnect frees the slot; a send, a login or a status change leaves the
  receive buffers alone.\<close>

lemma disconnect_rbuf_len:
  "ec_rbuf_len (ep_clients (disconnect_client e s st) s) =
     (if ec_in_use (ep_clients st s) then 0 else ec_rbuf_len (ep_clients st s))"
  by (simp add: disconnect_client_def Let_def zero_client_def)

lemma slot_send_rbuf [simp]:
  "ec_rbuf (ep_clients (slot_send i m st) j) = ec_rbuf (ep_clients st j)"
  "ec_rbuf_len (ep_clients (slot_send i m st) j) = ec_rbuf_len (ep_clients st j)"
  using slot_send_frame(1) [THEN same_sessionD] by simp_all

lemma send_others_session [simp]:
  "ec_rbuf (ep_clients (send_others k m st) j) = ec_rbuf (ep_clients st j)"
  "ec_rbuf_len (ep_clients (send_others k m st) j) = ec_rbuf_len (ep_clients st j)"
  "ec_in_use (ep_clients (send_others k m st) j) = ec_in_use (ep_clients st j)"
  "ec_active (ep_clients (send_others k m st) j) = ec_active (ep_clients st j)"
  "ec_username (ep_clients (send_others k m st) j) = ec_username (ep_clients st j)"
  "ec_fd (ep_clients (send_others k m st) j) = ec_fd (ep_clients st j)"
  using send_others_frame(1) [THEN same_sessionD] by simp_all

lemma bcast_note_session [simp]:
  "ec_rbuf (ep_clients (bcast_note e k n st) j) = ec_rbuf (ep_clients st j)"
  "ec_rbuf_len (ep_clients (bcast_note e k n st) j) = ec_rbuf_len (ep_clients st j)"
  "ec_in_use (ep_clients (bcast_note e k n st) j) = ec_in_use (ep_clients st j)"
  "ec_active (ep_clients (bcast_note e k n st) j) = ec_active (ep_clients st j)"
  "ec_username (ep_clients (bcast_note e k n st) j) = ec_username (ep_clients st j)"
  "ec_fd (ep_clients (bcast_note e k n st) j) = ec_fd (ep_clients st j)"
  by (simp_all add: bcast_note_def)

lemma process_message_rbuf_len:
  "ec_rbuf_len (ep_clients (process_message e s msg st) s) = ec_rbuf_len (ep_clients st s) \<or>
   ec_rbuf_len (ep_clients (process_message e s msg st) s) = 0"
  by (auto simp: process_message_def Let_def login_slot_def logout_slot_def disconnect_rbuf_len
      split: msg_type_t.split prod.split option.split)

text \<open>The second loop of \<open>handle_read\<close>, over the complete messages of the
  buffer. After a \<open>MSG_LOGOUT\<close> the slot is zeroed and \<open>rbuf_len\<close> drops
  below zero, which ends the loop.\<close>

definition consume :: "nat \<Rightarrow> nat \<Rightarrow> epoll \<Rightarrow> epoll" where
  "consume s tot = upd_client s (\<lambda>c.
     let len = ec_rbuf_len c - int tot
     in c\<lparr>ec_rbuf_len := len,
          ec_rbuf := (if len > 0 then shift_down (ec_rbuf c) tot (nat len) else ec_rbuf c)\<rparr>)"

function msg_loop :: "env \<Rightarrow> nat \<Rightarrow> epoll \<Rightarrow> epoll" where
  "msg_loop e s st =
     (let c = ep_clients st s
      in if ec_rbuf_len c \<ge> int HEADER_SIZE then
           (let plen = unat (read_u16_be (ec_rbuf c 74) (ec_rbuf c 75))
            in if plen > MAX_PAYLOAD_LEN then disconnect_client e s st
               else if ec_rbuf_len c < int (HEADER_SIZE + plen) then st
               else
                 let tot = HEADER_SIZE + plen;
                     st1 = (case unpack_message (bslice (ec_rbuf c) 0 tot) tot of
                              None \<Rightarrow> st
                            | Some msg \<Rightarrow> process_message e s msg st)
                 in if ep_crashed st1 then st1
                    else msg_loop e s (consume s tot st1))
         else st)"
  by pat_completeness auto
termination
proof (relation "measure (\<lambda>(e, s, st). nat (ec_rbuf_len (ep_clients st s)))", goal_cases)
  case 1
  show ?case by simp
next
  case prems: (2 e s st c plen tot st1)
  have "ec_rbuf_len (ep_clients st1 s) \<le> ec_rbuf_len (ep_clients st s)"
    using prems(1,2) process_message_rbuf_len [of e s _ st] unfolding prems(7)
    by (cases "unpack_message (bslice (ec_rbuf c) 0 tot) tot") (auto, metis order_refl order_trans zero_le_numeral)
  with prems(1,2,6) show ?case by (simp add: consume_def Let_def)
qed

declare msg_loop.simps [simp del]

definition handle_read :: "env \<Rightarrow> nat \<Rightarrow> epoll \<Rightarrow> epoll" where
  "handle_read e fd st =
     (case find_by_fd st fd of
        None \<Rightarrow> st
      | Some s \<Rightarrow>
          (let c = ep_clients st s; k = ep_kern st
           in case read_loop (ec_rbuf c) (ec_rbuf_len c) (k_in k fd) (k_end k fd) of
                (r, buf, len, pending) \<Rightarrow>
                  (let st1 = upd_client s (\<lambda>c. c\<lparr>ec_rbuf_len := len, ec_rbuf := buf\<rparr>)
                               (st\<lparr>ep_kern := k\<lparr>k_in := (k_in k)(fd := pending)\<rparr>\<rparr>)
                   in case r of ReadDrop \<Rightarrow> disconnect_client e s st1
                              | ReadAgain \<Rightarrow> msg_loop e s st1)))"

definition handle_write :: "env \<Rightarrow> nat \<Rightarrow> epoll \<Rightarrow> epoll" where
  "handle_write e fd st =
     (case find_by_fd st fd of
        None \<Rightarrow> st
      | Some s \<Rightarrow>
          (case sb_flush (ec_sbuf (ep_clients st s)) fd (ep_kern st) of
             (ret, sb, k) \<Rightarrow>
               (let st1 = upd_client s (\<lambda>c. c\<lparr>ec_sbuf := sb\<rparr>) (st\<lparr>ep_kern := k\<rparr>)
                in case ret of
                     FlushError \<Rightarrow> disconnect_client e s st1
                   | FlushDone \<Rightarrow> st1\<lparr>ep_kern := epmod fd WatchIn k\<rparr>
                   | FlushPartial \<Rightarrow> st1)))"

subsection \<open>The event loop of main\<close>

text \<open>One accepted connection: descriptor \<open>cfd\<close>, the text of the peer address,
  and the blocking socket as \<open>send_message\<close> sees it when the server is full.\<close>

definition accept_one :: "env \<Rightarrow> nat \<Rightarrow> char list \<Rightarrow> wsock \<Rightarrow> epoll \<Rightarrow> epoll \<times> wsock" where
  "accept_one e cfd ip ws st =
     (case find_free st of
        None \<Rightarrow> (st, snd (send_message ws (error_reply e [] ''Server full'')))
      | Some slot \<Rightarrow>
          (let k = ep_kern st;
               k' = k\<lparr>k_interest := (k_interest k)(cfd := WatchIn), k_in := (k_in k)(cfd := []),
                      k_end := (k_end k)(cfd := SockOpen), k_out := (k_out k)(cfd := [])\<rparr>
           in (upd_client slot (\<lambda>_. zero_client\<lparr>ec_fd := cfd, ec_in_use := True,
                  ec_ip := strncpy (zeros 16) ip 16\<rparr>) (st\<lparr>ep_kern := k'\<rparr>), ws)))"

text \<open>One event of \<open>epoll_wait\<close> on a client descriptor.\<close>

definition handle_event :: "env \<Rightarrow> nat \<Rightarrow> bool \<Rightarrow> bool \<Rightarrow> bool \<Rightarrow> epoll \<Rightarrow> epoll" where
  "handle_event e fd err_hup ready_in ready_out st =
     (if err_hup then
        (case find_by_fd st fd of None \<Rightarrow> st | Some slot \<Rightarrow> disconnect_client e slot st)
      else
        let st1 = (if ready_in then handle_read e fd st else st)
        in if ep_crashed st1 then st1
           else if ready_out then handle_write e fd st1 else st1)"

definition ep_start :: "files \<Rightarrow> epoll" where
  "ep_start fs = \<lparr>ep_clients = (\<lambda>_. zero_client),
     ep_kern = \<lparr>k_in = (\<lambda>_. []), k_end = (\<lambda>_. SockOpen), k_script = (\<lambda>_. []),
               k_out = (\<lambda>_. []), k_interest = (\<lambda>_. NotWatched)\<rparr>,
     ep_files = fs, ep_crashed = False\<rparr>"

text \<open>
  The steps: the server handles an accepted connection or an event, or the world moves:
  bytes arrive, a peer ends its stream, the kernel's next write outcomes change. A fresh
  descriptor is one no slot in use has: those are the descriptors the server holds open.
\<close>

inductive ep_step :: "epoll \<Rightarrow> epoll \<Rightarrow> bool" where
  step_accept: "\<not> ep_crashed st \<Longrightarrow>
     (\<forall>i. ec_in_use (ep_clients st i) \<longrightarrow> ec_fd (ep_clients st i) \<noteq> cfd) \<Longrightarrow>
     ep_step st (fst (accept_one e cfd ip ws st))"
| step_event: "\<not> ep_crashed st \<Longrightarrow> ep_step st (handle_event e fd err_hup ready_in ready_out st)"
| step_arrive: "ep_step st (st\<lparr>ep_kern := (ep_kern st)\<lparr>
     k_in := (k_in (ep_kern st))(fd := k_in (ep_kern st) fd @ bs)\<rparr>\<rparr>)"
| step_end: "ep_step st (st\<lparr>ep_kern := (ep_kern st)\<lparr>k_end := (k_end (ep_kern st))(fd := x)\<rparr>\<rparr>)"
| step_script: "ep_step st (st\<lparr>ep_kern := (ep_kern st)\<lparr>k_script := (k_script (ep_kern st))(fd := r)\<rparr>\<rparr>)"

inductive ep_reachable :: "epoll \<Rightarrow> bool" where
  reach_start: "ep_reachable (ep_start fs)"
| reach_step: "ep_reachable st \<Longrightarrow> ep_step st st' \<Longrightarrow> ep_reachable st'"

subsection \<open>The invariant\<close>

lemma process_message_slot:
  assumes "ec_in_use (ep_clients st s)" and st': "st' = process_message e s msg st"
  shows "if ec_in_use (ep_clients st' s)
     then ec_rbuf_len (ep_clients st' s) = ec_rbuf_len (ep_clients st s)
       \<and> ec_rbuf (ep_clients st' s) = ec_rbuf (ep_clients st s)
       \<and> ec_fd (ep_clients st' s) = ec_fd (ep_clients st s) \<and> msg_type msg \<noteq> MSG_LOGOUT
     else ec_rbuf_len (ep_clients st' s) = 0 \<and> msg_type msg = MSG_LOGOUT"
  using assms(1) unfolding st'
  by (auto simp: process_message_def Let_def login_slot_def logout_slot_def disconnect_client_def zero_client_def
      split: msg_type_t.split prod.split option.split)

lemma wf_epoll_rbuf:
  assumes "wf_epoll st" "if ec_in_use (ep_clients st s) then 0 \<le> n \<and> n \<le> RBUF_SIZE else n \<le> 0"
  shows "wf_epoll (upd_client s (\<lambda>c. c\<lparr>ec_rbuf_len := n, ec_rbuf := b\<rparr>) st)"
  using assms by (auto simp: wf_epoll_def wf_table_def ep_sessions.unique_names_def ep_names_def wf_client_def
    split: if_splits)

lemma consume_alt:
  "consume s tot st = upd_client s (\<lambda>c. c\<lparr>
     ec_rbuf_len := ec_rbuf_len (ep_clients st s) - int tot,
     ec_rbuf := (let len = ec_rbuf_len (ep_clients st s) - int tot
       in if len > 0 then shift_down (ec_rbuf (ep_clients st s)) tot (nat len) else ec_rbuf (ep_clients st s))\<rparr>) st"
  by (simp add: consume_def upd_client_def Let_def)

lemma wf_consume:
  assumes "wf_epoll st" "ec_in_use (ep_clients st s) \<longrightarrow> int tot \<le> ec_rbuf_len (ep_clients st s)"
  shows "wf_epoll (consume s tot st)"
proof -
  have "wf_client (ep_clients st s)" using assms(1) by (simp add: wf_epoll_def wf_table_def)
  then show ?thesis unfolding consume_alt
    using assms by (intro wf_epoll_rbuf) (auto simp: wf_client_def split: if_splits)
qed

lemma wf_epoll_client: "wf_epoll st \<Longrightarrow> wf_client (ep_clients st s)"
  by (simp add: wf_epoll_def wf_table_def)

lemma wf_epoll_in_use: "wf_epoll st \<Longrightarrow> 0 < ec_rbuf_len (ep_clients st s) \<Longrightarrow> ec_in_use (ep_clients st s)"
  using wf_epoll_client [of st s] by (simp add: wf_client_def split: if_splits)

text \<open>One round of the loop: a message is decoded, handled when the decoding accepts
  it, and removed from the buffer.\<close>

definition msg_round :: "env \<Rightarrow> nat \<Rightarrow> nat \<Rightarrow> epoll \<Rightarrow> epoll" where
  "msg_round e s tot st =
     (case unpack_message (bslice (ec_rbuf (ep_clients st s)) 0 tot) tot of
        None \<Rightarrow> st | Some msg \<Rightarrow> process_message e s msg st)"

lemma msg_loop_round:
  assumes "plen = unat (read_u16_be (ec_rbuf (ep_clients st s) 74) (ec_rbuf (ep_clients st s) 75))"
    "int 76 \<le> ec_rbuf_len (ep_clients st s)" "plen \<le> 1024" "int (76 + plen) \<le> ec_rbuf_len (ep_clients st s)"
  shows "msg_loop e s st =
     (let st1 = msg_round e s (76 + plen) st
      in if ep_crashed st1 then st1 else msg_loop e s (consume s (76 + plen) st1))"
  unfolding msg_loop.simps [of e s st] msg_round_def
  using assms(2-4) by (simp only: assms(1) [symmetric] Let_def if_P if_not_P not_less)

lemma msg_loop_stop:
  assumes "plen = unat (read_u16_be (ec_rbuf (ep_clients st s) 74) (ec_rbuf (ep_clients st s) 75))"
    "\<not> (int 76 \<le> ec_rbuf_len (ep_clients st s) \<and> plen \<le> 1024 \<and> int (76 + plen) \<le> ec_rbuf_len (ep_clients st s))"
  shows "msg_loop e s st = st \<or> msg_loop e s st = disconnect_client e s st"
  unfolding msg_loop.simps [of e s st]
  using assms(2) by (auto simp: assms(1) [symmetric] Let_def)

lemma msg_round_slot:
  assumes "ec_in_use (ep_clients st s)" and st': "st' = msg_round e s tot st"
  shows "if ec_in_use (ep_clients st' s)
     then ec_rbuf_len (ep_clients st' s) = ec_rbuf_len (ep_clients st s)
       \<and> ec_rbuf (ep_clients st' s) = ec_rbuf (ep_clients st s)
       \<and> ec_fd (ep_clients st' s) = ec_fd (ep_clients st s)
     else ec_rbuf_len (ep_clients st' s) = 0"
  using process_message_slot [OF assms(1) refl, of e] assms(1) unfolding st' msg_round_def
  by (auto split: option.split if_splits)

lemma wf_msg_round: "wf_epoll st \<Longrightarrow> ec_in_use (ep_clients st s) \<Longrightarrow> wf_epoll (msg_round e s tot st)"
  by (auto simp: msg_round_def intro: wf_process_message split: option.split)

lemma wf_msg_loop: "wf_epoll st \<Longrightarrow> wf_epoll (msg_loop e s st)"
proof (induction "nat (ec_rbuf_len (ep_clients st s))" arbitrary: st rule: less_induct)
  case less
  let ?len = "ec_rbuf_len (ep_clients st s)"
  define plen where "plen = unat (read_u16_be (ec_rbuf (ep_clients st s) 74) (ec_rbuf (ep_clients st s) 75))"
  show ?case
  proof (cases "int 76 \<le> ?len \<and> plen \<le> 1024 \<and> int (76 + plen) \<le> ?len")
    case False
    from msg_loop_stop [OF plen_def this, of e] less.prems wf_disconnect [OF less.prems] show ?thesis by auto
  next
    case True
    define st1 where "st1 = msg_round e s (76 + plen) st"
    have use: "ec_in_use (ep_clients st s)" using wf_epoll_in_use [OF less.prems] True by simp
    have w1: "wf_epoll st1" unfolding st1_def by (rule wf_msg_round [OF less.prems use])
    note sl = msg_round_slot [OF use st1_def]
    have "wf_epoll (consume s (76 + plen) st1)"
      using sl True by (intro wf_consume [OF w1]) (auto split: if_splits)
    moreover have "nat (ec_rbuf_len (ep_clients (consume s (76 + plen) st1) s)) < nat ?len"
      using sl True by (auto simp: consume_def Let_def split: if_splits)
    ultimately show ?thesis
      using less.hyps w1 True by (simp add: msg_loop_round [OF plen_def] Let_def flip: st1_def)
  qed
qed

end
