(* ===== verification/Epoll_Frames.thy ===== *)
theory Epoll_Frames
  imports Epoll_Loop
begin

text \<open>
  What the message loop of \<open>handle_read\<close> does with the bytes of the receive
  buffer: it handles exactly the messages of the specification \<open>frames\<close>, in
  order, stops when the slot is freed, and keeps the incomplete rest.
\<close>

subsection \<open>Frames\<close>

text \<open>The specification of the framing: the messages at the front of a byte sequence, the
  incomplete rest, and whether the rest announces a payload that is too long.\<close>

function frames :: "char list \<Rightarrow> Message list \<times> char list \<times> bool" where
  "frames bs =
     (if length bs < HEADER_SIZE then ([], bs, False)
      else
        let plen = unat (read_u16_be (bs ! 74) (bs ! 75)); tot = HEADER_SIZE + plen
        in if plen > MAX_PAYLOAD_LEN then ([], bs, True)
           else if length bs < tot then ([], bs, False)
           else (case frames (drop tot bs) of
                   (ms, rest, bad) \<Rightarrow>
                     (case unpack_message (take tot bs) tot of None \<Rightarrow> ms | Some m \<Rightarrow> m # ms, rest, bad)))"
  by pat_completeness auto
termination
  by (relation "measure length") auto

declare frames.simps [simp del]

fun run_messages :: "env \<Rightarrow> nat \<Rightarrow> Message list \<Rightarrow> epoll \<Rightarrow> epoll" where
  "run_messages e s [] st = st"
| "run_messages e s (m # ms) st =
     (let st1 = process_message e s m st
      in if ep_crashed st1 \<or> \<not> ec_in_use (ep_clients st1 s) then st1 else run_messages e s ms st1)"

definition run_frames :: "env \<Rightarrow> nat \<Rightarrow> char list \<Rightarrow> epoll \<Rightarrow> epoll" where
  "run_frames e s bs st =
     (case frames bs of (ms, rest, bad) \<Rightarrow>
        let st1 = run_messages e s ms st
        in if bad \<and> \<not> ep_crashed st1 then disconnect_client e s st1 else st1)"

text \<open>A state without the receive buffer of slot \<open>s\<close>. Handling a message neither
  reads nor, but for freeing the slot, changes the buffer.\<close>

definition strip :: "nat \<Rightarrow> epoll \<Rightarrow> epoll" where
  "strip s = upd_client s (\<lambda>c. c\<lparr>ec_rbuf_len := 0, ec_rbuf := (\<lambda>_. NUL)\<rparr>)"

lemma strip_simps [simp]:
  "ep_kern (strip s st) = ep_kern st" "ep_files (strip s st) = ep_files st" "ep_crashed (strip s st) = ep_crashed st"
  "ec_in_use (ep_clients (strip s st) i) = ec_in_use (ep_clients st i)"
  "ec_active (ep_clients (strip s st) i) = ec_active (ep_clients st i)"
  "ec_fd (ep_clients (strip s st) i) = ec_fd (ep_clients st i)"
  "ec_username (ep_clients (strip s st) i) = ec_username (ep_clients st i)"
  "ec_status (ep_clients (strip s st) i) = ec_status (ep_clients st i)"
  "ec_sbuf (ep_clients (strip s st) i) = ec_sbuf (ep_clients st i)"
  by (simp_all add: strip_def)

lemma strip_kern [simp]: "strip s (st\<lparr>ep_kern := k\<rparr>) = (strip s st)\<lparr>ep_kern := k\<rparr>"
  "strip s (st\<lparr>ep_files := fs\<rparr>) = (strip s st)\<lparr>ep_files := fs\<rparr>"
  "strip s (st\<lparr>ep_crashed := b\<rparr>) = (strip s st)\<lparr>ep_crashed := b\<rparr>"
  by (simp_all add: strip_def upd_client_def)

lemma strip_push [simp]: "slot_push i d (strip s st) = strip s (slot_push i d st)"
  by (rule epoll.equality) (auto simp: strip_def intro!: ext epoll_client.equality)

lemma strip_send [simp]: "slot_send i m (strip s st) = strip s (slot_send i m st)"
  by (auto simp: slot_send_def Let_def simp flip: strip_kern strip_push split: prod.split option.split)

lemma strip_fold:
  "fold (\<lambda>i st. if i \<noteq> k \<and> ec_active (ep_clients st i) then slot_send i m st else st) xs (strip s st) =
   strip s (fold (\<lambda>i st. if i \<noteq> k \<and> ec_active (ep_clients st i) then slot_send i m st else st) xs st)"
  by (induction xs arbitrary: st) auto

lemma strip_bcast [simp]:
  "send_others k m (strip s st) = strip s (send_others k m st)"
  "bcast_note e k note (strip s st) = strip s (bcast_note e k note st)"
  by (simp_all add: send_others_def bcast_note_def strip_fold)

lemma strip_zero: "upd_client s (\<lambda>_. zero_client) (strip s st) = strip s (upd_client s (\<lambda>_. zero_client) st)"
  by (simp add: strip_def upd_client_def zero_client_def)

lemma strip_disconnect [simp]: "disconnect_client e s (strip s st) = strip s (disconnect_client e s st)"
  by (simp add: disconnect_client_def Let_def strip_zero flip: strip_kern)

lemma strip_session [simp]:
  "login_slot s u (strip s st) = strip s (login_slot s u st)"
  "logout_slot s (strip s st) = strip s (logout_slot s st)"
  "upd_client s (\<lambda>c. c\<lparr>ec_status := n\<rparr>) (strip s st) = strip s (upd_client s (\<lambda>c. c\<lparr>ec_status := n\<rparr>) st)"
  by ((rule epoll.equality; auto simp: strip_def login_slot_def logout_slot_def intro!: ext epoll_client.equality))+

lemma strip_table [simp]:
  "find_by_user (strip s st) u = find_by_user st u" "sessions (strip s st) = sessions st"
  by (simp_all add: find_by_user_def sessions_def client_table_def upt_rec numeral_eq_Suc)

lemma strip_process [simp]: "process_message e s m (strip s st) = strip s (process_message e s m st)"
  by (auto simp: process_message_def Let_def simp flip: strip_kern split: msg_type_t.split prod.split option.split)

lemma strip_idem [simp]: "strip s (strip s st) = strip s st"
  by (simp add: strip_def upd_client_def)

lemma strip_consume [simp]: "strip s (consume s tot st) = strip s st"
  by (simp add: strip_def upd_client_def consume_def Let_def)

definition rbuf_content :: "epoll \<Rightarrow> nat \<Rightarrow> char list" where
  "rbuf_content st s = bslice (ec_rbuf (ep_clients st s)) 0 (nat (ec_rbuf_len (ep_clients st s)))"

lemma length_rbuf_content [simp]: "length (rbuf_content st s) = nat (ec_rbuf_len (ep_clients st s))"
  by (simp add: rbuf_content_def)

lemma rbuf_content_nth: "int i < ec_rbuf_len (ep_clients st s) \<Longrightarrow> rbuf_content st s ! i = ec_rbuf (ep_clients st s) i"
  by (simp add: rbuf_content_def)

lemma take_rbuf_content:
  "int n \<le> ec_rbuf_len (ep_clients st s) \<Longrightarrow> take n (rbuf_content st s) = bslice (ec_rbuf (ep_clients st s)) 0 n"
proof -
  assume "int n \<le> ec_rbuf_len (ep_clients st s)"
  then have "n \<le> nat (ec_rbuf_len (ep_clients st s))" by linarith
  then show ?thesis by (simp add: rbuf_content_def take_bslice min_absorb2)
qed

text \<open>The loop in terms of the content of the buffer.\<close>

lemma msg_loop_content:
  assumes bs: "bs = rbuf_content st s"
  shows "msg_loop e s st =
    (if length bs < 76 then st
     else let plen = unat (read_u16_be (bs ! 74) (bs ! 75)); tot = 76 + plen
       in if plen > 1024 then disconnect_client e s st
          else if length bs < tot then st
          else let st1 = (case unpack_message (take tot bs) tot of None \<Rightarrow> st | Some m \<Rightarrow> process_message e s m st)
               in if ep_crashed st1 then st1 else msg_loop e s (consume s tot st1))"
proof (cases "length bs < 76")
  case True
  then have "\<not> 76 \<le> ec_rbuf_len (ep_clients st s)" by (auto simp: bs)
  with True show ?thesis by (simp add: msg_loop.simps [of e s st] Let_def)
next
  case False
  then have l: "int 76 \<le> ec_rbuf_len (ep_clients st s)" by (simp add: bs)
  then have h: "bs ! 74 = ec_rbuf (ep_clients st s) 74" "bs ! 75 = ec_rbuf (ep_clients st s) 75"
    by (simp_all add: bs rbuf_content_nth)
  have t: "take tot bs = bslice (ec_rbuf (ep_clients st s)) 0 tot" if "tot \<le> length bs" for tot
    using that l by (simp add: bs take_rbuf_content)
  have c: "(length bs < tot) = (ec_rbuf_len (ep_clients st s) < int tot)" for tot
    using l by (auto simp: bs)
  show ?thesis
    unfolding msg_loop.simps [of e s st]
    using False l t by (simp only: h Let_def if_P if_not_P not_less c [symmetric] not_le cong: if_cong)
qed

lemma consume_content:
  assumes "int tot \<le> ec_rbuf_len (ep_clients st s)"
  shows "rbuf_content (consume s tot st) s = drop tot (rbuf_content st s)"
  using assms by (auto simp: rbuf_content_def consume_def Let_def bslice_shift_down drop_bslice nat_diff_distrib)

lemma strip_in_use: "strip s a = strip s b \<Longrightarrow>
  ep_crashed a = ep_crashed b \<and> ec_in_use (ep_clients a s) = ec_in_use (ep_clients b s)"
  by (metis strip_simps(3,4))

lemma run_messages_strip: "run_messages e s ms (strip s st) = strip s (run_messages e s ms st)"
  by (induction ms arbitrary: st) (simp_all add: Let_def)

lemma run_frames_strip: "run_frames e s bs (strip s st) = strip s (run_frames e s bs st)"
  by (simp add: run_frames_def run_messages_strip Let_def split: prod.split)

lemma disconnect_free: "\<not> ec_in_use (ep_clients st s) \<Longrightarrow> disconnect_client e s st = st"
  by (simp add: disconnect_client_def Let_def)

lemma msg_loop_frames:
  assumes "wf_epoll st" "ec_in_use (ep_clients st s)" "\<not> ep_crashed st" "bs = rbuf_content st s"
  shows "strip s (msg_loop e s st) = strip s (run_frames e s bs st) \<and>
    (ec_in_use (ep_clients (msg_loop e s st) s) \<longrightarrow> \<not> ep_crashed (msg_loop e s st) \<longrightarrow>
       rbuf_content (msg_loop e s st) s = fst (snd (frames bs)))"
  using assms
proof (induction "length bs" arbitrary: st bs rule: less_induct)
  case less
  note prems = less.prems
  define plen where "plen = unat (read_u16_be (bs ! 74) (bs ! 75))"
  define tot where "tot = 76 + plen"
  consider (short) "length bs < 76" | (long) "\<not> length bs < 76" "plen > 1024"
    | (part) "\<not> length bs < 76" "\<not> plen > 1024" "length bs < tot"
    | (full) "\<not> length bs < 76" "\<not> plen > 1024" "\<not> length bs < tot" by blast
  then show ?case
  proof cases
    case short
    have "msg_loop e s st = st" using short by (simp add: msg_loop_content [OF prems(4)])
    moreover have "frames bs = ([], bs, False)" using short by (simp add: frames.simps [of bs])
    ultimately show ?thesis using prems(4) by (simp add: run_frames_def)
  next
    case long
    have "msg_loop e s st = disconnect_client e s st" using long by (simp add: msg_loop_content [OF prems(4)] plen_def)
    moreover have "frames bs = ([], bs, True)" using long by (simp add: frames.simps [of bs] plen_def Let_def)
    ultimately show ?thesis using prems
      by (simp add: run_frames_def disconnect_client_def Let_def zero_client_def)
  next
    case part
    have "msg_loop e s st = st" using part by (simp add: msg_loop_content [OF prems(4)] plen_def tot_def)
    moreover have "frames bs = ([], bs, False)" using part by (simp add: frames.simps [of bs] plen_def tot_def Let_def)
    ultimately show ?thesis using prems by (simp add: run_frames_def)
  next
    case full
    define u where "u = unpack_message (take tot bs) tot"
    define st1 where "st1 = (case u of None \<Rightarrow> st | Some m \<Rightarrow> process_message e s m st)"
    obtain ms rest bad where f: "frames (drop tot bs) = (ms, rest, bad)" by (metis prod_cases3)
    have fr: "frames bs = (case u of None \<Rightarrow> ms | Some m \<Rightarrow> m # ms, rest, bad)"
      using full f by (simp add: frames.simps [of bs] plen_def tot_def u_def Let_def)
    have ml: "msg_loop e s st = (if ep_crashed st1 then st1 else msg_loop e s (consume s tot st1))"
      using full by (simp add: msg_loop_content [OF prems(4)] plen_def tot_def st1_def u_def Let_def)
    have slot: "if ec_in_use (ep_clients st1 s)
       then ec_rbuf_len (ep_clients st1 s) = ec_rbuf_len (ep_clients st s)
         \<and> ec_rbuf (ep_clients st1 s) = ec_rbuf (ep_clients st s)
       else ec_rbuf_len (ep_clients st1 s) = 0"
      using process_message_slot [OF prems(2) refl, of e] prems(2)
      by (auto simp: st1_def split: option.split if_splits)
    have rf: "run_frames e s bs st =
        (if ep_crashed st1 \<or> \<not> ec_in_use (ep_clients st1 s) then st1 else run_frames e s (drop tot bs) st1)"
      using prems(2,3) by (cases u)
        (auto simp: run_frames_def fr f st1_def Let_def disconnect_free)
    have w1: "wf_epoll st1"
      using prems(1) wf_process_message [OF prems(1,2)] by (simp add: st1_def split: option.split)
    show ?thesis
    proof (cases "ep_crashed st1")
      case True
      then show ?thesis by (simp add: ml rf)
    next
      case nc: False
      show ?thesis
      proof (cases "ec_in_use (ep_clients st1 s)")
        case False
        have "rbuf_content (consume s tot st1) s = []"
          using slot False by (simp add: rbuf_content_def consume_def Let_def)
        then have "msg_loop e s (consume s tot st1) = consume s tot st1"
          by (simp add: msg_loop_content [OF refl])
        moreover have "\<not> ec_in_use (ep_clients (consume s tot st1) s)"
          using False by (simp add: consume_def Let_def)
        ultimately show ?thesis using nc False by (simp add: ml rf)
      next
        case True
        let ?st2 = "consume s tot st1"
        have tl: "int tot \<le> ec_rbuf_len (ep_clients st1 s)" using full slot True by (simp add: prems(4))
        have c: "drop tot bs = rbuf_content ?st2 s"
          using slot True by (simp add: consume_content [OF tl] prems(4)) (simp add: rbuf_content_def)
        have "wf_epoll ?st2" using wf_consume [OF w1] tl by blast
        moreover have "ec_in_use (ep_clients ?st2 s)" "\<not> ep_crashed ?st2"
          using True nc by (simp_all add: consume_def Let_def)
        moreover have "length (drop tot bs) < length bs" using full by (simp add: tot_def)
        ultimately have ih: "strip s (msg_loop e s ?st2) = strip s (run_frames e s (drop tot bs) ?st2) \<and>
          (ec_in_use (ep_clients (msg_loop e s ?st2) s) \<longrightarrow> \<not> ep_crashed (msg_loop e s ?st2) \<longrightarrow>
             rbuf_content (msg_loop e s ?st2) s = fst (snd (frames (drop tot bs))))"
          using less.hyps c by blast
        have "strip s (run_frames e s (drop tot bs) ?st2) = strip s (run_frames e s (drop tot bs) st1)"
          by (metis run_frames_strip strip_consume)
        with ih nc True show ?thesis by (simp add: ml rf fr f)
      qed
    qed
  qed
qed

text \<open>The frames of packed messages are the messages.\<close>

lemma frames_pack:
  assumes "valid_message m"
  shows "frames (pack_message m @ r) =
    (case frames r of (ms, rest, bad) \<Rightarrow> (pad_names m # ms, rest, bad))"
proof -
  have len: "unat (payload_len m) \<le> 1024" and lp: "length (pack_message m) = 76 + unat (payload_len m)"
    using assms length_pack_valid by (auto simp: valid_message_def)
  have "read_u16_be ((pack_message m @ r) ! 74) ((pack_message m @ r) ! 75) = payload_len m"
    by (rule pack_header(6) [OF len refl])
  moreover have "unpack_message (pack_message m) (76 + unat (payload_len m)) = Some (pad_names m)"
    using unpack_pack [OF assms, of "76 + unat (payload_len m)" "[]"] lp by simp
  ultimately show ?thesis
    using len lp by (simp add: frames.simps [of "pack_message m @ r"] Let_def split: prod.split)
qed

lemma frames_packed:
  "\<forall>m\<in>set ms. valid_message m \<Longrightarrow> frames (concat (map pack_message ms) @ r) =
     (case frames r of (ms', rest, bad) \<Rightarrow> (map pad_names ms @ ms', rest, bad))"
  by (induction ms) (auto simp: frames_pack split: prod.split)

end
