(* ===== verification/Epoll_Handlers.thy ===== *)
theory Epoll_Handlers
  imports Epoll_Frames
begin

text \<open>
  The invariants of the handlers and of the event loop of
  \<open>src/chat_server_epoll.c\<close>: \<open>handle_read\<close> in closed form, every
  handler and every step keeps \<open>wf_epoll\<close>, and every reachable state has it. A
  second invariant, \<open>ep_watched\<close>, says that a slot with queued output is
  registered for \<open>EPOLLOUT\<close>, so that no queued byte waits for ever.
\<close>

lemma blit_Nil [simp]: "blit b off [] = b"
  by (auto simp: blit_def fun_eq_iff)

text \<open>The read loop in closed form: a backlog that fills the buffer disconnects, whatever it
  holds; otherwise all that has arrived is in the buffer and the end of the stream decides.\<close>

lemma read_loop_spec:
  assumes "0 \<le> len" "len \<le> RBUF_SIZE"
  shows "read_loop buf len pending fin =
    (if RBUF_SIZE \<le> len + int (length pending)
     then (ReadDrop, blit buf (nat len) (take (nat (RBUF_SIZE - len)) pending), RBUF_SIZE,
           drop (nat (RBUF_SIZE - len)) pending)
     else (if fin = SockOpen then ReadAgain else ReadDrop, blit buf (nat len) pending,
           len + int (length pending), []))"
proof (cases "len = RBUF_SIZE")
  case True
  then show ?thesis by (simp add: read_loop.simps [of buf RBUF_SIZE])
next
  case False
  with assms(2) have room: "0 < RBUF_SIZE - len" by simp
  show ?thesis
  proof (cases "pending = []")
    case True
    with room show ?thesis by (cases fin) (simp_all add: read_loop.simps [of buf len])
  next
    case ne: False
    let ?n = "min (nat (RBUF_SIZE - len)) (length pending)"
    have step: "read_loop buf len pending fin =
        read_loop (blit buf (nat len) (take ?n pending)) (len + int ?n) (drop ?n pending) fin"
      using room ne by (subst read_loop.simps) (simp add: Let_def)
    show ?thesis
    proof (cases "RBUF_SIZE \<le> len + int (length pending)")
      case True
      then have n: "?n = nat (RBUF_SIZE - len)" by linarith
      then have "len + int ?n = RBUF_SIZE" using room by simp
      then have "read_loop b (len + int ?n) p fin = (ReadDrop, b, RBUF_SIZE, p)" for b p
        by (simp add: read_loop.simps [of b])
      then show ?thesis unfolding step using True n by simp
    next
      case False
      then have n: "?n = length pending" by linarith
      then show ?thesis unfolding step using False room
        by (cases fin) (simp_all add: read_loop.simps [of "blit buf (nat len) pending"])
    qed
  qed
qed

lemma find_by_fd_Some: "find_by_fd st fd = Some s \<Longrightarrow> s < 10 \<and> ec_in_use (ep_clients st s) \<and> ec_fd (ep_clients st s) = fd"
  by (auto simp: find_by_fd_def dest: find_slot_SomeD)

lemma find_by_fd_in_use:
  assumes "wf_epoll st" "ec_in_use (ep_clients st s)"
  shows "find_by_fd st (ec_fd (ep_clients st s)) = Some s"
proof -
  have "s < 10" using assms by (simp add: wf_epoll_def wf_table_def)
  then show ?thesis unfolding find_by_fd_def
    using assms by (intro find_slot_unique) (auto simp: wf_epoll_def wf_table_def)
qed

lemma find_free_Some: "find_free st = Some s \<Longrightarrow> s < 10 \<and> \<not> ec_in_use (ep_clients st s)"
  by (auto simp: find_free_def dest: find_slot_SomeD)

lemma find_free_None: "find_free st = None \<longleftrightarrow> (\<forall>i<10. ec_in_use (ep_clients st i))"
  by (auto simp: find_free_def find_slot_None_iff client_table_def)

lemma wf_kern:
  "wf_epoll st \<Longrightarrow> (\<And>fd. k_interest (ep_kern st) fd \<noteq> NotWatched \<Longrightarrow> k_interest k fd \<noteq> NotWatched) \<Longrightarrow>
   wf_epoll (st\<lparr>ep_kern := k\<rparr>)"
  by (simp add: wf_epoll_def wf_table_def ep_sessions.unique_names_def ep_names_def)

lemma wf_handle_read: 
  assumes w: "wf_epoll st"
  shows "wf_epoll (handle_read e fd st)"
proof (cases "find_by_fd st fd")
  case None
  with w show ?thesis by (simp add: handle_read_def)
next
  case (Some s)
  let ?c = "ep_clients st s" and ?k = "ep_kern st"
  have use: "ec_in_use ?c" using find_by_fd_Some [OF Some] by simp
  then have len: "0 \<le> ec_rbuf_len ?c" "ec_rbuf_len ?c \<le> RBUF_SIZE"
    using wf_epoll_client [OF w, of s] by (simp_all add: wf_client_def)
  obtain r buf len' pending where rl: "read_loop (ec_rbuf ?c) (ec_rbuf_len ?c) (k_in ?k fd) (k_end ?k fd) = (r, buf, len', pending)"
    by (metis prod_cases4)
  have "0 \<le> len' \<and> len' \<le> RBUF_SIZE"
    using rl len unfolding read_loop_spec [OF len] by (auto split: if_splits)
  with use have "wf_epoll (upd_client s (\<lambda>c. c\<lparr>ec_rbuf_len := len', ec_rbuf := buf\<rparr>)
      (st\<lparr>ep_kern := ?k\<lparr>k_in := (k_in ?k)(fd := pending)\<rparr>\<rparr>))"
    by (intro wf_epoll_rbuf wf_kern [OF w]) simp_all
  then show ?thesis
    using Some rl by (simp add: handle_read_def Let_def wf_disconnect wf_msg_loop split: read_res.split)
qed

lemma wf_handle_write:
  assumes w: "wf_epoll st"
  shows "wf_epoll (handle_write e fd st)"
proof (cases "find_by_fd st fd")
  case None
  with w show ?thesis by (simp add: handle_write_def)
next
  case (Some s)
  let ?sb = "ec_sbuf (ep_clients st s)"
  obtain ret sb k where fl: "sb_flush ?sb fd (ep_kern st) = (ret, sb, k)" by (metis prod_cases3)
  have sb: "wf_sb sb" using sb_flush_props [OF wf_epoll_sbuf [OF w] fl] by simp
  have k: "k_interest k = k_interest (ep_kern st)" using sb_flush_frame [OF fl] by simp
  let ?st1 = "upd_client s (\<lambda>c. c\<lparr>ec_sbuf := sb\<rparr>) (st\<lparr>ep_kern := k\<rparr>)"
  have w1: "wf_epoll ?st1"
    by (rule wf_epoll_same_sessions [OF w])
      (use sb k wf_epoll_sbuf [OF w] in \<open>auto simp: same_session_def\<close>)
  have w2: "wf_epoll (?st1\<lparr>ep_kern := epmod fd WatchIn k\<rparr>)"
    by (rule wf_kern [OF w1]) (use k in \<open>simp add: epmod_def\<close>)
  show ?thesis
    using Some fl w1 w2 by (simp add: handle_write_def Let_def wf_disconnect split: flush_res.split)
qed

lemma wf_accept:
  assumes w: "wf_epoll st" and fresh: "\<forall>i. ec_in_use (ep_clients st i) \<longrightarrow> ec_fd (ep_clients st i) \<noteq> cfd"
  shows "wf_epoll (fst (accept_one e cfd ip ws st))"
proof (cases "find_free st")
  case None
  with w show ?thesis by (simp add: accept_one_def)
next
  case (Some slot)
  note f = find_free_Some [OF Some]
  have na: "\<not> ec_active (ep_clients st slot)"
    using wf_epoll_client [OF w, of slot] f by (auto simp: wf_client_def)
  have "wf_client (zero_client\<lparr>ec_fd := cfd, ec_in_use := True, ec_ip := strncpy (zeros 16) ip 16\<rparr>)"
    by (simp add: wf_client_def zero_client_def)
  then show ?thesis
    using Some w f fresh na
    by (simp add: accept_one_def Let_def wf_epoll_def wf_table_def ep_sessions.unique_names_def ep_names_def
        zero_client_def) metis
qed

lemma wf_handle_event: "wf_epoll st \<Longrightarrow> wf_epoll (handle_event e fd err_hup ready_in ready_out st)"
  by (simp add: handle_event_def Let_def wf_handle_read wf_handle_write wf_disconnect split: option.split)

lemma wf_ep_start: "wf_epoll (ep_start fs)"
  by (simp add: ep_start_def wf_epoll_def wf_table_def ep_sessions.unique_names_def ep_names_def)
    (simp add: zero_client_def)

lemma wf_ep_step: "ep_step st st' \<Longrightarrow> wf_epoll st \<Longrightarrow> wf_epoll st'"
  by (induction rule: ep_step.induct) (auto simp: wf_accept wf_handle_event intro!: wf_kern)

lemma wf_reachable: "ep_reachable st \<Longrightarrow> wf_epoll st"
  by (induction rule: ep_reachable.induct) (auto simp: wf_ep_start wf_ep_step)

subsection \<open>Queued output is watched\<close>

definition ep_watched :: "epoll \<Rightarrow> bool" where
  "ep_watched st \<longleftrightarrow> (\<forall>i. ec_in_use (ep_clients st i) \<longrightarrow> sb_content (ec_sbuf (ep_clients st i)) \<noteq> [] \<longrightarrow>
     k_interest (ep_kern st) (ec_fd (ep_clients st i)) = WatchInOut)"

definition ep_inv :: "epoll \<Rightarrow> bool" where
  "ep_inv st \<longleftrightarrow> wf_epoll st \<and> ep_watched st"

lemma watched_slot_send:
  assumes "ep_inv st" "ec_in_use (ep_clients st i)"
  shows "ep_inv (slot_send i m st)"
proof -
  have w: "wf_epoll st" "ep_watched st" using assms(1) by (simp_all add: ep_inv_def)
  have reg: "k_interest (ep_kern st) (ec_fd (ep_clients st i)) \<noteq> NotWatched"
    using w(1) assms(2) by (simp add: wf_epoll_def wf_table_def)
  have "ep_watched (slot_send i m st)"
    unfolding ep_watched_def
  proof (intro allI impI)
    fix j
    assume use: "ec_in_use (ep_clients (slot_send i m st) j)"
      and ne: "sb_content (ec_sbuf (ep_clients (slot_send i m st) j)) \<noteq> []"
    show "k_interest (ep_kern (slot_send i m st)) (ec_fd (ep_clients (slot_send i m st) j)) = WatchInOut"
      using use ne reg w(2) unfolding ep_watched_def
      by (cases "j = i")
        (auto simp: slot_send_def Let_def epmod_def slot_send_other sb_empty_content [OF wf_epoll_sbuf [OF w(1)]]
          dest!: slot_write_frame split: prod.splits option.splits if_splits)
  qed
  then show ?thesis using w(1) by (simp add: ep_inv_def wf_slot_send)
qed

lemma watched_send_others: 
  assumes "ep_inv st"
  shows "ep_inv (send_others k m st)"
  unfolding send_others_def
proof (rule fold_invariant_on [where I = ep_inv, OF assms])
  fix i st
  assume i: "ep_inv st"
  then have "ec_active (ep_clients st i) \<Longrightarrow> ec_in_use (ep_clients st i)"
    using wf_table_active by (auto simp: ep_inv_def wf_epoll_def)
  with i show "ep_inv (if i \<noteq> k \<and> ec_active (ep_clients st i) then slot_send i m st else st)"
    by (simp add: watched_slot_send)
qed

lemma watched_bcast_note: "ep_inv st \<Longrightarrow> ep_inv (bcast_note e k note st)"
  by (simp add: bcast_note_def watched_send_others)

lemma watched_free:
  assumes "wf_epoll st" "ep_watched st" "ec_in_use (ep_clients st s)"
  shows "ep_watched (upd_client s (\<lambda>_. zero_client)
    (st\<lparr>ep_kern := (ep_kern st)\<lparr>k_interest := (k_interest (ep_kern st))(ec_fd (ep_clients st s) := NotWatched)\<rparr>\<rparr>))"
  unfolding ep_watched_def
proof (intro allI impI, goal_cases)
  case (1 i)
  then have i: "i \<noteq> s" "ec_in_use (ep_clients st i)" "sb_content (ec_sbuf (ep_clients st i)) \<noteq> []"
    by (auto simp: zero_client_def split: if_splits)
  moreover have "ec_fd (ep_clients st i) \<noteq> ec_fd (ep_clients st s)"
    using assms(1,3) i by (auto simp: wf_epoll_def wf_table_def)
  ultimately show ?case using assms(2) by (simp add: ep_watched_def)
qed

lemma watched_disconnect:
  assumes "ep_inv st"
  shows "ep_inv (disconnect_client e s st)"
proof (cases "ec_in_use (ep_clients st s)")
  case False
  with assms show ?thesis by (simp add: disconnect_client_def Let_def)
next
  case True
  let ?st1 = "if ec_active (ep_clients st s)
     then bcast_note e s (snprintf 64 (cstr (ec_username (ep_clients st s)) @ '' disconnected'')) st else st"
  have "ep_inv ?st1" using assms watched_bcast_note by simp
  moreover have "ec_in_use (ep_clients ?st1 s)" "ec_fd (ep_clients ?st1 s) = ec_fd (ep_clients st s)"
    using True by simp_all
  ultimately have "ep_watched (disconnect_client e s st)"
    using watched_free [of ?st1 s] True by (simp add: disconnect_client_def Let_def ep_inv_def)
  with assms show ?thesis by (simp add: ep_inv_def wf_disconnect)
qed

lemma watched_cong:
  assumes "\<And>i. ec_in_use (ep_clients st i) = ec_in_use (ep_clients st' i)"
    "\<And>i. ec_fd (ep_clients st i) = ec_fd (ep_clients st' i)"
    "\<And>i. ec_sbuf (ep_clients st i) = ec_sbuf (ep_clients st' i)"
    "k_interest (ep_kern st) = k_interest (ep_kern st')"
  shows "ep_watched st = ep_watched st'"
  using assms by (simp add: ep_watched_def)

lemma watched_frame [simp]:
  "ep_watched (st\<lparr>ep_files := fs\<rparr>) = ep_watched st" "ep_watched (st\<lparr>ep_crashed := b\<rparr>) = ep_watched st"
  "ep_watched (login_slot s u st) = ep_watched st" "ep_watched (logout_slot s st) = ep_watched st"
  "ep_watched (upd_client s (\<lambda>c. c\<lparr>ec_status := n\<rparr>) st) = ep_watched st"
  "ep_watched (upd_client s (\<lambda>c. c\<lparr>ec_rbuf_len := l, ec_rbuf := rb\<rparr>) st) = ep_watched st"
  by (rule watched_cong; simp add: login_slot_def logout_slot_def)+

lemma watched_set_files [simp]: "ep_inv (st\<lparr>ep_files := fs\<rparr>) = ep_inv st" "ep_inv (st\<lparr>ep_crashed := b\<rparr>) = ep_inv st"
  by (simp_all add: ep_inv_def)

lemma watched_process_message:
  assumes "ep_inv st" "ec_in_use (ep_clients st s)"
  shows "ep_inv (process_message e s msg st)"
proof -
  have w: "wf_epoll st" using assms(1) by (simp add: ep_inv_def)
  have s: "s < 10" using w assms by (simp add: wf_epoll_def wf_table_def)
  have login: "user_ok u \<Longrightarrow> find_by_user st u = None \<Longrightarrow> ep_inv (login_slot s u st)" for u
    using wf_login [OF w assms(2)] assms(1) by (simp add: ep_inv_def)
  have out: "ep_inv (logout_slot s st)" using wf_logout [OF w s] assms(1) by (simp add: ep_inv_def)
  have status: "n < 3 \<Longrightarrow> ep_inv (upd_client s (\<lambda>c. c\<lparr>ec_status := n\<rparr>) st)" for n
    using wf_set_status [OF w] assms(1) by (simp add: ep_inv_def)
  have target: "find_by_user st u = Some t \<Longrightarrow> ec_in_use (ep_clients st t)" for u t
    using wf_table_active w by (auto simp: find_by_user_def wf_epoll_def dest: find_slot_SomeD)
  have use: "ec_in_use (ep_clients (login_slot s u st) s)" for u
    using assms(2) by (simp add: login_slot_def)
  show ?thesis
    using assms login out status use target
    by (auto simp: process_message_def Let_def sscanf_user_pass_ok
        intro!: watched_slot_send watched_send_others watched_bcast_note watched_disconnect
        split: msg_type_t.split prod.split option.split)
qed

lemma watched_msg_loop:
  assumes "ep_inv st" "ec_in_use (ep_clients st s)" "\<not> ep_crashed st"
  shows "ep_inv (msg_loop e s st)"
proof -
  have run: "ep_inv (run_messages e s ms st)" if "ep_inv st" "ec_in_use (ep_clients st s)" for ms st
    using that by (induction ms arbitrary: st) (auto simp: Let_def watched_process_message)
  have "ep_inv (run_frames e s (rbuf_content st s) st)"
    using run [OF assms(1,2)] by (auto simp: run_frames_def Let_def watched_disconnect split: prod.split)
  moreover have strip: "ep_watched (strip s x) = ep_watched x" for x
    by (auto simp: ep_watched_def)
  ultimately have "ep_watched (msg_loop e s st)"
    using msg_loop_frames [OF _ assms(2,3) refl, of e] assms(1) by (metis ep_inv_def)
  with assms(1) show ?thesis by (simp add: ep_inv_def wf_msg_loop)
qed

lemma watched_kern: "k_interest k = k_interest (ep_kern st) \<Longrightarrow> ep_watched (st\<lparr>ep_kern := k\<rparr>) = ep_watched st"
  by (simp add: ep_watched_def)

lemma watched_handle_read:
  assumes i: "ep_inv st" and nc: "\<not> ep_crashed st"
  shows "ep_inv (handle_read e fd st)"
proof (cases "find_by_fd st fd")
  case None
  with i show ?thesis by (simp add: handle_read_def)
next
  case (Some s)
  let ?c = "ep_clients st s" and ?k = "ep_kern st"
  have w: "wf_epoll st" using i by (simp add: ep_inv_def)
  have use: "ec_in_use ?c" using find_by_fd_Some [OF Some] by simp
  then have len: "0 \<le> ec_rbuf_len ?c" "ec_rbuf_len ?c \<le> RBUF_SIZE"
    using wf_epoll_client [OF w, of s] by (simp_all add: wf_client_def)
  obtain r buf len' pending where rl: "read_loop (ec_rbuf ?c) (ec_rbuf_len ?c) (k_in ?k fd) (k_end ?k fd) = (r, buf, len', pending)"
    by (metis prod_cases4)
  have "0 \<le> len' \<and> len' \<le> RBUF_SIZE"
    using rl len unfolding read_loop_spec [OF len] by (auto split: if_splits)
  with use have "wf_epoll (upd_client s (\<lambda>c. c\<lparr>ec_rbuf_len := len', ec_rbuf := buf\<rparr>)
      (st\<lparr>ep_kern := ?k\<lparr>k_in := (k_in ?k)(fd := pending)\<rparr>\<rparr>))" (is "wf_epoll ?st1")
    by (intro wf_epoll_rbuf wf_kern [OF w]) simp_all
  then have i1: "ep_inv ?st1" using i by (simp add: ep_inv_def watched_kern)
  have "ec_in_use (ep_clients ?st1 s)" "\<not> ep_crashed ?st1" using use nc by simp_all
  with i1 show ?thesis
    using Some rl by (simp add: handle_read_def Let_def watched_disconnect watched_msg_loop split: read_res.split)
qed

lemma watched_handle_write:
  assumes i: "ep_inv st"
  shows "ep_inv (handle_write e fd st)"
proof (cases "find_by_fd st fd")
  case None
  with i show ?thesis by (simp add: handle_write_def)
next
  case (Some s)
  have w: "wf_epoll st" using i by (simp add: ep_inv_def)
  let ?sb = "ec_sbuf (ep_clients st s)"
  note s = find_by_fd_Some [OF Some]
  obtain ret sb k where fl: "sb_flush ?sb fd (ep_kern st) = (ret, sb, k)" by (metis prod_cases3)
  note p = sb_flush_props [OF wf_epoll_sbuf [OF w] fl]
  have k: "k_interest k = k_interest (ep_kern st)" using sb_flush_frame [OF fl] by simp
  show ?thesis
  proof (cases "ret = FlushDone")
    case True
    have "ep_watched (handle_write e fd st)"
      using i s Some fl p k True unfolding ep_inv_def ep_watched_def wf_epoll_def wf_table_def
      by (auto simp: handle_write_def Let_def epmod_def split: if_splits)
    with w show ?thesis by (simp add: ep_inv_def wf_handle_write)
  next
    case False
    have ne: "sb_content ?sb \<noteq> []"
    proof
      assume "sb_content ?sb = []"
      then have "\<not> sb_head ?sb < sb_tail ?sb" using length_sb_content [of ?sb] by simp
      with fl False show False by (simp add: sb_flush.simps [of ?sb])
    qed
    let ?st1 = "upd_client s (\<lambda>c. c\<lparr>ec_sbuf := sb\<rparr>) (st\<lparr>ep_kern := k\<rparr>)"
    have "wf_epoll ?st1"
      by (rule wf_epoll_same_sessions [OF w])
        (use p k wf_epoll_sbuf [OF w] in \<open>auto simp: same_session_def\<close>)
    moreover have "ep_watched ?st1"
      using i s k ne unfolding ep_inv_def ep_watched_def by auto
    ultimately have "ep_inv ?st1" by (simp add: ep_inv_def)
    with False show ?thesis
      using Some fl by (simp add: handle_write_def Let_def watched_disconnect split: flush_res.split)
  qed
qed

lemma watched_accept:
  assumes "ep_inv st" "\<forall>i. ec_in_use (ep_clients st i) \<longrightarrow> ec_fd (ep_clients st i) \<noteq> cfd"
  shows "ep_inv (fst (accept_one e cfd ip ws st))"
proof -
  have "ep_watched (fst (accept_one e cfd ip ws st))"
    using assms by (auto simp: ep_inv_def ep_watched_def accept_one_def Let_def zero_client_def split: option.split)
  with wf_accept [OF _ assms(2)] assms(1) show ?thesis by (simp add: ep_inv_def)
qed

lemma watched_handle_event:
  assumes "ep_inv st" "\<not> ep_crashed st"
  shows "ep_inv (handle_event e fd err_hup ready_in ready_out st)"
  using assms by (simp add: handle_event_def Let_def watched_handle_read watched_handle_write watched_disconnect
    split: option.split)

lemma ep_inv_step: "ep_step st st' \<Longrightarrow> ep_inv st \<Longrightarrow> ep_inv st'"
proof (induction rule: ep_step.induct)
  case (step_accept st cfd e ip ws)
  then show ?case by (simp add: watched_accept)
next
  case (step_event st e fd err_hup ready_in ready_out)
  then show ?case by (simp add: watched_handle_event)
qed (simp_all add: ep_inv_def watched_kern wf_kern)

lemma ep_inv_reachable: "ep_reachable st \<Longrightarrow> ep_inv st"
proof (induction rule: ep_reachable.induct)
  case (reach_start fs)
  show ?case by (simp add: ep_inv_def wf_ep_start) (simp add: ep_watched_def ep_start_def zero_client_def)
next
  case (reach_step st st')
  then show ?case using ep_inv_step by blast
qed

end
