(* ===== verification/Epoll_Effects.thy ===== *)
theory Epoll_Effects
  imports Epoll_Handlers
begin

text \<open>
  The effect of each helper of \<open>src/chat_server_epoll.c\<close> on the two
  abstractions the properties speak of: \<open>ep_names\<close>, who is logged in on which
  slot, and \<open>ep_stream\<close>, every byte committed to the client of a slot; what
  \<open>handle_read\<close> and \<open>sb_flush\<close> do as a whole; and two small concrete
  servers, one of them reached by steps, on which the properties are instantiated.
\<close>

subsection \<open>Names and streams after each helper\<close>

lemma slot_send_username [simp]: "ec_username (ep_clients (slot_send i m st) j) = ec_username (ep_clients st j)"
  using slot_send_frame(1) [THEN same_sessionD] by simp

lemma ep_names_slot_send [simp]:
  "ep_names (slot_send i m st) = ep_names st" "ep_names (send_others k m st) = ep_names st"
  "ep_names (bcast_note e k note st) = ep_names st" "ep_names (st\<lparr>ep_files := fs\<rparr>) = ep_names st"
  "ep_names (st\<lparr>ep_crashed := b\<rparr>) = ep_names st" "ep_names (st\<lparr>ep_kern := kk\<rparr>) = ep_names st"
  "ep_names (upd_client s (\<lambda>c. c\<lparr>ec_status := n\<rparr>) st) = ep_names st"
  by (simp_all add: ep_names_def fun_eq_iff)

lemma ep_names_online: "ep_names st i = None \<longleftrightarrow> \<not> ep_online st i"
  by (simp add: ep_names_def ep_online_def)

lemma ep_names_disconnect:
  "wf_epoll st \<Longrightarrow> ep_names (disconnect_client e s st) = (ep_names st)(s := None)"
  using wf_epoll_client [of st s]
  by (auto simp: disconnect_client_def Let_def ep_names_def zero_client_def fun_eq_iff wf_client_def)

lemma ep_files_ops [simp]:
  "ep_files (slot_send i m st) = ep_files st" "ep_files (send_others k m st) = ep_files st"
  "ep_files (bcast_note e k note st) = ep_files st" "ep_files (disconnect_client e s st) = ep_files st"
  "ep_files (login_slot s u st) = ep_files st" "ep_files (logout_slot s st) = ep_files st"
  by (simp_all add: slot_send_frame send_others_frame bcast_note_frame disconnect_client_def
      login_slot_def logout_slot_def Let_def)

lemma ep_crashed_ops [simp]:
  "ep_crashed (slot_send i m st) = ep_crashed st" "ep_crashed (send_others k m st) = ep_crashed st"
  "ep_crashed (bcast_note e k note st) = ep_crashed st" "ep_crashed (disconnect_client e s st) = ep_crashed st"
  "ep_crashed (login_slot s u st) = ep_crashed st" "ep_crashed (logout_slot s st) = ep_crashed st"
  by (simp_all add: slot_send_frame send_others_frame bcast_note_frame disconnect_client_def
      login_slot_def logout_slot_def Let_def)

lemma reply_stream:
  "ep_ready 1 st s \<Longrightarrow> ep_stream (slot_send s m st) j = ep_stream st j @ (if j = s then pack_message m else [])"
  using ep_sink.send_stream_same [of 0 st s m] ep_sink.send_stream_other [of j s 0 st m] by simp

text \<open>The other slots an announcement reaches are ready for it.\<close>

definition others_ready :: "epoll \<Rightarrow> nat \<Rightarrow> bool" where
  "others_ready st s \<longleftrightarrow> (\<forall>i<10. i \<noteq> s \<longrightarrow> ep_online st i \<longrightarrow> ep_ready 1 st i)"

lemma send_others_stream:
  "others_ready st s \<Longrightarrow> ep_stream (send_others s m st) j =
     ep_stream st j @ (if j < 10 \<and> j \<noteq> s \<and> ep_online st j then pack_message m else [])"
  using ep_sink.broadcast_stream [of 10 s st 0 m j] by (simp add: send_others_sink others_ready_def)

text \<open>Freeing a slot clears its stream and leaves the others'.\<close>

lemma free_stream:
  "ep_stream (upd_client s (\<lambda>_. zero_client) (st\<lparr>ep_kern := (ep_kern st)\<lparr>k_interest := w\<rparr>\<rparr>)) j =
   (if j = s then [] else ep_stream st j)"
  by (simp add: ep_stream_def Let_def zero_client_def)

lemma disconnect_stream:
  assumes "others_ready st s" "ec_in_use (ep_clients st s)"
  shows "ep_stream (disconnect_client e s st) j =
    (if j = s then []
     else ep_stream st j @
       (if ep_online st s \<and> j < 10 \<and> ep_online st j
        then pack_message (new_message (e_now e) MSG_BROADCAST ''server'' []
               (snprintf 64 (cstr (ec_username (ep_clients st s)) @ '' disconnected''))) else []))"
  using assms(2) send_others_stream [OF assms(1)]
  by (auto simp: disconnect_client_def Let_def free_stream bcast_note_def ep_online_def)

lemma names_online_less: "wf_epoll st \<Longrightarrow> ep_online st i \<longleftrightarrow> i < 10 \<and> ep_online st i"
  using ep_online_bound by blast

lemma lookup_names:
  assumes "wf_epoll st" "length u \<le> 31" "cstring u"
  shows "find_by_user st u = Some t \<longleftrightarrow> ep_names st t = Some u"
    "find_by_user st u = None \<longleftrightarrow> (\<forall>i. ep_names st i \<noteq> Some u)"
proof -
  have t: "wf_table st" and un: "ep_sessions.unique_names st" using assms(1) by (simp_all add: wf_epoll_def)
  show 1: "find_by_user st u = Some t \<longleftrightarrow> ep_names st t = Some u"
    using ep_sessions.lookup_Some [OF t assms(2,3)] ep_sessions.lookup_unique [OF t un _ assms(2,3)] by blast
  show "find_by_user st u = None \<longleftrightarrow> (\<forall>i. ep_names st i \<noteq> Some u)"
    using ep_sessions.lookup_None [OF t assms(2,3)] ep_sessions.lookup_Some [OF t assms(2,3)] by fastforce
qed

lemma lookup_cstr: "find_by_user st a = find_by_user st (cstr a)"
  by (simp add: find_by_user_def strneq_def)

subsection \<open>A concrete server for the witnesses\<close>

definition demo_env :: env where
  "demo_env = \<lparr>e_now = 7, e_disc_host = [], e_disc = (\<lambda>_. None), e_localtime = (\<lambda>_. Some ''2024-01-01 00:00:00''),
     e_appendable = (\<lambda>_. True)\<rparr>"

definition demo_client :: "nat \<Rightarrow> char list \<Rightarrow> epoll_client" where
  "demo_client fd name = zero_client\<lparr>ec_fd := fd, ec_in_use := True, ec_active := name \<noteq> [],
     ec_username := strncpy (zeros 32) name 31\<rparr>"

text \<open>Two users, al and bo, on slots 0 and 1, and a third connection that has not logged in.\<close>

definition demo :: epoll where
  "demo = \<lparr>ep_clients = (\<lambda>_. zero_client)(0 := demo_client 5 ''al'', 1 := demo_client 6 ''bo'', 2 := demo_client 7 []),
     ep_kern = \<lparr>k_in = (\<lambda>_. []), k_end = (\<lambda>_. SockOpen), k_script = (\<lambda>_. []), k_out = (\<lambda>_. []),
                k_interest = (\<lambda>_. WatchIn)\<rparr>,
     ep_files = (\<lambda>_. None), ep_crashed = False\<rparr>"

lemma demo_client_simps [simp]:
  "ec_fd (demo_client fd name) = fd" "ec_in_use (demo_client fd name)" "ec_active (demo_client fd name) = (name \<noteq> [])"
  "ec_username (demo_client fd name) = strncpy (zeros 32) name 31" "ec_sbuf (demo_client fd name) = sb_init"
  "ec_rbuf_len (demo_client fd name) = 0" "ec_status (demo_client fd name) = 0"
  "ec_active zero_client = False" "ec_in_use zero_client = False" "ec_sbuf zero_client = sb_init"
  by (simp_all add: demo_client_def zero_client_def)

lemma wf_demo_client: "name = [] \<or> user_ok name \<Longrightarrow> wf_client (demo_client fd name)"
  by (auto simp: wf_client_def user_ok_def)

lemma demo_simps [simp]:
  "ep_clients demo = (\<lambda>_. zero_client)(0 := demo_client 5 ''al'', 1 := demo_client 6 ''bo'', 2 := demo_client 7 [])"
  "k_interest (ep_kern demo) fd = WatchIn" "k_script (ep_kern demo) fd = []" "k_out (ep_kern demo) fd = []"
  "k_in (ep_kern demo) fd = []" "k_end (ep_kern demo) fd = SockOpen"
  "ep_files demo = (\<lambda>_. None)" "ep_crashed demo = False"
  by (simp_all add: demo_def)

lemma wf_demo [simp]: "wf_epoll demo"
proof -
  have u: "user_ok ''al''" "user_ok ''bo''" by (simp_all add: user_ok_def cstring_def)
  have "wf_table demo"
    unfolding wf_table_def using wf_demo_client [of "''al''"] wf_demo_client [of "''bo''"] wf_demo_client [of "[]"] u
    by (auto split: if_splits)
  moreover have "ep_sessions.unique_names demo"
    using u by (auto simp: ep_sessions.unique_names_def ep_names_def user_ok_def split: if_splits)
  ultimately show ?thesis by (simp add: wf_epoll_def)
qed

lemma demo_ready [simp]: "i \<le> 2 \<Longrightarrow> n \<le> 59 \<Longrightarrow> ep_ready n demo i"
  by (auto simp: ep_ready_def Let_def good_script_def)

lemma demo_names [simp]: "ep_names demo = [0 \<mapsto> ''al'', 1 \<mapsto> ''bo'']"
  by (auto simp: ep_names_def fun_eq_iff cstring_def)

lemma demo_others_ready [simp]: "others_ready demo s"
  by (auto simp: others_ready_def ep_online_def split: if_splits intro: demo_ready)

lemma demo_stream [simp]: "ep_stream demo j = []"
  by (simp add: ep_stream_def Let_def)

lemma demo_env_simps [simp]: "validate demo_env u p" "e_now demo_env = 7"
  by (simp_all add: validate_def demo_env_def)

lemma demo_save: "\<exists>fs. save_history demo_env a b c d f = Some fs"
  by (simp add: save_history_def demo_env_def Let_def)

lemma demo_client_access [simp]:
  "ep_clients demo 0 = demo_client 5 ''al''" "ep_clients demo (Suc 0) = demo_client 6 ''bo''"
  "ep_clients demo 2 = demo_client 7 []"
  by (simp_all add: demo_def)

lemma demo_find [simp]: "find_by_fd demo 5 = Some 0" "find_by_fd demo 7 = Some 2"
  using find_by_fd_in_use [OF wf_demo, of 0] find_by_fd_in_use [OF wf_demo, of 2] by simp_all

subsection \<open>Reading and writing\<close>

text \<open>The state in which \<open>handle_read\<close> has filled the buffer.\<close>

definition received :: "nat \<Rightarrow> nat \<Rightarrow> barray \<Rightarrow> int \<Rightarrow> char list \<Rightarrow> epoll \<Rightarrow> epoll" where
  "received s fd buf len pending st =
     upd_client s (\<lambda>c. c\<lparr>ec_rbuf_len := len, ec_rbuf := buf\<rparr>)
       (st\<lparr>ep_kern := (ep_kern st)\<lparr>k_in := (k_in (ep_kern st))(fd := pending)\<rparr>\<rparr>)"

definition drained :: "nat \<Rightarrow> epoll \<Rightarrow> epoll" where
  "drained fd st = st\<lparr>ep_kern := (ep_kern st)\<lparr>k_in := (k_in (ep_kern st))(fd := [])\<rparr>\<rparr>"

lemma received_simps [simp]:
  "ep_names (received s fd b l p st) = ep_names st" "ep_stream (received s fd b l p st) = ep_stream st"
  "ep_online (received s fd b l p st) = ep_online st" "ep_ready n (received s fd b l p st) = ep_ready n st"
  "ep_files (received s fd b l p st) = ep_files st" "ep_crashed (received s fd b l p st) = ep_crashed st"
  "ec_in_use (ep_clients (received s fd b l p st) i) = ec_in_use (ep_clients st i)"
  "ec_username (ep_clients (received s fd b l p st) i) = ec_username (ep_clients st i)"
  by (auto simp: received_def ep_names_def ep_stream_def ep_online_def ep_ready_def good_script_def Let_def fun_eq_iff)

lemma drained_simps [simp]:
  "ep_names (drained fd st) = ep_names st" "ep_stream (drained fd st) = ep_stream st"
  "ep_online (drained fd st) = ep_online st" "ep_ready n (drained fd st) = ep_ready n st"
  "ep_files (drained fd st) = ep_files st" "ep_crashed (drained fd st) = ep_crashed st"
  "ep_clients (drained fd st) = ep_clients st"
  by (auto simp: drained_def ep_names_def ep_stream_def ep_online_def ep_ready_def good_script_def Let_def fun_eq_iff)

lemma strip_received: "strip s (received s fd b l [] st) = strip s (drained fd st)"
  by (simp add: strip_def received_def drained_def upd_client_def)

lemma others_ready_received [simp]: "others_ready (received s fd b l p st) k = others_ready st k"
  by (simp add: others_ready_def)

lemma slot_len:
  assumes "wf_epoll st" "find_by_fd st fd = Some s"
  shows "0 \<le> ec_rbuf_len (ep_clients st s)" "ec_rbuf_len (ep_clients st s) \<le> RBUF_SIZE"
  using wf_epoll_client [OF assms(1), of s] find_by_fd_Some [OF assms(2)] by (simp_all add: wf_client_def)

lemma wf_received:
  "wf_epoll st \<Longrightarrow> ec_in_use (ep_clients st s) \<Longrightarrow> 0 \<le> l \<Longrightarrow> l \<le> RBUF_SIZE \<Longrightarrow> wf_epoll (received s fd b l p st)"
  unfolding received_def by (intro wf_epoll_rbuf wf_kern) simp_all

text \<open>With an open stream and room for the backlog, \<open>handle_read\<close> handles the
  frames of the bytes buffered and arrived, however they were split, and keeps the rest.\<close>

lemma handle_read_frames:
  assumes "wf_epoll st" "\<not> ep_crashed st" "find_by_fd st fd = Some s" "k_end (ep_kern st) fd = SockOpen"
    and bs: "bs = rbuf_content st s @ k_in (ep_kern st) fd" "length bs < 1116"
  shows "strip s (handle_read e fd st) = strip s (run_frames e s bs (drained fd st)) \<and>
    (ec_in_use (ep_clients (handle_read e fd st) s) \<longrightarrow> \<not> ep_crashed (handle_read e fd st) \<longrightarrow>
       rbuf_content (handle_read e fd st) s = fst (snd (frames bs)))"
proof -
  let ?c = "ep_clients st s" and ?in = "k_in (ep_kern st) fd"
  note len = slot_len [OF assms(1,3)]
  let ?st1 = "received s fd (blit (ec_rbuf ?c) (nat (ec_rbuf_len ?c)) ?in) (ec_rbuf_len ?c + int (length ?in)) [] st"
  have room: "ec_rbuf_len ?c + int (length ?in) < RBUF_SIZE" using bs len by (simp add: nat_less_iff)
  then have hr: "handle_read e fd st = msg_loop e s ?st1"
    using assms(3,4) read_loop_spec [OF len, of "ec_rbuf ?c" ?in SockOpen]
    by (simp add: handle_read_def Let_def received_def)
  have use: "ec_in_use ?c" using find_by_fd_Some [OF assms(3)] by simp
  have w1: "wf_epoll ?st1" using wf_received [OF assms(1) use] len room by simp
  have "rbuf_content ?st1 s = bs"
    using len bslice_blit_append [of 0 "nat (ec_rbuf_len ?c)" "ec_rbuf ?c" ?in]
    by (simp add: rbuf_content_def received_def bs nat_add_distrib)
  with msg_loop_frames [OF w1 _ _ refl, of s e] use assms(2)
  have "strip s (handle_read e fd st) = strip s (run_frames e s bs ?st1)"
    "ec_in_use (ep_clients (handle_read e fd st) s) \<Longrightarrow> \<not> ep_crashed (handle_read e fd st) \<Longrightarrow>
       rbuf_content (handle_read e fd st) s = fst (snd (frames bs))"
    by (simp_all add: hr)
  moreover have "strip s (run_frames e s bs ?st1) = strip s (run_frames e s bs (drained fd st))"
    by (metis run_frames_strip strip_received)
  ultimately show ?thesis by simp
qed

text \<open>In every other case it disconnects.\<close>

lemma handle_read_drop:
  assumes "wf_epoll st" "find_by_fd st fd = Some s"
    and "k_end (ep_kern st) fd \<noteq> SockOpen \<or> 1116 \<le> length (rbuf_content st s @ k_in (ep_kern st) fd)"
  shows "\<exists>b l p. handle_read e fd st = disconnect_client e s (received s fd b l p st) \<and> 0 \<le> l \<and> l \<le> RBUF_SIZE"
proof -
  let ?c = "ep_clients st s" and ?k = "ep_kern st"
  note len = slot_len [OF assms(1,2)]
  obtain r b l p where rl: "read_loop (ec_rbuf ?c) (ec_rbuf_len ?c) (k_in ?k fd) (k_end ?k fd) = (r, b, l, p)"
    by (metis prod_cases4)
  have "r = ReadDrop" "0 \<le> l" "l \<le> RBUF_SIZE"
    using rl assms(3) len unfolding read_loop_spec [OF len] by (auto split: if_splits)
  with assms(2) rl show ?thesis by (auto simp: handle_read_def Let_def received_def)
qed

lemma sb_flush_complete:
  assumes "good_script k fd" "NbAgain \<notin> set (k_script k fd)" "sb_flush sb fd k = (r, sb', k')"
  shows "r = FlushDone"
  using assms
proof (induction sb fd k rule: sb_flush.induct)
  case (1 sb fd k)
  obtain o1 k1 where w: "nb_write fd (bslice (sb_buf sb) (sb_head sb) (sb_tail sb)) k = (o1, k1)" by fastforce
  show ?case
  proof (cases "sb_head sb < sb_tail sb")
    case False
    with "1.prems" show ?thesis by (simp add: sb_flush.simps [of sb])
  next
    case True
    with "1.prems" have "\<exists>n>0. o1 = NbWrote n" using w
      by (auto simp: nb_write_def good_script_def simp flip: length_greater_0_conv split: list.splits nb_res.splits)
    then obtain n where n: "o1 = NbWrote n" "n > 0" by blast
    have s: "set (k_script k1 fd) \<subseteq> set (k_script k fd)" using nb_write_Wrote(4) w n by blast
    with "1.prems" have "good_script k1 fd" "NbAgain \<notin> set (k_script k1 fd)" by (auto simp: good_script_def)
    with "1.IH" [OF True w [symmetric] n] "1.prems"(3) True w n show ?thesis
      by (simp add: sb_flush.simps [of sb])
  qed
qed

subsection \<open>The concrete server with a queued byte\<close>

definition demo_queued :: epoll where
  "demo_queued = upd_client 0 (\<lambda>c. c\<lparr>ec_sbuf := fst (sb_push sb_init ''x'')\<rparr>) demo"

lemma demo_queued_sbuf:
  "wf_sb (ec_sbuf (ep_clients demo_queued 0))" "sb_content (ec_sbuf (ep_clients demo_queued 0)) = ''x''"
  using sb_push_fits [of sb_init "''x''"] by (simp_all add: demo_queued_def)

lemma demo_queued_simps [simp]:
  "sb_content (ec_sbuf (ep_clients demo_queued 0)) = ''x''" "ec_in_use (ep_clients demo_queued 0)"
  "ec_fd (ep_clients demo_queued 0) = 5" "k_out (ep_kern demo_queued) fd = []"
  using demo_queued_sbuf(2) by (simp_all add: demo_queued_def)

lemma wf_demo_queued [simp]: "wf_epoll demo_queued"
proof (rule wf_epoll_same_sessions [OF wf_demo])
  fix j
  show "same_session (ep_clients demo j) (ep_clients demo_queued j)"
    by (simp add: demo_queued_def same_session_def)
  show "wf_sb (ec_sbuf (ep_clients demo_queued j))"
    using demo_queued_sbuf(1) wf_epoll_sbuf [OF wf_demo, of j] by (cases "j = 0") (simp_all add: demo_queued_def)
qed (simp add: demo_queued_def)

subsection \<open>A reachable server with output waiting\<close>

definition demo_accepted :: epoll where
  "demo_accepted = fst (accept_one demo_env 5 [] \<lparr>w_out = [], w_script = []\<rparr> (ep_start (\<lambda>_. None)))"

text \<open>One message \<open>m\<close> has arrived, and \<open>r\<close> are the coming write
  outcomes; then the event is handled.\<close>

definition demo_asked :: "Message \<Rightarrow> nb_res list \<Rightarrow> epoll" where
  "demo_asked m r = demo_accepted\<lparr>ep_kern := (ep_kern demo_accepted)\<lparr>
     k_in := (\<lambda>_. [])(5 := pack_message m), k_script := (\<lambda>_. [])(5 := r)\<rparr>\<rparr>"

definition demo_after :: "Message \<Rightarrow> nb_res list \<Rightarrow> epoll" where
  "demo_after m r = handle_event demo_env 5 False True False (demo_asked m r)"

lemma start_find_free: "find_free (ep_start fs) = Some 0"
  by (simp add: find_free_def client_table_def ep_start_def upt_rec)

lemma demo_accepted_simps [simp]:
  "ep_clients demo_accepted = (\<lambda>_. zero_client)(0 := zero_client\<lparr>ec_fd := 5, ec_in_use := True, ec_ip := strncpy (zeros 16) [] 16\<rparr>)"
  "k_in (ep_kern demo_accepted) = (\<lambda>_. [])" "k_end (ep_kern demo_accepted) fd = SockOpen"
  "k_script (ep_kern demo_accepted) = (\<lambda>_. [])" "k_out (ep_kern demo_accepted) fd = []"
  "k_interest (ep_kern demo_accepted) 5 = WatchIn" "ep_crashed demo_accepted = False"
  by (auto simp: demo_accepted_def accept_one_def start_find_free Let_def) (simp_all add: ep_start_def fun_upd_idem_iff)

lemma demo_asked_simps [simp]:
  "ep_clients (demo_asked m r) = ep_clients demo_accepted" "ep_crashed (demo_asked m r) = False"
  "k_in (ep_kern (demo_asked m r)) 5 = pack_message m" "k_end (ep_kern (demo_asked m r)) 5 = SockOpen"
  "k_script (ep_kern (demo_asked m r)) 5 = r" "k_out (ep_kern (demo_asked m r)) 5 = []"
  by (simp_all add: demo_asked_def)

lemma reachable_accepted: "ep_reachable demo_accepted"
  unfolding demo_accepted_def
  by (rule reach_step [OF reach_start], rule step_accept) (simp_all add: ep_start_def)

lemma reachable_asked: "ep_reachable (demo_asked m r)"
proof -
  let ?p = "pack_message m"
  let ?st = "demo_accepted\<lparr>ep_kern := (ep_kern demo_accepted)\<lparr>
     k_in := (k_in (ep_kern demo_accepted))(5 := k_in (ep_kern demo_accepted) 5 @ ?p)\<rparr>\<rparr>"
  have "demo_asked m r = ?st\<lparr>ep_kern := (ep_kern ?st)\<lparr>k_script := (k_script (ep_kern ?st))(5 := r)\<rparr>\<rparr>"
    by (simp add: demo_asked_def)
  then show ?thesis
    using reach_step [OF reach_step [OF reachable_accepted step_arrive [of _ 5 ?p]] step_script [of _ 5 r]]
    by simp
qed

lemma reachable_after: "ep_reachable (demo_after m r)"
  unfolding demo_after_def
  by (rule reach_step [OF reachable_asked], rule step_event) simp

lemma demo_after_process:
  assumes v: "valid_message m"
  shows "strip 0 (demo_after m r) = strip 0 (process_message demo_env 0 (pad_names m) (drained 5 (demo_asked m r)))"
proof -
  have w: "wf_epoll (demo_asked m r)" by (rule wf_reachable [OF reachable_asked])
  have f: "find_by_fd (demo_asked m r) 5 = Some 0" using find_by_fd_in_use [OF w, of 0] by simp
  have b: "rbuf_content (demo_asked m r) 0 @ k_in (ep_kern (demo_asked m r)) 5 = pack_message m"
    by (simp add: rbuf_content_def zero_client_def)
  have fr: "frames (pack_message m) = ([pad_names m], [], False)"
    using frames_pack [OF v, of "[]"] by (simp add: frames.simps [of "[]"])
  have "demo_after m r = handle_read demo_env 5 (demo_asked m r)"
    by (simp add: demo_after_def handle_event_def Let_def)
  moreover have "length (pack_message m) < 1116" using length_pack_le [of m] by linarith
  ultimately show ?thesis
    using handle_read_frames [OF w _ f _ b [symmetric], of demo_env] fr
    by (simp add: run_frames_def Let_def del: length_pack_message cong: if_cong)
qed

text \<open>A user list is asked for while the socket takes nothing: the answer is queued.\<close>

definition demo_stalled :: epoll where
  "demo_stalled = demo_after (new_message 9 MSG_LIST_USERS [] [] []) [NbAgain]"

lemma reachable_stalled: "ep_reachable demo_stalled"
  by (simp add: demo_stalled_def reachable_after)

lemma demo_stalled_queue:
  "ec_in_use (ep_clients demo_stalled 0)" "sb_content (ec_sbuf (ep_clients demo_stalled 0)) \<noteq> []"
proof -
  let ?m = "new_message 9 MSG_LIST_USERS [] [] []"
  let ?d = "drained 5 (demo_asked ?m [NbAgain])"
  have v: "valid_message ?m" using wf_make_message by (simp add: wf_message_def)
  obtain r where "process_message demo_env 0 (pad_names ?m) ?d = slot_send 0 r ?d"
    by (simp add: process_message_def Let_def pad_names_def)
  then have st: "strip 0 demo_stalled = strip 0 (slot_send 0 r ?d)"
    using demo_after_process [OF v, of "[NbAgain]"] by (simp add: demo_stalled_def)
  let ?wire = "pack_message r"
  have sc: "k_script (ep_kern ?d) 5 = [NbAgain]" by (simp add: drained_def)
  have "slot_write 5 ?wire 0 (ep_kern ?d) = (Some 0, (ep_kern ?d)\<lparr>k_script := (k_script (ep_kern ?d))(5 := [])\<rparr>)"
    using sc by (simp add: slot_write.simps [of 5 ?wire 0] nb_write_def del: length_pack_message)
  then have "sb_content (ec_sbuf (ep_clients (slot_send 0 r ?d) 0)) = ?wire"
    using sb_push_fits [of sb_init ?wire] length_pack_le [of r]
    by (simp add: slot_send_def Let_def sb_empty_content del: length_pack_message)
  moreover have "ec_in_use (ep_clients (slot_send 0 r ?d) 0)" by simp
  ultimately show "ec_in_use (ep_clients demo_stalled 0)" "sb_content (ec_sbuf (ep_clients demo_stalled 0)) \<noteq> []"
    using st pack_not_Nil by (metis strip_simps(4), metis strip_simps(9))
qed

text \<open>A login on the new connection.\<close>

lemma login_payload: "sscanf_user_pass (payload (pad_names (new_message 9 MSG_LOGIN ''cy'' ''server'' ''cy:pw''))) = (2, ''cy'', ''pw'')"
  (is "sscanf_user_pass (payload (pad_names ?m)) = _")
proof -
  have "sscanf_user_pass (payload ?m) = sscanf_user_pass ''cy:pw''"
    using sscanf_cstr(1) [of "payload ?m"] by (simp del: sscanf_cstr)
  then show ?thesis
    using sscanf_login_roundtrip [of "''cy''" "''pw''"]
    by (simp add: user_ok_def word_ok_def is_space_def pad_names_def)
qed

lemma reachable_logged_in: "ep_names (demo_after (new_message 9 MSG_LOGIN ''cy'' ''server'' ''cy:pw'') []) 0 = Some ''cy''"
proof -
  let ?m = "new_message 9 MSG_LOGIN ''cy'' ''server'' ''cy:pw''"
  let ?d = "drained 5 (demo_asked ?m [])"
  have v: "valid_message ?m" using wf_make_message by (simp add: wf_message_def)
  have w: "wf_table ?d"
    using wf_kern [OF wf_reachable [OF reachable_asked [of ?m "[]"]]] by (simp add: drained_def wf_epoll_def)
  have "find_by_user ?d ''cy'' = None"
    by (simp add: find_by_user_def find_slot_None_iff client_table_def zero_client_def)
  then have "process_message demo_env 0 (pad_names ?m) ?d =
      slot_send 0 (server_reply demo_env MSG_ACK ''cy'' ''Login successful'') (login_slot 0 ''cy'' ?d)"
    using login_payload by (simp add: process_message_def Let_def pad_names_def)
  moreover have "ep_names (login_slot 0 ''cy'' ?d) 0 = Some ''cy''"
    using ep_sessions.login_names [OF w, of 0 "''cy''"] by (simp add: user_ok_def)
  moreover have "ep_names (strip 0 x) = ep_names x" for x by (simp add: ep_names_def fun_eq_iff)
  ultimately show ?thesis using demo_after_process [OF v, of "[]"] by (metis ep_names_slot_send(1))
qed

end
