(* ===== verification/Epoll_Properties.thy ===== *)
theory Epoll_Properties
  imports Epoll_Effects
begin

text \<open>
  The properties of the epoll server: what each message type does to the sessions, the
  clients' output streams and the history files, how a connection ends, what the read and
  write handlers do with the bytes, and the invariants of every reachable state.
\<close>

section \<open>Logging in\<close>

text \<open>In every well-formed state, a \<open>MSG_LOGIN\<close> on a connection logs the
  user in exactly when the payload parses, nobody is online under that name and the
  credential check accepts; the slot is then the user's. Otherwise nobody's session
  changes. The client gets exactly one reply, the acknowledgement or the error that
  names the first check that failed, and no other client gets a byte.\<close>
theorem login_outcome:
  assumes "wf_epoll st" "ec_in_use (ep_clients st s)" "ep_ready 1 st s" "msg_type msg = MSG_LOGIN"
    and parse: "sscanf_user_pass (payload msg) = (n, u, p)"
    and taken: "taken = (\<exists>i. ep_names st i = Some u)"
    and ok: "ok = (n = 2 \<and> \<not> taken \<and> validate e u p)"
    and reply: "reply = (if ok then server_reply e MSG_ACK u ''Login successful''
      else if n \<noteq> 2 then error_reply e [] ''Bad login format''
      else error_reply e u (if taken then ''Already logged in'' else ''Invalid credentials''))"
  shows "ep_names (process_message e s msg st) = (if ok then (ep_names st)(s \<mapsto> u) else ep_names st) \<and>
    ep_stream (process_message e s msg st) j = ep_stream st j @ (if j = s then pack_message reply else []) \<and>
    ep_files (process_message e s msg st) = ep_files st"
proof (cases "n = 2")
  case False
  with assms show ?thesis by (simp add: process_message_def Let_def reply_stream)
next
  case True
  have u: "user_ok u" using parse True sscanf_user_pass_ok by blast
  then have l: "length u \<le> 31" "cstring u" by (auto simp: user_ok_def)
  have t: "wf_table st" "s < 10" using assms(1,2) by (simp_all add: wf_epoll_def wf_table_def)
  have "find_by_user st u = None \<longleftrightarrow> \<not> taken" using lookup_names(2) [OF assms(1) l] taken by auto
  then consider "taken" "\<exists>i. find_by_user st u = Some i" | "\<not> taken" "find_by_user st u = None" by auto
  then show ?thesis
  proof cases
    case 1
    with assms(2-5) ok reply True show ?thesis by (auto simp: process_message_def Let_def reply_stream)
  next
    case 2
    with assms(2-5) ok reply True ep_sessions.login_names [OF t u] show ?thesis
      by (simp add: process_message_def Let_def reply_stream)
  qed
qed

theorem login_outcome_witness:
  "ep_names (process_message demo_env 2 (new_message 9 MSG_LOGIN ''cy'' ''server'' ''cy:pw'') demo)
     = [0 \<mapsto> ''al'', 1 \<mapsto> ''bo'', 2 \<mapsto> ''cy'']
   \<and> ep_stream (process_message demo_env 2 (new_message 9 MSG_LOGIN ''cy'' ''server'' ''cy:pw'') demo) 2
     = pack_message (server_reply demo_env MSG_ACK ''cy'' ''Login successful'')"
proof -
  let ?m = "new_message 9 MSG_LOGIN ''cy'' ''server'' ''cy:pw''"
  have "sscanf_user_pass (payload ?m) = sscanf_user_pass ''cy:pw''"
    using sscanf_cstr(1) [of "payload ?m"] by (simp del: sscanf_cstr)
  then have p: "sscanf_user_pass (payload ?m) = (2, ''cy'', ''pw'')"
    using sscanf_login_roundtrip [of "''cy''" "''pw''"] by (simp add: user_ok_def word_ok_def is_space_def)
  show ?thesis
    using login_outcome [OF _ _ _ _ p, of demo 2 False True demo_env _ 2] by simp
qed

section \<open>Routing\<close>



text \<open>A \<open>MSG_PRIVATE\<close> of a logged-in client to an online user reaches that
  user once and nobody else; the sender gets exactly the acknowledgement (after the message,
  when he writes to himself) and the exchange is in his history file.\<close>
theorem private_outcome:
  assumes "wf_epoll st" "ec_active (ep_clients st s)" "msg_type msg = MSG_PRIVATE" "valid_message msg"
    and "ep_names st t = Some (cstr (receiver msg))" "ep_ready 2 st t" "ep_ready 2 st s"
    and hist: "save_history e (sender msg) (receiver msg) (payload msg) (timestamp msg) (ep_files st) = Some fs"
  shows "ep_stream (process_message e s msg st) j =
      ep_stream st j @ (if j = t then pack_message msg else [])
        @ (if j = s then pack_message (server_reply e MSG_ACK (sender msg) []) else []) \<and>
    ep_files (process_message e s msg st) = fs \<and> ep_names (process_message e s msg st) = ep_names st"
proof -
  have l: "length (cstr (receiver msg)) \<le> 31" "cstring (cstr (receiver msg))"
    using assms(4) length_cstr_terminated by (auto simp: valid_message_def)
  have "find_by_user st (receiver msg) = Some t"
    using lookup_names(1) [OF assms(1) l] assms(5) lookup_cstr by simp
  with assms ep_sink.private_and_ack [of 0 "st\<lparr>ep_files := fs\<rparr>" t 0 s "server_reply e MSG_ACK (sender msg) []" msg j]
  show ?thesis by (simp add: process_message_def Let_def numeral_2_eq_2)
qed

theorem private_outcome_witness:
  "ep_stream (process_message demo_env 0 (new_message 9 MSG_PRIVATE ''al'' ''bo'' ''hi'') demo) 1
     = pack_message (new_message 9 MSG_PRIVATE ''al'' ''bo'' ''hi'')
   \<and> ep_stream (process_message demo_env 0 (new_message 9 MSG_PRIVATE ''al'' ''bo'' ''hi'') demo) 2 = []"
proof -
  let ?m = "new_message 9 MSG_PRIVATE ''al'' ''bo'' ''hi''"
  have v: "valid_message ?m" using wf_make_message by (simp add: wf_message_def)
  obtain fs where "save_history demo_env (sender ?m) (receiver ?m) (payload ?m) (timestamp ?m) (ep_files demo) = Some fs"
    using demo_save by blast
  note b = private_outcome [OF wf_demo _ _ v _ _ _ this, where s = 0 and t = 1]
  show ?thesis using b [of 1] b [of 2] by simp
qed

text \<open>A private message to a name nobody is online under changes no session and no
  history file; its sender gets the error reply and nobody else a byte.\<close>
theorem private_offline:
  assumes "wf_epoll st" "ec_active (ep_clients st s)" "msg_type msg = MSG_PRIVATE" "valid_message msg"
    and "\<forall>i. ep_names st i \<noteq> Some (cstr (receiver msg))" "ep_ready 1 st s"
  shows "ep_stream (process_message e s msg st) j =
      ep_stream st j @ (if j = s then pack_message (error_reply e (sender msg) ''User not online'') else []) \<and>
    ep_files (process_message e s msg st) = ep_files st \<and> ep_names (process_message e s msg st) = ep_names st"
proof -
  have l: "length (cstr (receiver msg)) \<le> 31" "cstring (cstr (receiver msg))"
    using assms(4) length_cstr_terminated by (auto simp: valid_message_def)
  have "find_by_user st (receiver msg) = None"
    using lookup_names(2) [OF assms(1) l] assms(5) lookup_cstr by simp
  with assms show ?thesis by (simp add: process_message_def Let_def reply_stream)
qed

theorem private_offline_witness:
  "ep_stream (process_message demo_env 0 (new_message 9 MSG_PRIVATE ''al'' ''zoe'' ''hi'') demo) 0
     = pack_message (error_reply demo_env (sender (new_message 9 MSG_PRIVATE ''al'' ''zoe'' ''hi'')) ''User not online'')"
proof -
  let ?m = "new_message 9 MSG_PRIVATE ''al'' ''zoe'' ''hi''"
  have v: "valid_message ?m" using wf_make_message by (simp add: wf_message_def)
  show ?thesis using private_offline [OF wf_demo _ _ v, where s = 0 and j = 0 and e = demo_env] by simp
qed

text \<open>A connection that has not logged in can neither broadcast nor write to anybody:
  its attempt changes no session and no history file, and only it gets a reply, the
  error.\<close>
theorem unauthenticated_refused:
  assumes "\<not> ec_active (ep_clients st s)" "msg_type msg = MSG_BROADCAST \<or> msg_type msg = MSG_PRIVATE"
    and "ep_ready 1 st s"
  shows "ep_stream (process_message e s msg st) j =
      ep_stream st j @ (if j = s then pack_message (error_reply e [] ''Not authenticated'') else []) \<and>
    ep_files (process_message e s msg st) = ep_files st \<and> ep_names (process_message e s msg st) = ep_names st"
  using assms by (auto simp: process_message_def Let_def reply_stream)

theorem unauthenticated_refused_witness:
  "ep_stream (process_message demo_env 2 (new_message 9 MSG_BROADCAST ''al'' [] ''hi'') demo) 1 = []"
  using unauthenticated_refused [of demo 2 "new_message 9 MSG_BROADCAST ''al'' [] ''hi''" demo_env 1] by simp

section \<open>Leaving\<close>

text \<open>A \<open>MSG_LOGOUT\<close> frees the slot: its user is offline, its connection is
  closed, every other session stays, and every other online user gets exactly one notice
  that carries the name. The notice of \<open>disconnect_client\<close> is not sent in
  addition.\<close>
theorem logout_outcome:
  assumes "wf_epoll st" "ec_in_use (ep_clients st s)" "msg_type msg = MSG_LOGOUT" "others_ready st s"
    and note_def: "note = cstr (ec_username (ep_clients st s)) @ '' left''"
  shows "ep_names (process_message e s msg st) = (ep_names st)(s := None) \<and>
    \<not> ec_in_use (ep_clients (process_message e s msg st) s) \<and>
    (j \<noteq> s \<longrightarrow> ep_stream (process_message e s msg st) j = ep_stream st j @
      (if ep_names st j \<noteq> None then pack_message (new_message (e_now e) MSG_BROADCAST ''server'' [] note) else []))"
proof -
  have s: "s < 10" and t: "wf_table st" using assms(1,2) by (simp_all add: wf_epoll_def wf_table_def)
  have n: "snprintf 64 note = note" using wf_table_name [OF t, of s] by (simp add: snprintf_def note_def)
  let ?st1 = "bcast_note e s note (logout_slot s st)"
  have pm: "process_message e s msg st = disconnect_client e s ?st1"
    using assms(3) n by (simp add: process_message_def Let_def note_def)
  have w: "wf_epoll ?st1" using wf_logout [OF assms(1) s] by (rule wf_bcast_note)
  have off: "\<not> ec_active (ep_clients ?st1 s)" and use: "ec_in_use (ep_clients ?st1 s)"
    using assms(2) by (simp_all add: logout_slot_def)
  have onl: "i \<noteq> s \<Longrightarrow> ep_online (logout_slot s st) i = ep_online st i" for i
    by (simp add: ep_online_def logout_slot_def)
  have names: "ep_names (process_message e s msg st) = (ep_names st)(s := None)"
    using ep_names_disconnect [OF w] ep_sessions.logout_names [OF t s] by (simp add: pm)
  have freed: "\<not> ec_in_use (ep_clients (process_message e s msg st) s)"
    by (simp add: pm disconnect_client_def Let_def zero_client_def)
  have "others_ready (logout_slot s st) s" using assms(4) onl by (auto simp: others_ready_def)
  from send_others_stream [OF this] have str: "j \<noteq> s \<Longrightarrow> ep_stream ?st1 j = ep_stream st j @
      (if j < 10 \<and> ep_online st j then pack_message (new_message (e_now e) MSG_BROADCAST ''server'' [] note) else [])"
    using onl by (simp add: bcast_note_def)
  have "j \<noteq> s \<Longrightarrow> ep_stream (process_message e s msg st) j = ep_stream ?st1 j"
    using off use by (simp add: pm disconnect_client_def Let_def free_stream)
  with names freed str ep_online_bound [OF assms(1), of j] show ?thesis
    by (auto simp: ep_names_online)
qed

theorem logout_outcome_witness:
  "ep_names (process_message demo_env 0 (new_message 9 MSG_LOGOUT ''al'' ''server'' ''Bye'') demo) = [1 \<mapsto> ''bo'']
   \<and> ep_stream (process_message demo_env 0 (new_message 9 MSG_LOGOUT ''al'' ''server'' ''Bye'') demo) 1
     = pack_message (new_message 7 MSG_BROADCAST ''server'' [] ''al left'')"
  using logout_outcome [OF wf_demo _ _ demo_others_ready refl, of 0
      "new_message 9 MSG_LOGOUT ''al'' ''server'' ''Bye''" demo_env 1] by simp

text \<open>C28: However a connection ends (end of file, a socket error, \<open>EPOLLHUP\<close>, an
  overfull receive buffer, an announced payload that is too long), its slot is freed and
  its user goes offline; the other online users get one notice if the slot was logged in,
  and nothing otherwise.\<close>
theorem disconnect_outcome:
  assumes "wf_epoll st" "ec_in_use (ep_clients st s)" "others_ready st s"
    and note_def: "note = cstr (ec_username (ep_clients st s)) @ '' disconnected''"
  shows "ep_names (disconnect_client e s st) = (ep_names st)(s := None) \<and>
    \<not> ec_in_use (ep_clients (disconnect_client e s st) s) \<and>
    (j \<noteq> s \<longrightarrow> ep_stream (disconnect_client e s st) j = ep_stream st j @
      (if ep_names st s \<noteq> None \<and> ep_names st j \<noteq> None
       then pack_message (new_message (e_now e) MSG_BROADCAST ''server'' [] note) else []))"
proof -
  have t: "wf_table st" using assms(1) by (simp add: wf_epoll_def)
  have n: "snprintf 64 note = note" using wf_table_name [OF t, of s] by (simp add: snprintf_def note_def)
  have "\<not> ec_in_use (ep_clients (disconnect_client e s st) s)"
    by (simp add: disconnect_client_def Let_def zero_client_def)
  with disconnect_stream [OF assms(3,2), of e j] ep_names_disconnect [OF assms(1), of e s] n
    ep_online_bound [OF assms(1), of j]
  show ?thesis by (auto simp: ep_names_online note_def)
qed

theorem disconnect_outcome_witness:
  "ep_names (disconnect_client demo_env 0 demo) = [1 \<mapsto> ''bo'']
   \<and> ep_stream (disconnect_client demo_env 0 demo) 1
     = pack_message (new_message 7 MSG_BROADCAST ''server'' [] ''al disconnected'')"
  using disconnect_outcome [OF wf_demo _ demo_others_ready refl, of 0 demo_env 1] by simp

section \<open>Reading\<close>

text \<open>With an open stream, \<open>handle_read\<close> handles exactly the complete
  messages among the bytes buffered before and the bytes that have arrived, in their order
  and each once, whatever the boundaries of the reads, and keeps the incomplete rest for
  the next call. It stops early only when a message frees the slot. This needs the backlog
  to be smaller than the 1116-byte buffer. \<open>strip\<close> hides the buffer itself.\<close>
theorem read_handles_messages_in_order:
  assumes "wf_epoll st" "\<not> ep_crashed st" "find_by_fd st fd = Some s" "k_end (ep_kern st) fd = SockOpen"
    and bytes: "rbuf_content st s @ k_in (ep_kern st) fd = concat (map pack_message ms) @ rest"
    and "\<forall>m\<in>set ms. valid_message m" "frames rest = ([], rest, False)"
    and "length (concat (map pack_message ms) @ rest) < 1116"
  shows "strip s (handle_read e fd st) = strip s (run_messages e s (map pad_names ms) (drained fd st)) \<and>
    (ec_in_use (ep_clients (handle_read e fd st) s) \<and> \<not> ep_crashed (handle_read e fd st)
       \<longrightarrow> rbuf_content (handle_read e fd st) s = rest)"
  using handle_read_frames [OF assms(1-4) bytes [symmetric]] assms(8) frames_packed [OF assms(6), of rest] assms(7)
  by (simp add: run_frames_def Let_def)

theorem read_handles_messages_in_order_witness:
  "strip 2 (handle_read demo_env 7 (demo\<lparr>ep_kern := (ep_kern demo)\<lparr>k_in := (\<lambda>_. [])(7 :=
       pack_message (new_message 9 MSG_LIST_USERS ''cy'' [] []) @ ''xy'')\<rparr>\<rparr>))
   = strip 2 (run_messages demo_env 2 [pad_names (new_message 9 MSG_LIST_USERS ''cy'' [] [])] demo)"
proof -
  let ?m = "new_message 9 MSG_LIST_USERS ''cy'' [] []"
  let ?st = "demo\<lparr>ep_kern := (ep_kern demo)\<lparr>k_in := (\<lambda>_. [])(7 := pack_message ?m @ ''xy'')\<rparr>\<rparr>"
  have v: "valid_message ?m" using wf_make_message by (simp add: wf_message_def)
  have w: "wf_epoll ?st" by (rule wf_kern) simp_all
  have f: "find_by_fd ?st 7 = Some 2" using find_by_fd_in_use [OF w, of 2] by simp
  have c: "rbuf_content ?st 2 = []" by (simp add: rbuf_content_def)
  have d: "drained 7 ?st = demo" by (simp add: drained_def demo_def fun_eq_iff)
  show ?thesis
    using read_handles_messages_in_order [OF w _ f, of "[?m]" "''xy''" demo_env] v c d
    by (simp add: frames.simps [of "''xy''"])
qed

text \<open>C38: When the stream has ended (a peer that sent its messages and closed), or when
  at least 1116 bytes are waiting (fifteen short messages sent in one burst), the connection
  is dropped and every complete message among those bytes is lost: no history file changes,
  no other session changes, and the other clients get the notice of the disconnect and
  nothing else.\<close>
theorem read_discards_backlog:
  assumes "wf_epoll st" "find_by_fd st fd = Some s" "others_ready st s"
    and "k_end (ep_kern st) fd \<noteq> SockOpen \<or> 1116 \<le> length (rbuf_content st s @ k_in (ep_kern st) fd)"
    and note_def: "note = snprintf 64 (cstr (ec_username (ep_clients st s)) @ '' disconnected'')"
  shows "ep_names (handle_read e fd st) = (ep_names st)(s := None) \<and> ep_files (handle_read e fd st) = ep_files st \<and>
    (j \<noteq> s \<longrightarrow> ep_stream (handle_read e fd st) j = ep_stream st j @
      (if ep_names st s \<noteq> None \<and> ep_names st j \<noteq> None
       then pack_message (new_message (e_now e) MSG_BROADCAST ''server'' [] note) else []))"
proof -
  obtain b l p where hr: "handle_read e fd st = disconnect_client e s (received s fd b l p st)"
      and l: "0 \<le> l" "l \<le> RBUF_SIZE"
    using handle_read_drop [OF assms(1,2,4), of e] by blast
  have use: "ec_in_use (ep_clients st s)" using find_by_fd_Some [OF assms(2)] by simp
  note w = wf_received [OF assms(1) use l, of fd b p]
  show ?thesis
    using disconnect_stream [of "received s fd b l p st" s e j] ep_names_disconnect [OF w, of e s] assms(3) use
      ep_online_bound [OF assms(1), of j]
    by (auto simp: hr ep_names_online note_def)
qed

theorem read_discards_backlog_witness:
  "ep_stream (handle_read demo_env 5 (demo\<lparr>ep_kern := (ep_kern demo)\<lparr>k_in := (\<lambda>_. [])(5 :=
       pack_message (new_message 9 MSG_PRIVATE ''al'' ''bo'' ''hi'')), k_end := (\<lambda>_. SockEof)\<rparr>\<rparr>)) 1
   = pack_message (new_message 7 MSG_BROADCAST ''server'' [] ''al disconnected'')"
proof -
  let ?st = "demo\<lparr>ep_kern := (ep_kern demo)\<lparr>k_in := (\<lambda>_. [])(5 :=
       pack_message (new_message 9 MSG_PRIVATE ''al'' ''bo'' ''hi'')), k_end := (\<lambda>_. SockEof)\<rparr>\<rparr>"
  have w: "wf_epoll ?st" by (rule wf_kern) simp_all
  have f: "find_by_fd ?st 5 = Some 0" using find_by_fd_in_use [OF w, of 0] by simp
  have s: "ep_stream ?st j = []" "ep_online ?st j = ep_online demo j" for j
    by (simp_all add: ep_stream_def Let_def ep_online_def)
  have r: "ep_ready n ?st j = ep_ready n demo j" for n j
    by (simp add: ep_ready_def Let_def good_script_def)
  have o: "others_ready ?st 0" using demo_others_ready [of 0] by (simp add: others_ready_def s r)
  show ?thesis
    using read_discards_backlog [OF w f o _ refl, of demo_env 1] s by simp
qed

section \<open>Writing\<close>

text \<open>\<open>handle_write\<close> moves queued bytes to the kernel and nothing else: no
  slot's stream changes, so nothing is lost, repeated or reordered; and when the socket
  takes bytes without \<open>EAGAIN\<close>, the whole queue goes out and the registration
  falls back to \<open>EPOLLIN\<close>.\<close>
theorem write_drains_queue:
  assumes "wf_epoll st" "find_by_fd st fd = Some s" "good_script (ep_kern st) fd"
  shows "ep_stream (handle_write e fd st) j = ep_stream st j \<and> ep_names (handle_write e fd st) = ep_names st \<and>
    (NbAgain \<notin> set (k_script (ep_kern st) fd) \<longrightarrow>
       k_out (ep_kern (handle_write e fd st)) fd = ep_stream st s \<and>
       k_interest (ep_kern (handle_write e fd st)) fd = WatchIn)"
proof -
  let ?sb = "ec_sbuf (ep_clients st s)"
  note s = find_by_fd_Some [OF assms(2)]
  have reg: "k_interest (ep_kern st) fd \<noteq> NotWatched" "\<And>i. ec_in_use (ep_clients st i) \<Longrightarrow> i \<noteq> s \<Longrightarrow> ec_fd (ep_clients st i) \<noteq> fd"
    using assms(1) s by (auto simp: wf_epoll_def wf_table_def)
  obtain ret sb k where fl: "sb_flush ?sb fd (ep_kern st) = (ret, sb, k)" by (metis prod_cases3)
  note p = sb_flush_props [OF wf_epoll_sbuf [OF assms(1)] fl]
  note fr = sb_flush_frame [OF fl]
  have ret: "ret \<noteq> FlushError" using p assms(3) by blast
  define st1 where "st1 = upd_client s (\<lambda>c. c\<lparr>ec_sbuf := sb\<rparr>) (st\<lparr>ep_kern := k\<rparr>)"
  have hw: "handle_write e fd st = (if ret = FlushDone then st1\<lparr>ep_kern := epmod fd WatchIn k\<rparr> else st1)"
    using assms(2) fl ret by (cases ret) (simp_all add: handle_write_def Let_def st1_def)
  have str: "ep_stream (handle_write e fd st) j = ep_stream st j"
  proof (cases "j = s")
    case True
    with p s show ?thesis by (auto simp: hw ep_stream_def Let_def st1_def)
  next
    case False
    with fr reg(2) [of j] show ?thesis by (simp add: hw ep_stream_def Let_def st1_def)
  qed
  have nam: "ep_names (handle_write e fd st) = ep_names st"
    by (auto simp: hw ep_names_def st1_def fun_eq_iff)
  have "k_out (ep_kern (handle_write e fd st)) fd = ep_stream st s \<and>
       k_interest (ep_kern (handle_write e fd st)) fd = WatchIn" if "NbAgain \<notin> set (k_script (ep_kern st) fd)"
    using sb_flush_complete [OF assms(3) that fl] p fr reg(1) s
    by (auto simp: hw ep_stream_def Let_def st1_def epmod_def)
  with str nam show ?thesis by blast
qed

theorem write_drains_queue_witness:
  "k_out (ep_kern (handle_write demo_env 5 demo)) 5 = []"
  using write_drains_queue [of demo 5 0 demo_env 1] by (simp add: good_script_def)

text \<open>C39: A message for a slot that still has queued output is queued whole behind it or,
  when it does not fit in the 64 KiB, dropped whole: the framing of the stream survives,
  but the loss is reported to nobody.\<close>
theorem full_queue_drops_whole_message:
  assumes "wf_epoll st" "ec_in_use (ep_clients st i)" "sb_content (ec_sbuf (ep_clients st i)) \<noteq> []"
  shows "ep_stream (slot_send i m st) i = ep_stream st i @
    (if length (sb_content (ec_sbuf (ep_clients st i))) + length (pack_message m) \<le> 65536 then pack_message m else [])"
proof -
  let ?sb = "ec_sbuf (ep_clients st i)"
  note w = wf_epoll_sbuf [OF assms(1), of i]
  obtain sb ok where p: "sb_push ?sb (pack_message m) = (sb, ok)" by fastforce
  have "\<not> sb_empty ?sb" using sb_empty_content [OF w] assms(3) by blast
  then show ?thesis
    using sb_push_props(2,3) [OF w p] assms(2) p
    by (auto simp: slot_send_def Let_def ep_stream_def simp del: length_pack_message)
qed

theorem full_queue_drops_whole_message_witness:
  "ep_stream (slot_send 0 (new_message 9 MSG_ACK ''server'' ''al'' []) demo_queued) 0
   = ''x'' @ pack_message (new_message 9 MSG_ACK ''server'' ''al'' [])"
  using full_queue_drops_whole_message [of demo_queued 0 "new_message 9 MSG_ACK ''server'' ''al'' []"]
  by (simp add: ep_stream_def Let_def)

text \<open>C40: When a write fails in the middle of a message, \<open>slot_send\<close> gives the
  rest up and keeps the connection: the client's stream now holds a cut message, and
  whatever is sent next is read as its missing bytes.\<close>
theorem write_error_cuts_message:
  assumes "wf_epoll st" "ec_in_use (ep_clients st i)" "sb_content (ec_sbuf (ep_clients st i)) = []"
    and "k_script (ep_kern st) (ec_fd (ep_clients st i)) = NbTake k # NbErr # r"
    and "0 < k" "k < length (pack_message m)"
  shows "ep_stream (slot_send i m st) i = ep_stream st i @ take k (pack_message m) \<and>
    ec_in_use (ep_clients (slot_send i m st) i)"
proof -
  let ?fd = "ec_fd (ep_clients st i)" and ?wire = "pack_message m"
  note w = wf_epoll_sbuf [OF assms(1), of i]
  have e: "sb_empty (ec_sbuf (ep_clients st i))" using sb_empty_content [OF w] assms(3) by blast
  obtain k1 where k1: "nb_write ?fd ?wire (ep_kern st) = (NbWrote k, k1)" "k_script k1 ?fd = NbErr # r"
      "k_out k1 ?fd = k_out (ep_kern st) ?fd @ take k ?wire"
    using assms(4,6) by (auto simp: nb_write_def min_def simp del: length_pack_message)
  have "slot_write ?fd ?wire k k1 = (None, k1\<lparr>k_script := (k_script k1)(?fd := r)\<rparr>)"
    using assms(6) k1(2) by (simp add: slot_write.simps [of ?fd ?wire k] nb_write_def del: length_pack_message)
  then have "slot_write ?fd ?wire 0 (ep_kern st) = (None, k1\<lparr>k_script := (k_script k1)(?fd := r)\<rparr>)"
    using assms(5) k1(1) by (simp add: slot_write.simps [of ?fd ?wire 0] del: length_pack_message)
  with e k1 assms(2,3) show ?thesis by (simp add: slot_send_def Let_def ep_stream_def)
qed

theorem write_error_cuts_message_witness:
  "length (ep_stream (slot_send 0 (new_message 9 MSG_ACK ''server'' ''al'' [])
     (demo\<lparr>ep_kern := (ep_kern demo)\<lparr>k_script := (\<lambda>_. [NbTake 10, NbErr])\<rparr>\<rparr>)) 0) = 10"
proof -
  let ?st = "demo\<lparr>ep_kern := (ep_kern demo)\<lparr>k_script := (\<lambda>_. [NbTake 10, NbErr])\<rparr>\<rparr>"
  let ?m = "new_message 9 MSG_ACK ''server'' ''al'' []"
  have w: "wf_epoll ?st" by (rule wf_kern) simp_all
  have "ep_stream ?st 0 = []" by (simp add: ep_stream_def Let_def)
  then have "ep_stream (slot_send 0 ?m ?st) 0 = take 10 (pack_message ?m)"
    using write_error_cuts_message [OF w, of 0 10 "[]" ?m] by simp
  then show ?thesis by (simp del: length_pack_message add: length_pack_message [of ?m])
qed

section \<open>Lists, history, status\<close>

text \<open>The answer to \<open>MSG_LIST_USERS\<close> names every online user with his
  status, in slot order, separated by a comma and a blank, and nobody else; with ten slots
  and 31-byte names the 1024-byte buffer never cuts it.\<close>
theorem user_list_outcome:
  assumes "wf_epoll st" "ep_ready 1 st s" "msg_type msg = MSG_LIST_USERS"
    and entry: "entry = (\<lambda>i. cstr (ec_username (ep_clients st i)) @ ''('' @ status_names ! ec_status (ep_clients st i) @ '')'')"
    and text_def: "txt = joined (map entry (filter (ep_online st) [0..<10]))"
  shows "ep_stream (process_message e s msg st) j = ep_stream st j @
      (if j = s then pack_message (server_reply e MSG_USER_LIST (sender msg) txt) else []) \<and>
    length txt < 1024"
proof -
  have t: "wf_table st" using assms(1) by (simp add: wf_epoll_def)
  have w: "list_all wf_session (sessions st)"
    using wf_table_name [OF t] wf_table_client [OF t]
    by (auto simp: sessions_def client_table_def list_all_iff wf_session_def wf_client_def)
  have named: "ec_active (ep_clients st i) \<Longrightarrow> cstr (ec_username (ep_clients st i)) \<noteq> []" for i
    using wf_table_active [OF t, of i] by (simp add: user_ok_def)
  have "listed (sessions st) = map (\<lambda>i. (ec_username (ep_clients st i), ec_status (ep_clients st i))) (filter (ep_online st) [0..<10])"
    using named by (auto simp: listed_def sessions_def client_table_def filter_map o_def ep_online_def
        intro!: arg_cong [where f = "map _"] filter_cong)
  then have "map (case_prod entry_text) (listed (sessions st)) = map entry (filter (ep_online st) [0..<10])"
    by (simp add: entry entry_text_def)
  then have ul: "user_list (sessions st) = txt"
    using user_list_joined [OF w] by (simp add: text_def sessions_def client_table_def)
  have J: "length (joined xs) \<le> 44 * length xs" if "\<forall>x\<in>set xs. length x \<le> 42" for xs :: "char list list"
    using that by (induction xs rule: joined.induct) auto
  have "length (entry i) \<le> 42" for i
    using list_entry_text [OF wf_table_name [OF t, of i], of "ec_status (ep_clients st i)"] wf_table_client [OF t, of i]
    by (simp add: entry entry_text_def wf_client_def)
  then have "length txt \<le> 44 * length (filter (ep_online st) [0..<10])"
    using J [of "map entry (filter (ep_online st) [0..<10])"] by (simp add: text_def)
  also have "\<dots> \<le> 44 * 10" using length_filter_le [of "ep_online st" "[0..<10]"] by simp
  finally have "length txt < 1024" by simp
  with assms(2,3) ul show ?thesis by (simp add: process_message_def reply_stream)
qed

theorem user_list_outcome_witness:
  "ep_stream (process_message demo_env 2 (new_message 9 MSG_LIST_USERS [] [] []) demo) 2
   = pack_message (server_reply demo_env MSG_USER_LIST (zeros 32) ''al(available), bo(available)'')"
proof -
  have "filter (ep_online demo) [0..<10] = [0, 1]" by (simp add: upt_rec ep_online_def)
  then show ?thesis
    using user_list_outcome [OF wf_demo _ _ refl refl, of 2 "new_message 9 MSG_LIST_USERS [] [] []" demo_env 2]
    by (simp add: status_names_def make_message_fields strncpy_name)
qed

text \<open>\<open>MSG_STATUS_CHANGE\<close> sets the status of the connection it came on to
  busy, away or, for any other payload, available; it changes no other client's status, no
  session and no file, and is acknowledged, also before a login.\<close>
theorem status_change_outcome:
  assumes "ep_ready 1 st s" "msg_type msg = MSG_STATUS_CHANGE"
  shows "ec_status (ep_clients (process_message e s msg st) i) =
      (if i \<noteq> s then ec_status (ep_clients st i)
       else if take 4 (cstr (payload msg)) = ''busy'' then 1
       else if take 4 (cstr (payload msg)) = ''away'' then 2 else 0) \<and>
    ep_names (process_message e s msg st) = ep_names st \<and>
    ep_stream (process_message e s msg st) j = ep_stream st j @
      (if j = s then pack_message (server_reply e MSG_ACK (sender msg) ''Status updated'') else [])"
  using assms reply_stream
  by (simp add: process_message_def Let_def reply_stream status_of_payload_def strneq_def)

theorem status_change_outcome_witness:
  "ec_status (ep_clients (process_message demo_env 1 (new_message 9 MSG_STATUS_CHANGE ''bo'' [] ''away'') demo) 1) = 2"
  using status_change_outcome [of demo 1 "new_message 9 MSG_STATUS_CHANGE ''bo'' [] ''away''" demo_env 1 0] by simp

text \<open>\<open>MSG_HISTORY_REQ\<close> is answered with the file of whatever name the
  request gives as its sender, on any connection, logged in or not, as that user or not;
  it changes nothing.\<close>
theorem history_request_unauthenticated:
  assumes "ep_ready 1 st s" "msg_type msg = MSG_HISTORY_REQ" "valid_message msg"
  shows "ep_stream (process_message e s msg st) j = ep_stream st j @
      (if j = s then pack_message (server_reply e MSG_HISTORY_RESP (sender msg)
         (case ep_files st (''./history/'' @ cstr (sender msg) @ ''.log'') of
            None \<Rightarrow> ''No history.''
          | Some text \<Rightarrow> if history_loop text [] = [] then ''No history.'' else history_loop text [])) else []) \<and>
    ep_files (process_message e s msg st) = ep_files st \<and> ep_names (process_message e s msg st) = ep_names st"
proof -
  have "length (cstr (sender msg)) \<le> 31" using assms(3) length_cstr_terminated by (auto simp: valid_message_def)
  from length_history_path [OF this] show ?thesis
    using assms(1,2) by (simp add: process_message_def reply_stream read_history_def Let_def split: option.split)
qed

theorem history_request_unauthenticated_witness:
  "ep_stream (process_message demo_env 2 (new_message 9 MSG_HISTORY_REQ ''al'' [] [])
     (demo\<lparr>ep_files := [''./history/al.log'' \<mapsto> ''secret'']\<rparr>)) 2
   = pack_message (server_reply demo_env MSG_HISTORY_RESP (sender (new_message 9 MSG_HISTORY_REQ ''al'' [] [])) ''secret'')"
proof -
  let ?m = "new_message 9 MSG_HISTORY_REQ ''al'' [] []"
  have v: "valid_message ?m" using wf_make_message by (simp add: wf_message_def)
  have "fgets 256 ''secret'' = Some (''secret'', [])" "fgets 256 [] = None"
    by (simp_all add: fgets_def newline_def)
  then have "history_loop ''secret'' [] = ''secret''"
    by (simp add: history_loop.simps [of "''secret''"] history_loop.simps [of "[]"])
  then show ?thesis
    using history_request_unauthenticated [OF _ _ v, of "demo\<lparr>ep_files := [''./history/al.log'' \<mapsto> ''secret'']\<rparr>" 2 demo_env 2]
    by simp
qed

lemma history_loop_all:
  "cstring c \<Longrightarrow> length buf + length c < 1023 \<Longrightarrow> history_loop c buf = buf @ c"
proof (induction c buf rule: history_loop.induct)
  case (1 c buf)
  show ?case
  proof (cases "fgets 256 c")
    case None
    then show ?thesis by (auto simp: history_loop.simps [of c] fgets_def Let_def split: if_splits)
  next
    case (Some lr)
    obtain l r where lr: "lr = (l, r)" by force
    from fgets_SomeD [OF Some [unfolded lr]] have c: "c = l @ r" by simp
    with 1(2,3) have cs: "cstring l" "cstring r" "length buf + length l < 1023" "length (buf @ l) + length r < 1023"
      by simp_all
    with 1(1) [OF Some lr [symmetric]] have "history_loop r (buf @ l) = (buf @ l) @ r" by simp
    with Some lr cs show ?thesis by (simp add: history_loop.simps [of c]) (simp add: c)
  qed
qed

text \<open>C34: What \<open>save_history\<close> appends, \<open>MSG_HISTORY_REQ\<close> gives back:
  while the file is shorter than 1023 bytes, the text read is the old text followed by the
  line of the new message, whatever the line lengths; no other file changes.\<close>
theorem history_roundtrip:
  assumes "save_history e who rcp txt ts fs = Some fs'" "e_appendable e (history_path (cstr who))"
    and "e_localtime e ts = Some tb" "cstring tb"
    and "fs (history_path (cstr who)) = Some old" "cstring old"
    and "length (old @ history_line tb (cstr rcp) (cstr txt)) < 1023"
  shows "read_history fs' who = old @ history_line tb (cstr rcp) (cstr txt) \<and>
    (p \<noteq> history_path (cstr who) \<longrightarrow> fs' p = fs p)"
proof -
  let ?line = "history_line tb (cstr rcp) (cstr txt)"
  have fs': "fs' = fs(history_path (cstr who) \<mapsto> old @ ?line)"
    using assms(1-3,5) by (simp add: save_history_def Let_def)
  have "cstring ?line" using assms(4) cstring_cstr by (auto simp: history_line_def newline_def)
  then have "history_loop (old @ ?line) [] = old @ ?line"
    using history_loop_all [of "old @ ?line" "[]"] assms(6,7) by simp
  moreover have "?line \<noteq> []" by (simp add: history_line_def)
  ultimately show ?thesis by (simp add: fs' read_history_def)
qed

theorem history_roundtrip_witness:
  "\<exists>fs'. save_history demo_env ''al'' [] ''hi'' 0 [''./history/al.log'' \<mapsto> []] = Some fs' \<and>
     read_history fs' ''al'' = ''[2024-01-01 00:00:00] BROADCAST : hi'' @ [newline]"
proof -
  obtain fs' where fs': "save_history demo_env ''al'' [] ''hi'' 0 [''./history/al.log'' \<mapsto> []] = Some fs'"
    using demo_save by blast
  have p: "history_path ''al'' = ''./history/al.log''" using length_history_path [of "''al''"] by simp
  show ?thesis
    using history_roundtrip [OF fs', of "''2024-01-01 00:00:00''" "[]"] fs' p
    by (simp add: demo_env_def history_line_def)
qed

section \<open>Connections\<close>

text \<open>An accepted connection takes the first free slot, with an empty session and an
  empty stream, and disturbs no other; with all ten slots in use the server's state does
  not change and the peer gets the error \<open>Server full\<close>.\<close>
theorem accept_outcome:
  assumes "wf_epoll st" "\<forall>i. ec_in_use (ep_clients st i) \<longrightarrow> ec_fd (ep_clients st i) \<noteq> cfd"
    and acc: "accept_one e cfd ip ws st = (st', ws')"
  shows "if \<forall>i<10. ec_in_use (ep_clients st i)
    then st' = st \<and> (no_wr_err ws \<longrightarrow> w_out ws' = w_out ws @ pack_message (error_reply e [] ''Server full''))
    else \<exists>slot<10. \<not> ec_in_use (ep_clients st slot) \<and> (\<forall>i < slot. ec_in_use (ep_clients st i)) \<and>
      ec_in_use (ep_clients st' slot) \<and> ec_fd (ep_clients st' slot) = cfd \<and>
      ep_names st' = ep_names st \<and> ep_stream st' slot = [] \<and> (\<forall>j. j \<noteq> slot \<longrightarrow> ep_stream st' j = ep_stream st j) \<and>
      ws' = ws"
proof (cases "find_free st")
  case None
  then have "st' = st" "ws' = snd (send_message ws (error_reply e [] ''Server full''))"
    using acc by (simp_all add: accept_one_def)
  then show ?thesis
    using None find_free_None [of st] send_message_ok [of ws "error_reply e [] ''Server full''"] by auto
next
  case (Some slot)
  have f: "slot < 10" "\<not> ec_in_use (ep_clients st slot)" "\<forall>i < slot. ec_in_use (ep_clients st i)"
    using find_slot_SomeD [OF Some [unfolded find_free_def]] by auto
  have na: "\<not> ec_active (ep_clients st slot)"
    using wf_epoll_client [OF assms(1), of slot] f(2) by (auto simp: wf_client_def)
  define c where "c = zero_client\<lparr>ec_fd := cfd, ec_in_use := True, ec_ip := strncpy (zeros 16) ip 16\<rparr>"
  have c: "\<not> ec_active c" "ec_in_use c" "ec_fd c = cfd" "ec_sbuf c = sb_init" by (simp_all add: c_def zero_client_def)
  have cl: "ep_clients st' = (ep_clients st)(slot := c)" and ws: "ws' = ws"
    and out: "k_out (ep_kern st') = (k_out (ep_kern st))(cfd := [])"
    using acc Some by (auto simp: accept_one_def Let_def c_def)
  have "ep_names st' = ep_names st" using na c by (simp add: ep_names_def cl fun_eq_iff)
  moreover have "ep_stream st' slot = []" using c by (simp add: ep_stream_def Let_def cl out)
  moreover have "ep_stream st' j = ep_stream st j" if "j \<noteq> slot" for j
    using that assms(2) by (simp add: ep_stream_def Let_def cl out)
  moreover have "ec_in_use (ep_clients st' slot)" "ec_fd (ep_clients st' slot) = cfd" using c by (simp_all add: cl)
  ultimately have "\<not> ec_in_use (ep_clients st slot) \<and> (\<forall>i < slot. ec_in_use (ep_clients st i)) \<and>
      ec_in_use (ep_clients st' slot) \<and> ec_fd (ep_clients st' slot) = cfd \<and>
      ep_names st' = ep_names st \<and> ep_stream st' slot = [] \<and> (\<forall>j. j \<noteq> slot \<longrightarrow> ep_stream st' j = ep_stream st j) \<and>
      ws' = ws" using f ws by blast
  with f(1,2) have "\<not> (\<forall>i<10. ec_in_use (ep_clients st i))" "\<exists>slot<10. \<not> ec_in_use (ep_clients st slot) \<and> (\<forall>i < slot. ec_in_use (ep_clients st i)) \<and>
      ec_in_use (ep_clients st' slot) \<and> ec_fd (ep_clients st' slot) = cfd \<and>
      ep_names st' = ep_names st \<and> ep_stream st' slot = [] \<and> (\<forall>j. j \<noteq> slot \<longrightarrow> ep_stream st' j = ep_stream st j) \<and>
      ws' = ws" by blast+
  then show ?thesis by (simp only: if_False)
qed

theorem accept_outcome_witness:
  "\<exists>slot<10. ec_fd (ep_clients (fst (accept_one demo_env 8 [] \<lparr>w_out = [], w_script = []\<rparr> demo)) slot) = 8"
proof -
  obtain st' ws' where a: "accept_one demo_env 8 [] \<lparr>w_out = [], w_script = []\<rparr> demo = (st', ws')" by fastforce
  have "\<not> (\<forall>i<10. ec_in_use (ep_clients demo i))" by (simp, rule exI [of _ 3], simp)
  moreover have "\<forall>i. ec_in_use (ep_clients demo i) \<longrightarrow> ec_fd (ep_clients demo i) \<noteq> 8" by (simp add: demo_def)
  ultimately show ?thesis using accept_outcome [OF wf_demo _ a] by (simp only: if_False a fst_conv) blast
qed

section \<open>Every reachable state\<close>

text \<open>C13: In every reachable state no two connections are logged in under the same name,
  every name is between 1 and 31 bytes without a colon, and only one of the ten slots in use
  can be logged in.\<close>
theorem reachable_sessions:
  assumes "ep_reachable st" "ep_names st i = Some u"
  shows "i < 10 \<and> ec_in_use (ep_clients st i) \<and> user_ok u \<and> (\<forall>j. ep_names st j = Some u \<longrightarrow> j = i)"
proof -
  have w: "wf_epoll st" by (rule wf_reachable [OF assms(1)])
  have a: "ec_active (ep_clients st i)" and u: "u = cstr (ec_username (ep_clients st i))"
    using assms(2) by (auto simp: ep_names_def split: if_splits)
  from wf_table_active [OF _ a] u w assms(2) show ?thesis
    by (auto simp: wf_epoll_def ep_sessions.unique_names_def)
qed

theorem reachable_sessions_witness:
  "\<exists>st. ep_reachable st \<and> ep_names st 0 = Some ''cy'' \<and> user_ok ''cy'' \<and> (\<forall>j. ep_names st j = Some ''cy'' \<longrightarrow> j = 0)"
  using reachable_sessions [OF reachable_after reachable_logged_in] reachable_logged_in reachable_after by blast

text \<open>C35: In every reachable state each connection's buffers stay inside their arrays
  (1116 bytes of input, 64 KiB of output), its status indexes the table of three status
  names, and distinct connections have distinct descriptors.\<close>
theorem reachable_bounds:
  assumes "ep_reachable st" "ec_in_use (ep_clients st i)"
  shows "i < 10 \<and> 0 \<le> ec_rbuf_len (ep_clients st i) \<and> ec_rbuf_len (ep_clients st i) \<le> 1116 \<and>
    sb_head (ec_sbuf (ep_clients st i)) \<le> sb_tail (ec_sbuf (ep_clients st i)) \<and>
    sb_tail (ec_sbuf (ep_clients st i)) \<le> 65536 \<and> ec_status (ep_clients st i) < length status_names \<and>
    (\<forall>j. ec_in_use (ep_clients st j) \<longrightarrow> ec_fd (ep_clients st j) = ec_fd (ep_clients st i) \<longrightarrow> j = i)"
  using wf_reachable [OF assms(1)] wf_epoll_client [OF wf_reachable [OF assms(1)], of i] assms(2)
  by (auto simp: wf_epoll_def wf_table_def wf_client_def wf_sb_def status_names_def numeral_3_eq_3)

theorem reachable_bounds_witness:
  "sb_tail (ec_sbuf (ep_clients demo_stalled 0)) \<le> 65536 \<and> ec_rbuf_len (ep_clients demo_stalled 0) \<le> 1116"
  using reachable_bounds [OF reachable_stalled demo_stalled_queue(1)] by blast

text \<open>C14: In every reachable state a connection with queued output is registered for
  \<open>EPOLLOUT\<close>, so the bytes that a full socket left behind are not forgotten: the
  next time it is writable \<open>handle_write\<close> runs.\<close>
theorem reachable_output_watched:
  assumes "ep_reachable st" "ec_in_use (ep_clients st i)" "sb_content (ec_sbuf (ep_clients st i)) \<noteq> []"
  shows "k_interest (ep_kern st) (ec_fd (ep_clients st i)) = WatchInOut"
  using ep_inv_reachable [OF assms(1)] assms(2,3) by (simp add: ep_inv_def ep_watched_def)

theorem reachable_output_watched_witness:
  "k_interest (ep_kern demo_stalled) (ec_fd (ep_clients demo_stalled 0)) = WatchInOut"
  by (rule reachable_output_watched [OF reachable_stalled demo_stalled_queue])

text \<open>C29: The send buffer is a FIFO queue of 64 KiB: over any sequence of pushes and
  drains, the bytes of the accepted pushes are the bytes drained followed by those still
  queued, and its indices stay in the array.\<close>
theorem send_buffer_fifo:
  assumes "sbq.run ops sb_init = (accepted, emitted, r)"
  shows "accepted = emitted @ sb_content r \<and> sb_head r \<le> sb_tail r \<and> sb_tail r \<le> 65536"
  using sbq.fifo [OF wf_sb_init(1) assms] by (simp add: wf_sb_def)

theorem send_buffer_fifo_witness:
  "\<exists>r. sbq.run [Push ''abc'', Drain 2, Push ''d''] sb_init = (''abcd'', ''ab'', r) \<and> sb_content r = ''cd''"
proof -
  obtain q1 ok1 where p1: "sb_push sb_init ''abc'' = (q1, ok1)" by fastforce
  have q1: "ok1" "wf_sb q1" "sb_content q1 = ''abc''"
    using sb_push_props [OF wf_sb_init(1) p1] by simp_all
  have q2: "wf_sb (sb_drain 2 q1)" "sb_content (sb_drain 2 q1) = ''c''"
    using sb_drain_props [OF q1(2), of 2] q1(3) by simp_all
  obtain q3 ok3 where p3: "sb_push (sb_drain 2 q1) ''d'' = (q3, ok3)" by fastforce
  have "ok3" using sb_push_props(2) [OF q2(1) p3] q2(2) by simp
  then have run: "sbq.run [Push ''abc'', Drain 2, Push ''d''] sb_init = (''abcd'', ''ab'', q3)"
    using p1 q1 p3 by (simp add: numeral_2_eq_2)
  then show ?thesis using send_buffer_fifo [OF run] by auto
qed

section \<open>Staying alive\<close>

lemma run_messages_alive:
  assumes "\<And>ts. e_localtime e ts \<noteq> None" "\<not> ep_crashed st"
  shows "\<not> ep_crashed (run_messages e s ms st)"
proof -
  have save: "save_history e a b c ts f \<noteq> None" for a b c ts f
    using assms(1) [of ts] by (auto simp: save_history_def Let_def split: option.split)
  have "\<not> ep_crashed (process_message e s m st)" if "\<not> ep_crashed st" for m st
    using that by (auto simp: process_message_def Let_def save
        split: msg_type_t.split prod.split option.split)
  then show ?thesis using assms(2) by (induction ms arbitrary: st) (auto simp: Let_def)
qed



text \<open>A logged-in client whose message carries a time stamp \<open>localtime\<close>
  rejects (the stamp is taken from the wire unchecked) kills the server.\<close>
theorem bad_timestamp_kills_server:
  assumes "ec_active (ep_clients st s)" "msg_type msg = MSG_BROADCAST"
    and "e_localtime e (timestamp msg) = None" "e_appendable e (history_path (cstr (sender msg)))"
  shows "ep_crashed (process_message e s msg st)"
  using assms by (simp add: process_message_def Let_def save_history_def)

theorem bad_timestamp_kills_server_witness:
  "ep_crashed (process_message (demo_env\<lparr>e_localtime := (\<lambda>ts. if ts = 0 then Some ''t'' else None)\<rparr>) 0
     (new_message (2 ^ 62) MSG_BROADCAST ''al'' [] ''hi'') demo)"
  by (rule bad_timestamp_kills_server) (simp_all add: make_message_fields demo_env_def make_message_def Let_def)

end
