(* ===== verification/Chat_Spec.thy ===== *)
theory Chat_Spec
  imports Chat_Common
begin

text \<open>
  What a chat server promises, without the concurrency: an abstract state (who is logged in
  on which slot with which status, the bytes committed to each client, the history files)
  and the effect of one message on it, \<open>spec_message\<close>. The locale
  \<open>chat_server\<close> is the contract of the operations the three routers are made
  of; in it the router \<open>route_with\<close>, the order of calls that
  \<open>process_message\<close> (epoll), \<open>route\<close> (thread) and
  \<open>route_message\<close> (fork) share, is shown to implement \<open>spec_message\<close>.
  The servers differ in two points, the parameters \<open>again\<close> (the fork server
  lets a connection log in again under the name it has) and \<open>closes\<close> (the fork
  server keeps the connection after \<open>MSG_LOGOUT\<close>).
\<close>

subsection \<open>The abstract server\<close>

record chat =
  ch_users :: "nat \<Rightarrow> (char list \<times> nat) option"
  ch_stream :: "nat \<Rightarrow> char list"
  ch_files :: files
  ch_crashed :: bool

definition ch_find :: "chat \<Rightarrow> char list \<Rightarrow> nat option" where
  "ch_find ch u = find_slot (\<lambda>x. map_option fst x = Some (cstr u)) (map (ch_users ch) [0..<MAX_CLIENTS])"

definition ch_online :: "chat \<Rightarrow> nat \<Rightarrow> bool" where
  "ch_online ch i \<longleftrightarrow> ch_users ch i \<noteq> None"

definition ch_name :: "chat \<Rightarrow> nat \<Rightarrow> char list" where
  "ch_name ch i = (case ch_users ch i of None \<Rightarrow> [] | Some (u, st) \<Rightarrow> u)"

definition ch_list :: "chat \<Rightarrow> char list" where
  "ch_list ch = joined (map (case_prod entry_text) (List.map_filter (ch_users ch) [0..<MAX_CLIENTS]))"

definition ch_send :: "nat \<Rightarrow> Message \<Rightarrow> chat \<Rightarrow> chat" where
  "ch_send i m ch = ch\<lparr>ch_stream := (ch_stream ch)(i := ch_stream ch i @ pack_message m)\<rparr>"

definition ch_send_others :: "nat \<Rightarrow> Message \<Rightarrow> chat \<Rightarrow> chat" where
  "ch_send_others s m ch = ch\<lparr>ch_stream := (\<lambda>i. ch_stream ch i @
     (if i < MAX_CLIENTS \<and> i \<noteq> s \<and> ch_online ch i then pack_message m else []))\<rparr>"

definition ch_set_user :: "nat \<Rightarrow> (char list \<times> nat) option \<Rightarrow> chat \<Rightarrow> chat" where
  "ch_set_user s x ch = ch\<lparr>ch_users := (ch_users ch)(s := x)\<rparr>"

definition ch_close :: "bool \<Rightarrow> nat \<Rightarrow> chat \<Rightarrow> chat" where
  "ch_close closes s ch = (if closes then ch\<lparr>ch_stream := (ch_stream ch)(s := [])\<rparr> else ch)"

definition spec_message :: "bool \<Rightarrow> bool \<Rightarrow> env \<Rightarrow> nat \<Rightarrow> Message \<Rightarrow> chat \<Rightarrow> chat" where
  "spec_message again closes e s m ch =
     (case msg_type m of
        MSG_LOGIN \<Rightarrow>
          (case sscanf_user_pass (payload m) of (n, u, p) \<Rightarrow>
             if n \<noteq> 2 then ch_send s (error_reply e [] ''Bad login format'') ch
             else if ch_find ch u \<noteq> None \<and> \<not> (again \<and> ch_find ch u = Some s)
             then ch_send s (error_reply e u ''Already logged in'') ch
             else if \<not> validate e u p then ch_send s (error_reply e u ''Invalid credentials'') ch
             else ch_send s (server_reply e MSG_ACK u ''Login successful'')
                    (ch_set_user s (Some (u, status_code STATUS_AVAILABLE)) ch))
      | MSG_LOGOUT \<Rightarrow>
          ch_close closes s (ch_send_others s
            (new_message (e_now e) MSG_BROADCAST ''server'' [] (snprintf 64 (ch_name ch s @ '' left'')))
            (ch_set_user s None ch))
      | MSG_BROADCAST \<Rightarrow>
          (if \<not> ch_online ch s then ch_send s (error_reply e [] ''Not authenticated'') ch
           else (case save_history e (sender m) [] (payload m) (timestamp m) (ch_files ch) of
                   None \<Rightarrow> ch\<lparr>ch_crashed := True\<rparr>
                 | Some fs \<Rightarrow>
                     ch_send s (server_reply e MSG_ACK (sender m) []) (ch_send_others s m (ch\<lparr>ch_files := fs\<rparr>))))
      | MSG_PRIVATE \<Rightarrow>
          (if \<not> ch_online ch s then ch_send s (error_reply e [] ''Not authenticated'') ch
           else (case ch_find ch (receiver m) of
                   None \<Rightarrow> ch_send s (error_reply e (sender m) ''User not online'') ch
                 | Some t \<Rightarrow>
                     (case save_history e (sender m) (receiver m) (payload m) (timestamp m) (ch_files ch) of
                        None \<Rightarrow> ch\<lparr>ch_crashed := True\<rparr>
                      | Some fs \<Rightarrow>
                          ch_send s (server_reply e MSG_ACK (sender m) []) (ch_send t m (ch\<lparr>ch_files := fs\<rparr>)))))
      | MSG_LIST_USERS \<Rightarrow> ch_send s (server_reply e MSG_USER_LIST (sender m) (ch_list ch)) ch
      | MSG_HISTORY_REQ \<Rightarrow>
          ch_send s (server_reply e MSG_HISTORY_RESP (sender m) (read_history (ch_files ch) (sender m))) ch
      | MSG_STATUS_CHANGE \<Rightarrow>
          ch_send s (server_reply e MSG_ACK (sender m) ''Status updated'')
            (ch_set_user s (map_option (\<lambda>(u, st). (u, status_code (status_of_payload (payload m)))) (ch_users ch s)) ch)
      | _ \<Rightarrow> ch_send s (error_reply e (sender m) ''Unknown type'') ch)"

lemma entry_text_cstr: "entry_text (cstr n) k = entry_text n k"
  by (simp add: entry_text_def)

lemma user_list_users:
  assumes "list_all wf_session (map g xs)" "length xs \<le> 10"
    and "\<And>i. i \<in> set xs \<Longrightarrow> f i = (case g i of (act, n, k) \<Rightarrow> if act then Some (cstr n, k) else None)"
    and "\<And>i n k. i \<in> set xs \<Longrightarrow> g i = (True, n, k) \<Longrightarrow> cstr n \<noteq> []"
  shows "user_list (map g xs) = joined (map (case_prod entry_text) (List.map_filter f xs))"
proof -
  have "map (case_prod entry_text) (listed (map g xs)) = map (case_prod entry_text) (List.map_filter f xs)"
    using assms(3,4)
  proof (induction xs)
    case Nil
    then show ?case by (simp add: listed_def)
  next
    case (Cons i xs)
    obtain act n k where g: "g i = (act, n, k)" by (metis prod_cases3)
    from Cons.IH Cons.prems have "map (case_prod entry_text) (listed (map g xs)) = map (case_prod entry_text) (List.map_filter f xs)"
      by (meson list.set_intros(2))
    with Cons.prems(1) [of i] Cons.prems(2) [of i n k] g show ?case
      by (auto simp: listed_def entry_text_cstr)
  qed
  with user_list_joined [OF assms(1)] assms(2) show ?thesis by simp
qed

lemma ch_online_simps [simp]:
  "ch_online (ch_send i m ch) = ch_online ch" "ch_online (ch_send_others i m ch) = ch_online ch"
  "ch_online (ch_set_user s x ch) = (ch_online ch)(s := (x \<noteq> None))"
  "ch_online (ch\<lparr>ch_files := fs\<rparr>) = ch_online ch" "ch_online (ch\<lparr>ch_crashed := b\<rparr>) = ch_online ch"
  "ch_online (ch\<lparr>ch_stream := f\<rparr>) = ch_online ch"
  by (auto simp: ch_online_def ch_send_def ch_send_others_def ch_set_user_def fun_eq_iff)

subsection \<open>The contract of the operations\<close>

locale chat_server =
  fixes abs :: "'s \<Rightarrow> chat"
    and invar :: "'s \<Rightarrow> bool"
    and ready :: "nat \<Rightarrow> 's \<Rightarrow> nat \<Rightarrow> bool"
    and send :: "nat \<Rightarrow> Message \<Rightarrow> 's \<Rightarrow> 's"
    and lookup :: "'s \<Rightarrow> char list \<Rightarrow> nat option"
    and login :: "nat \<Rightarrow> char list \<Rightarrow> 's \<Rightarrow> 's"
    and logout :: "nat \<Rightarrow> 's \<Rightarrow> 's"
    and leave :: "env \<Rightarrow> nat \<Rightarrow> 's \<Rightarrow> 's"
    and set_status :: "nat \<Rightarrow> nat \<Rightarrow> 's \<Rightarrow> 's"
    and put_files :: "files \<Rightarrow> 's \<Rightarrow> 's"
    and crash :: "'s \<Rightarrow> 's"
    and name_of :: "'s \<Rightarrow> nat \<Rightarrow> char list"
    and listing :: "'s \<Rightarrow> session list"
    and again :: bool
    and closes :: bool
  assumes send_abs: "ready (Suc n) st i \<Longrightarrow> abs (send i m st) = ch_send i m (abs st)"
    and send_keeps_ready: "ready (Suc k) st i \<Longrightarrow> ready (if j = i then Suc n else n) st j \<Longrightarrow> ready n (send i m st) j"
    and ready_mono: "ready n st i \<Longrightarrow> k \<le> n \<Longrightarrow> ready k st i"
    and send_users: "ch_users (abs (send i m st)) = ch_users (abs st)"
    and lookup_abs: "invar st \<Longrightarrow> lookup st u = ch_find (abs st) u"
    and login_abs: "invar st \<Longrightarrow> s < MAX_CLIENTS \<Longrightarrow> user_ok u \<Longrightarrow>
      abs (login s u st) = ch_set_user s (Some (u, status_code STATUS_AVAILABLE)) (abs st)"
    and logout_abs: "abs (logout s st) = ch_set_user s None (abs st)"
    and status_abs: "abs (set_status s n st) = ch_set_user s (map_option (\<lambda>(u, k). (u, n)) (ch_users (abs st) s)) (abs st)"
    and files_abs: "abs (put_files fs st) = (abs st)\<lparr>ch_files := fs\<rparr>"
    and crash_abs: "abs (crash st) = (abs st)\<lparr>ch_crashed := True\<rparr>"
    and leave_abs: "ready 0 st s \<Longrightarrow> \<not> ch_online (abs st) s \<Longrightarrow> abs (leave e s st) = ch_close closes s (abs st)"
    and ready_ops: "ready n (login s u st) = ready n st" "ready n (logout s st) = ready n st"
      "ready n (set_status s k st) = ready n st" "ready n (put_files fs st) = ready n st"
    and name_abs: "invar st \<Longrightarrow> name_of st s = ch_name (abs st) s"
    and listing_abs: "invar st \<Longrightarrow> user_list (listing st) = ch_list (abs st)"
begin

sublocale message_sink send "\<lambda>st. ch_stream (abs st)" ready "\<lambda>st i. ch_online (abs st) i"
proof (unfold_locales, goal_cases)
  case (1 n st i m)
  then show ?case by (simp add: send_abs ch_send_def)
next
  case (2 j i k st m)
  then show ?case by (simp add: send_abs ch_send_def)
next
  case (3 n st i m)
  then show ?case using send_keeps_ready [of n st i i n m] by simp
next
  case (4 j i k st n m)
  then show ?case using send_keeps_ready [of k st i j n m] by simp
next
  case (5 i m st j)
  then show ?case by (simp add: send_users ch_online_def)
next
  case (6 n st i k)
  then show ?case by (rule ready_mono)
qed

text \<open>The router: what the three servers do with a message, over these operations.\<close>

definition route_with :: "env \<Rightarrow> nat \<Rightarrow> Message \<Rightarrow> 's \<Rightarrow> 's" where
  "route_with e s m st =
     (case msg_type m of
        MSG_LOGIN \<Rightarrow>
          (case sscanf_user_pass (payload m) of (n, u, p) \<Rightarrow>
             if n \<noteq> 2 then send s (error_reply e [] ''Bad login format'') st
             else if lookup st u \<noteq> None \<and> \<not> (again \<and> lookup st u = Some s)
             then send s (error_reply e u ''Already logged in'') st
             else if \<not> validate e u p then send s (error_reply e u ''Invalid credentials'') st
             else send s (server_reply e MSG_ACK u ''Login successful'') (login s u st))
      | MSG_LOGOUT \<Rightarrow>
          leave e s (to_others s
            (new_message (e_now e) MSG_BROADCAST ''server'' [] (snprintf 64 (name_of st s @ '' left'')))
            [0..<MAX_CLIENTS] (logout s st))
      | MSG_BROADCAST \<Rightarrow>
          (if \<not> ch_online (abs st) s then send s (error_reply e [] ''Not authenticated'') st
           else (case save_history e (sender m) [] (payload m) (timestamp m) (ch_files (abs st)) of
                   None \<Rightarrow> crash st
                 | Some fs \<Rightarrow>
                     send s (server_reply e MSG_ACK (sender m) []) (to_others s m [0..<MAX_CLIENTS] (put_files fs st))))
      | MSG_PRIVATE \<Rightarrow>
          (if \<not> ch_online (abs st) s then send s (error_reply e [] ''Not authenticated'') st
           else (case lookup st (receiver m) of
                   None \<Rightarrow> send s (error_reply e (sender m) ''User not online'') st
                 | Some t \<Rightarrow>
                     (case save_history e (sender m) (receiver m) (payload m) (timestamp m) (ch_files (abs st)) of
                        None \<Rightarrow> crash st
                      | Some fs \<Rightarrow>
                          send s (server_reply e MSG_ACK (sender m) []) (send t m (put_files fs st)))))
      | MSG_LIST_USERS \<Rightarrow> send s (server_reply e MSG_USER_LIST (sender m) (user_list (listing st))) st
      | MSG_HISTORY_REQ \<Rightarrow>
          send s (server_reply e MSG_HISTORY_RESP (sender m) (read_history (ch_files (abs st)) (sender m))) st
      | MSG_STATUS_CHANGE \<Rightarrow>
          send s (server_reply e MSG_ACK (sender m) ''Status updated'')
            (set_status s (status_code (status_of_payload (payload m))) st)
      | _ \<Rightarrow> send s (error_reply e (sender m) ''Unknown type'') st)"

text \<open>Enough room for whatever one message can cause.\<close>

definition all_ready :: "'s \<Rightarrow> nat \<Rightarrow> bool" where
  "all_ready st s \<longleftrightarrow> ready 2 st s \<and> (\<forall>i<MAX_CLIENTS. ch_online (abs st) i \<longrightarrow> ready 2 st i)"

lemma others_abs:
  assumes "\<forall>i<MAX_CLIENTS. i \<noteq> s \<longrightarrow> ch_online (abs st) i \<longrightarrow> ready (Suc n) st i"
  shows "abs (to_others s m [0..<MAX_CLIENTS] st) = ch_send_others s m (abs st)"
proof -
  have rest: "ch_users (abs (to_others s m xs st)) = ch_users (abs st)
       \<and> ch_files (abs (to_others s m xs st)) = ch_files (abs st) \<and> ch_crashed (abs (to_others s m xs st)) = ch_crashed (abs st)"
    if "distinct xs" "\<forall>i\<in>set xs. i \<noteq> s \<longrightarrow> ch_online (abs st) i \<longrightarrow> ready (Suc n) st i" for xs st
    using that
  proof (induction xs arbitrary: st)
    case Nil
    then show ?case by simp
  next
    case (Cons x xs)
    show ?case
    proof (cases "x \<noteq> s \<and> ch_online (abs st) x")
      case False
      with Cons show ?thesis by auto
    next
      case True
      then have r: "ready (Suc n) st x" using Cons.prems(2) by simp
      have on: "ch_online (abs (send x m st)) = ch_online (abs st)"
        by (intro ext) (simp only: ch_online_def send_users)
      have "ready (Suc n) (send x m st) i" if "i \<in> set xs" "i \<noteq> s" "ch_online (abs st) i" for i
      proof -
        have "i \<noteq> x" "ready (Suc n) st i" using that Cons.prems by auto
        then show ?thesis by (rule send_ready_other [OF _ r])
      qed
      then have "\<forall>i\<in>set xs. i \<noteq> s \<longrightarrow> ch_online (abs (send x m st)) i \<longrightarrow> ready (Suc n) (send x m st) i"
        by (simp add: on)
      with Cons.IH [of "send x m st"] Cons.prems(1) True r send_abs [OF r, of m] send_users [of x m st]
      show ?thesis by (simp add: ch_send_def)
    qed
  qed
  have "ch_stream (abs (to_others s m [0..<MAX_CLIENTS] st)) j = ch_stream (ch_send_others s m (abs st)) j" for j
    using broadcast_stream [of "MAX_CLIENTS" s st n m j] assms by (simp add: ch_send_others_def)
  with rest [of "[0..<MAX_CLIENTS]" st] assms show ?thesis
    by (intro chat.equality) (auto simp: ch_send_others_def)
qed

lemma all_readyD:
  assumes "all_ready st s"
  shows "ready (Suc 0) st s" "ready (Suc (Suc 0)) st s" "i < MAX_CLIENTS \<Longrightarrow> ch_online (abs st) i \<Longrightarrow> ready (Suc (Suc 0)) st i"
    "\<forall>i<MAX_CLIENTS. i \<noteq> s \<longrightarrow> ch_online (abs st) i \<longrightarrow> ready (Suc 0) st i"
  using assms ready_less [of 2 st _ "Suc 0"] by (auto simp: all_ready_def numeral_2_eq_2)

lemma ch_find_Some: "ch_find ch u = Some t \<Longrightarrow> t < MAX_CLIENTS \<and> ch_online ch t"
  by (auto simp: ch_find_def ch_online_def dest!: find_slot_SomeD)

theorem route_refines:
  assumes "invar st" "s < MAX_CLIENTS" "all_ready st s"
  shows "abs (route_with e s m st) = spec_message again closes e s m (abs st)"
proof -
  note r = all_readyD [OF assms(3)]
  have one: "abs (send s x st) = ch_send s x (abs st)" for x by (rule send_abs [OF r(1)])
  show ?thesis
  proof (cases "msg_type m")
    case MSG_LOGIN
    obtain n u p where sc: "sscanf_user_pass (payload m) = (n, u, p)" by (metis prod_cases3)
    then have u: "n = 2 \<Longrightarrow> user_ok u" using sscanf_user_pass_ok by simp
    have "n = 2 \<Longrightarrow> abs (send s x (login s u st)) = ch_send s x (ch_set_user s (Some (u, 0)) (abs st))" for x
      using send_abs [of 0 "login s u st" s x] r(1) login_abs [OF assms(1,2) u] by (simp add: ready_ops)
    with MSG_LOGIN sc one lookup_abs [OF assms(1)] show ?thesis
      by (simp add: route_with_def spec_message_def)
  next
    case MSG_LOGOUT
    let ?note = "new_message (e_now e) MSG_BROADCAST ''server'' [] (snprintf 64 (name_of st s @ '' left''))"
    have "\<forall>i<MAX_CLIENTS. i \<noteq> s \<longrightarrow> ch_online (abs (logout s st)) i \<longrightarrow> ready (Suc 0) (logout s st) i"
      using r(4) by (simp add: logout_abs ready_ops)
    note o = others_abs [OF this, of ?note] broadcast_ready_skip [OF this, of 0 ?note]
    have "ready 0 (logout s st) s" using ready_less [OF r(1), of 0] by (simp add: ready_ops)
    with o leave_abs [of "to_others s ?note [0..<MAX_CLIENTS] (logout s st)" s e] MSG_LOGOUT show ?thesis
      by (simp add: route_with_def spec_message_def logout_abs name_abs [OF assms(1)])
  next
    case MSG_BROADCAST
    show ?thesis
    proof (cases "save_history e (sender m) [] (payload m) (timestamp m) (ch_files (abs st))")
      case None
      with MSG_BROADCAST one show ?thesis by (simp add: route_with_def spec_message_def crash_abs)
    next
      case (Some fs)
      have "\<forall>i<MAX_CLIENTS. i \<noteq> s \<longrightarrow> ch_online (abs (put_files fs st)) i \<longrightarrow> ready (Suc 0) (put_files fs st) i"
        using r(4) by (simp add: files_abs ready_ops)
      note o = others_abs [OF this, of m] broadcast_ready_skip [OF this, of "Suc 0" m]
      with send_abs [of 0 "to_others s m [0..<MAX_CLIENTS] (put_files fs st)" s] r(1) MSG_BROADCAST Some one show ?thesis
        by (simp add: route_with_def spec_message_def files_abs ready_ops)
    qed
  next
    case MSG_PRIVATE
    show ?thesis
    proof (cases "ch_find (abs st) (receiver m)")
      case None
      with MSG_PRIVATE one lookup_abs [OF assms(1)] show ?thesis by (simp add: route_with_def spec_message_def)
    next
      case (Some t)
      then have rt: "ready (Suc (Suc 0)) st t" using ch_find_Some r(3) by blast
      show ?thesis
      proof (cases "save_history e (sender m) (receiver m) (payload m) (timestamp m) (ch_files (abs st))")
        case None
        with MSG_PRIVATE Some one lookup_abs [OF assms(1)] show ?thesis
          by (simp add: route_with_def spec_message_def crash_abs)
      next
        case (Some fs)
        have rt': "ready (Suc (Suc 0)) (put_files fs st) t" "ready (Suc (Suc 0)) (put_files fs st) s"
          using rt r(2) by (simp_all add: ready_ops)
        then have "ready (Suc 0) (send t m (put_files fs st)) s"
          using send_keeps_ready [OF rt'(1), of s "Suc 0" m] ready_less [OF rt'(2), of "Suc 0"] by auto
        from send_abs [OF this] send_abs [OF rt'(1), of m] MSG_PRIVATE Some \<open>ch_find (abs st) (receiver m) = Some t\<close> one
          lookup_abs [OF assms(1)] show ?thesis
          by (simp add: route_with_def spec_message_def files_abs)
      qed
    qed
  next
    case MSG_STATUS_CHANGE
    have "abs (send s x (set_status s n st)) = ch_send s x (abs (set_status s n st))" for x n
      using send_abs [of 0 "set_status s n st" s x] r(1) by (simp add: ready_ops)
    with MSG_STATUS_CHANGE show ?thesis by (simp add: route_with_def spec_message_def status_abs)
  qed (use one listing_abs [OF assms(1)] in \<open>simp_all add: route_with_def spec_message_def\<close>)
qed

end

end
