(* ===== verification/Epoll_Refines.thy ===== *)
theory Epoll_Refines
  imports Epoll_Properties Chat_Spec
begin

text \<open>
  The epoll server implements the abstract chat server of \<open>Chat_Spec\<close>:
  \<open>ep_chat\<close> abstracts its state, \<open>ep_server\<close> interprets
  \<open>chat_server\<close> on its operations, and \<open>process_message\<close> is the
  router of that contract.
\<close>

subsection \<open>The abstraction\<close>

definition ep_users :: "epoll \<Rightarrow> nat \<Rightarrow> (char list \<times> nat) option" where
  "ep_users st i = (if ec_active (ep_clients st i)
     then Some (cstr (ec_username (ep_clients st i)), ec_status (ep_clients st i)) else None)"

definition ep_chat :: "epoll \<Rightarrow> chat" where
  "ep_chat st = \<lparr>ch_users = ep_users st, ch_stream = ep_stream st, ch_files = ep_files st, ch_crashed = ep_crashed st\<rparr>"

lemma ep_chat_simps [simp]:
  "ch_users (ep_chat st) = ep_users st" "ch_stream (ep_chat st) = ep_stream st"
  "ch_files (ep_chat st) = ep_files st" "ch_crashed (ep_chat st) = ep_crashed st"
  "ch_online (ep_chat st) = ep_online st"
  by (auto simp: ep_chat_def ch_online_def ep_users_def ep_online_def fun_eq_iff)

lemma ep_users_slot_send [simp]: "ep_users (slot_send i m st) = ep_users st"
  by (simp add: ep_users_def fun_eq_iff)

lemma find_by_user_abs:
  assumes "wf_epoll st"
  shows "find_by_user st u = ch_find (ep_chat st) u"
proof -
  have l: "length (cstr (ec_username (ep_clients st i))) < 32" for i
    using wf_table_name [of st i] assms by (simp add: wf_epoll_def)
  show ?thesis
    unfolding find_by_user_def ch_find_def client_table_def find_slot_map
    by (rule find_slot_cong) (simp add: ep_users_def strneq_short [OF l])
qed

lemma ep_send_chat: "ep_ready (Suc n) st i \<Longrightarrow> ep_chat (slot_send i m st) = ch_send i m (ep_chat st)"
  using ep_sink.send_stream_same [of n st i m] ep_sink.send_stream_other [of _ i n st m]
  by (intro chat.equality) (auto simp: ch_send_def fun_eq_iff)

lemma ep_login_chat:
  assumes "wf_epoll st" "user_ok u"
  shows "ep_chat (login_slot s u st) = ch_set_user s (Some (u, status_code STATUS_AVAILABLE)) (ep_chat st)"
proof -
  have t: "wf_table st" using assms(1) by (simp add: wf_epoll_def)
  have "ep_users (login_slot s u st) = (ep_users st)(s \<mapsto> (u, 0))"
    using login_slot_client [OF t, of s u] assms(2)
    by (auto simp: ep_users_def login_slot_def user_ok_def fun_eq_iff)
  then show ?thesis by (intro chat.equality) (simp_all add: ch_set_user_def)
qed

lemma ep_logout_chat: "ep_chat (logout_slot s st) = ch_set_user s None (ep_chat st)"
proof -
  have "ep_users (logout_slot s st) = (ep_users st)(s := None)"
    by (auto simp: ep_users_def logout_slot_def fun_eq_iff)
  then show ?thesis by (intro chat.equality) (simp_all add: ch_set_user_def)
qed

definition ep_set_status :: "nat \<Rightarrow> nat \<Rightarrow> epoll \<Rightarrow> epoll" where
  "ep_set_status s n = upd_client s (\<lambda>c. c\<lparr>ec_status := n\<rparr>)"

lemma ep_status_chat:
  "ep_chat (ep_set_status s n st) = ch_set_user s (map_option (\<lambda>(u, k). (u, n)) (ep_users st s)) (ep_chat st)"
proof -
  have "ep_users (ep_set_status s n st) = (ep_users st)(s := map_option (\<lambda>(u, k). (u, n)) (ep_users st s))"
    by (auto simp: ep_users_def ep_set_status_def fun_eq_iff)
  moreover have "ep_stream (ep_set_status s n st) = ep_stream st"
    by (auto simp: ep_stream_def ep_set_status_def Let_def fun_eq_iff)
  ultimately show ?thesis by (intro chat.equality) (simp_all add: ch_set_user_def ep_set_status_def)
qed

lemma ep_leave_chat:
  assumes "ec_in_use (ep_clients st s)" "\<not> ec_active (ep_clients st s)"
  shows "ep_chat (disconnect_client e s st) = ch_close True s (ep_chat st)"
proof -
  have "ep_users (disconnect_client e s st) = ep_users st"
    using assms by (auto simp: disconnect_client_def Let_def ep_users_def zero_client_def fun_eq_iff)
  moreover have "ep_stream (disconnect_client e s st) = (ep_stream st)(s := [])"
    using assms by (simp add: disconnect_client_def Let_def free_stream fun_eq_iff)
  ultimately show ?thesis by (intro chat.equality) (simp_all add: ch_close_def)
qed

lemma ep_ready_set_status [simp]: "ep_ready n (ep_set_status s k st) = ep_ready n st"
  by (auto simp: ep_ready_def ep_set_status_def Let_def fun_eq_iff)

lemma wf_ep_sessions: "wf_epoll st \<Longrightarrow> list_all wf_session (sessions st)"
  using wf_table_name [of st] by (auto simp: sessions_def client_table_def list_all_iff wf_session_def wf_epoll_def wf_table_def wf_client_def)

lemma ep_list_chat:
  assumes "wf_epoll st"
  shows "user_list (sessions st) = ch_list (ep_chat st)"
proof -
  let ?g = "\<lambda>i. (ec_active (ep_clients st i), ec_username (ep_clients st i), ec_status (ep_clients st i))"
  have s: "sessions st = map ?g [0..<10]" by (simp add: sessions_def client_table_def)
  have "cstr (ec_username (ep_clients st i)) \<noteq> []" if "ec_active (ep_clients st i)" for i
    using wf_table_active [OF _ that] assms by (auto simp: wf_epoll_def user_ok_def)
  then show ?thesis
    using user_list_users [of ?g "[0..<10]" "ep_users st"] wf_ep_sessions [OF assms] s
    by (simp add: ch_list_def ep_users_def)
qed

lemma ep_put_chat:
  "ep_chat (st\<lparr>ep_files := fs\<rparr>) = (ep_chat st)\<lparr>ch_files := fs\<rparr>"
  "ep_chat (st\<lparr>ep_crashed := b\<rparr>) = (ep_chat st)\<lparr>ch_crashed := b\<rparr>"
  by (simp_all add: ep_chat_def) (simp_all add: ep_users_def ep_stream_def Let_def fun_eq_iff)

interpretation ep_server: chat_server ep_chat wf_epoll ep_ready slot_send find_by_user login_slot logout_slot
  disconnect_client ep_set_status "\<lambda>fs st. st\<lparr>ep_files := fs\<rparr>" "\<lambda>st. st\<lparr>ep_crashed := True\<rparr>"
  "\<lambda>st s. cstr (ec_username (ep_clients st s))" sessions False True
proof (unfold_locales, goal_cases)
  case (1 n st i m)
  then show ?case by (rule ep_send_chat)
next
  case (2 k st i j n m)
  then show ?case using ep_sink.send_ready_same [of n st i m] ep_sink.send_ready_other [of j i k st n m]
    by (cases "j = i") auto
next
  case (5 st u)
  then show ?case by (rule find_by_user_abs)
next
  case (11 st s e)
  then show ?case by (intro ep_leave_chat) (simp_all add: ep_ready_def ep_online_def Let_def)
next
  case (16 st s)
  then show ?case
    using wf_epoll_client [of st s] by (simp add: ch_name_def ep_users_def wf_client_def)
next
  case (17 st)
  then show ?case by (rule ep_list_chat)
qed (simp_all add: ep_login_chat ep_logout_chat ep_status_chat ep_put_chat ep_sink.ready_less)

lemma process_message_route: "process_message e s m st = ep_server.route_with e s m st"
proof -
  obtain n u p where "sscanf_user_pass (payload m) = (n, u, p)" by (metis prod_cases3)
  then show ?thesis
    by (cases "msg_type m") (simp_all add: process_message_def ep_server.route_with_def Let_def bcast_note_def
      send_others_sink ep_set_status_def flip: ep_online_def cong: option.case_cong)
qed

lemma ep_route_chat:
  assumes "wf_epoll st" "ep_ready 2 st s" "s < 10" "\<forall>i<10. ep_online st i \<longrightarrow> ep_ready 2 st i"
  shows "ep_chat (process_message e s m st) = spec_message False True e s m (ep_chat st)"
  using ep_server.route_refines [OF assms(1), of s e m] assms
  by (simp add: process_message_route ep_server.all_ready_def)

text \<open>C1: The message processor of the epoll server implements the abstract chat server: on
  every message type and every branch the users, streams, history files and crashes of the
  state after \<open>process_message\<close> are those \<open>spec_message\<close> gives, when
  the connections have room for two more messages.\<close>
theorem epoll_refines_chat:
  assumes "wf_epoll st" "ep_ready 2 st s" "s < 10" "\<forall>i<10. ep_online st i \<longrightarrow> ep_ready 2 st i"
  shows "ep_chat (process_message e s m st) = spec_message False True e s m (ep_chat st)"
  by (rule ep_route_chat [OF assms])

theorem epoll_refines_chat_witness:
  "ep_chat (process_message demo_env 0 (new_message 9 MSG_PRIVATE ''al'' ''bo'' ''hi'') demo) =
   spec_message False True demo_env 0 (new_message 9 MSG_PRIVATE ''al'' ''bo'' ''hi'') (ep_chat demo)"
  by (rule epoll_refines_chat) (auto simp: ep_online_def split: if_splits intro: demo_ready)

end
