(* ===== verification/Epoll_Chunks.thy ===== *)
theory Epoll_Chunks
  imports Epoll_Refines
begin

text \<open>
  The bytes of a connection may arrive in any pieces, each followed by a call of
  \<open>handle_read\<close>: \<open>reads\<close> is the sequence of those calls. As long as the
  receive buffer never fills up, the effect on users, streams, files and crashes is that of
  handling the messages of the whole byte sequence one after the other.
\<close>

subsection \<open>Frames of a sequence received in two parts\<close>

lemma frames_append:
  "frames (a @ b) =
     (case frames a of (ms, rest, bad) \<Rightarrow>
        if bad then (ms, rest @ b, True)
        else (case frames (rest @ b) of (ms', rest', bad') \<Rightarrow> (ms @ ms', rest', bad')))"
proof (induction a rule: frames.induct)
  case (1 a)
  define plen where "plen = unat (read_u16_be (a ! 74) (a ! 75))"
  consider (short) "length a < 76" | (long) "\<not> length a < 76" "plen > 1024"
    | (part) "\<not> length a < 76" "\<not> plen > 1024" "length a < 76 + plen"
    | (full) "\<not> length a < 76" "\<not> plen > 1024" "\<not> length a < 76 + plen" by blast
  then show ?case
  proof cases
    case short
    then show ?thesis by (simp add: frames.simps [of a] split: prod.split)
  next
    case part
    then show ?thesis by (simp add: frames.simps [of a] plen_def Let_def split: prod.split)
  next
    case long
    then have "(a @ b) ! 74 = a ! 74" "(a @ b) ! 75 = a ! 75" by (simp_all add: nth_append)
    with long show ?thesis by (simp add: frames.simps [of a] frames.simps [of "a @ b"] plen_def Let_def)
  next
    case full
    then have h: "(a @ b) ! 74 = a ! 74" "(a @ b) ! 75 = a ! 75" by (simp_all add: nth_append)
    have ih: "frames (drop (76 + plen) a @ b) = (case frames (drop (76 + plen) a) of (ms, rest, bad) \<Rightarrow>
        if bad then (ms, rest @ b, True)
        else (case frames (rest @ b) of (ms', rest', bad') \<Rightarrow> (ms @ ms', rest', bad')))"
      using 1 full by (simp add: plen_def)
    have "take (76 + plen) (a @ b) = take (76 + plen) a" "drop (76 + plen) (a @ b) = drop (76 + plen) a @ b"
      using full by simp_all
    with full h ih show ?thesis
      by (simp add: frames.simps [of a] frames.simps [of "a @ b"] plen_def [symmetric] Let_def split: prod.split option.split)
  qed
qed

lemma frames_rest: "frames a = (ms, rest, False) \<Longrightarrow> frames rest = ([], rest, False)"
proof (induction a arbitrary: ms rule: frames.induct)
  case (1 a)
  define plen where "plen = unat (read_u16_be (a ! 74) (a ! 75))"
  show ?case
  proof (cases "length a < 76 \<or> plen > 1024 \<or> length a < 76 + plen")
    case True
    with 1(2) have "a = rest" by (auto simp: frames.simps [of a] plen_def Let_def split: if_splits)
    with True 1(2) show ?thesis by (auto simp: frames.simps [of rest] plen_def Let_def split: if_splits)
  next
    case False
    obtain ms' rest' bad where f: "frames (drop (76 + plen) a) = (ms', rest', bad)" by (metis prod_cases3)
    with False 1(2) have "rest' = rest" "bad = False" by (auto simp: frames.simps [of a] plen_def Let_def)
    with 1(1) False f show ?thesis by (simp add: plen_def)
  qed
qed

subsection \<open>What no handler looks at\<close>

text \<open>Handling messages neither reads nor changes the input sides of the descriptors.\<close>

definition with_in :: "(nat \<Rightarrow> char list) \<Rightarrow> (nat \<Rightarrow> sock_end) \<Rightarrow> epoll \<Rightarrow> epoll" where
  "with_in x y st = st\<lparr>ep_kern := (ep_kern st)\<lparr>k_in := x, k_end := y\<rparr>\<rparr>"

lemma with_in_simps [simp]:
  "ep_clients (with_in x y st) = ep_clients st" "ep_files (with_in x y st) = ep_files st"
  "ep_crashed (with_in x y st) = ep_crashed st" "ep_kern (with_in x y st) = (ep_kern st)\<lparr>k_in := x, k_end := y\<rparr>"
  "with_in x y (with_in x2 y2 st) = with_in x y st"
  by (simp_all add: with_in_def)

lemma nb_write_in: "nb_write fd b (k\<lparr>k_in := x, k_end := y\<rparr>) = (case nb_write fd b k of (r, k') \<Rightarrow> (r, k'\<lparr>k_in := x, k_end := y\<rparr>))"
  by (simp add: nb_write_def split: list.split nb_res.split)

lemma slot_write_in: "slot_write fd w n (k\<lparr>k_in := x, k_end := y\<rparr>) = (case slot_write fd w n k of (r, k') \<Rightarrow> (r, k'\<lparr>k_in := x, k_end := y\<rparr>))"
proof (induction fd w n k rule: slot_write.induct)
  case (1 fd w n k)
  then show ?case
    by (simp add: slot_write.simps [of fd w n] nb_write_in split: prod.split nb_out.split)
qed

lemma epmod_in: "epmod fd ev (k\<lparr>k_in := x, k_end := y\<rparr>) = (epmod fd ev k)\<lparr>k_in := x, k_end := y\<rparr>"
  by (simp add: epmod_def)

lemma with_in_push [simp]: "slot_push i d (with_in x y st) = with_in x y (slot_push i d st)"
  by (simp add: with_in_def slot_push_def upd_client_def epmod_in Let_def)

lemma with_in_send [simp]: "slot_send i m (with_in x y st) = with_in x y (slot_send i m st)"
  by (auto simp: slot_send_def Let_def slot_write_in split: prod.split option.split)
   (simp_all add: with_in_def slot_push_def upd_client_def epmod_in Let_def)

lemma with_in_bcast [simp]:
  "send_others k m (with_in x y st) = with_in x y (send_others k m st)"
  "bcast_note e k note (with_in x y st) = with_in x y (bcast_note e k note st)"
proof -
  have "fold (\<lambda>i st. if i \<noteq> k \<and> ec_active (ep_clients st i) then slot_send i m st else st) xs (with_in x y st) =
      with_in x y (fold (\<lambda>i st. if i \<noteq> k \<and> ec_active (ep_clients st i) then slot_send i m st else st) xs st)" for xs m
    by (induction xs arbitrary: st) auto
  then show "send_others k m (with_in x y st) = with_in x y (send_others k m st)"
    "bcast_note e k note (with_in x y st) = with_in x y (bcast_note e k note st)"
    by (simp_all add: send_others_def bcast_note_def)
qed

lemma with_in_upd [simp]:
  "upd_client s f (with_in x y st) = with_in x y (upd_client s f st)"
  "(with_in x y st)\<lparr>ep_files := fs\<rparr> = with_in x y (st\<lparr>ep_files := fs\<rparr>)"
  "(with_in x y st)\<lparr>ep_crashed := b\<rparr> = with_in x y (st\<lparr>ep_crashed := b\<rparr>)"
  by (simp_all add: with_in_def upd_client_def)

lemma with_in_disconnect [simp]: "disconnect_client e s (with_in x y st) = with_in x y (disconnect_client e s st)"
  by (simp add: disconnect_client_def Let_def)

lemma with_in_table [simp]:
  "find_by_user (with_in x y st) u = find_by_user st u" "sessions (with_in x y st) = sessions st"
  "login_slot s u (with_in x y st) = with_in x y (login_slot s u st)"
  "logout_slot s (with_in x y st) = with_in x y (logout_slot s st)"
  by (simp_all add: find_by_user_def sessions_def client_table_def login_slot_def logout_slot_def)

lemma with_in_process [simp]: "process_message e s m (with_in x y st) = with_in x y (process_message e s m st)"
  by (auto simp: process_message_def Let_def split: msg_type_t.split prod.split option.split)

lemma with_in_messages [simp]: "run_messages e s ms (with_in x y st) = with_in x y (run_messages e s ms st)"
  by (induction ms arbitrary: st) (simp_all add: Let_def)

lemma with_in_frames [simp]: "run_frames e s bs (with_in x y st) = with_in x y (run_frames e s bs st)"
  by (simp add: run_frames_def Let_def split: prod.split)

text \<open>A state without the input side of slot \<open>s\<close>.\<close>

definition quiet :: "nat \<Rightarrow> epoll \<Rightarrow> epoll" where
  "quiet s st = with_in (\<lambda>_. []) (\<lambda>_. SockOpen) (strip s st)"

lemma quiet_frames: "run_frames e s bs (quiet s st) = quiet s (run_frames e s bs st)"
  by (simp add: quiet_def run_frames_strip)

lemma quiet_strip: "strip s a = strip s b \<Longrightarrow> quiet s a = quiet s b"
  by (simp add: quiet_def)

lemma ep_chat_quiet: "ep_chat (quiet s st) = ep_chat st"
  by (intro chat.equality) (auto simp: quiet_def ep_users_def ep_stream_def fun_eq_iff Let_def)

subsection \<open>A sequence of reads\<close>

text \<open>Bytes arrive; each arrival is followed by a call of \<open>handle_read\<close>. A
  server that has crashed does nothing more.\<close>

definition arrive :: "nat \<Rightarrow> char list \<Rightarrow> epoll \<Rightarrow> epoll" where
  "arrive fd bs st = st\<lparr>ep_kern := (ep_kern st)\<lparr>k_in := (k_in (ep_kern st))(fd := k_in (ep_kern st) fd @ bs)\<rparr>\<rparr>"

fun reads :: "env \<Rightarrow> nat \<Rightarrow> char list list \<Rightarrow> epoll \<Rightarrow> epoll" where
  "reads e fd [] st = st"
| "reads e fd (bs # chunks) st =
     (if ep_crashed st then st else reads e fd chunks (handle_read e fd (arrive fd bs st)))"

text \<open>The buffer has room for every chunk next to the incomplete message before it.\<close>

fun fits :: "char list \<Rightarrow> char list list \<Rightarrow> bool" where
  "fits left [] \<longleftrightarrow> True"
| "fits left (bs # chunks) \<longleftrightarrow> length (left @ bs) < nat RBUF_SIZE \<and> fits (fst (snd (frames (left @ bs)))) chunks"

lemma run_messages_append:
  assumes "\<not> ep_crashed st" "ec_in_use (ep_clients st s)"
  shows "run_messages e s (ms @ ms') st =
    (let st1 = run_messages e s ms st
     in if ep_crashed st1 \<or> \<not> ec_in_use (ep_clients st1 s) then st1 else run_messages e s ms' st1)"
  using assms by (induction ms arbitrary: st) (simp_all add: Let_def)

lemma run_frames_append:
  assumes "\<not> ep_crashed st" "ec_in_use (ep_clients st s)" "frames a = (ms, rest, bad)"
  shows "run_frames e s (a @ b) st =
    (let st1 = run_frames e s a st
     in if ep_crashed st1 \<or> \<not> ec_in_use (ep_clients st1 s) then st1 else run_frames e s (rest @ b) st1)"
proof -
  obtain ms' rest' bad' where f: "frames (rest @ b) = (ms', rest', bad')" by (metis prod_cases3)
  have free: "\<not> ec_in_use (ep_clients (disconnect_client e s x) s)" for x
    by (simp add: disconnect_client_def Let_def zero_client_def)
  show ?thesis
    using assms f run_messages_append [OF assms(1,2)] free
    by (cases bad) (auto simp: run_frames_def frames_append [of a b] Let_def disconnect_free)
qed

lemma process_message_others:
  "j \<noteq> s \<Longrightarrow> ec_in_use (ep_clients (process_message e s m st) j) = ec_in_use (ep_clients st j) \<and>
     ec_fd (ep_clients (process_message e s m st) j) = ec_fd (ep_clients st j)"
  by (auto simp: process_message_def Let_def login_slot_def logout_slot_def disconnect_client_def
      split: msg_type_t.split prod.split option.split)

lemma run_frames_kernel:
  "k_in (ep_kern (run_frames e s bs st)) = k_in (ep_kern st)"
  "k_end (ep_kern (run_frames e s bs st)) = k_end (ep_kern st)"
proof -
  have "with_in (k_in (ep_kern st)) (k_end (ep_kern st)) st = st" by (simp add: with_in_def)
  then have "run_frames e s bs st = with_in (k_in (ep_kern st)) (k_end (ep_kern st)) (run_frames e s bs st)"
    by (metis with_in_frames)
  then show "k_in (ep_kern (run_frames e s bs st)) = k_in (ep_kern st)"
    "k_end (ep_kern (run_frames e s bs st)) = k_end (ep_kern st)"
    by (metis with_in_simps(4) kernel.select_convs(1) kernel.select_convs(2) kernel.surjective kernel.update_convs(1) kernel.update_convs(2))+
qed

lemma disconnect_others:
  "j \<noteq> s \<Longrightarrow> ec_in_use (ep_clients (disconnect_client e s st) j) = ec_in_use (ep_clients st j) \<and>
     ec_fd (ep_clients (disconnect_client e s st) j) = ec_fd (ep_clients st j)"
  by (simp add: disconnect_client_def Let_def)

lemma run_messages_others:
  "j \<noteq> s \<Longrightarrow> ec_in_use (ep_clients (run_messages e s ms st) j) = ec_in_use (ep_clients st j) \<and>
     ec_fd (ep_clients (run_messages e s ms st) j) = ec_fd (ep_clients st j)"
  by (induction ms arbitrary: st) (simp_all add: Let_def process_message_others)

lemma run_frames_others:
  "j \<noteq> s \<Longrightarrow> ec_in_use (ep_clients (run_frames e s bs st) j) = ec_in_use (ep_clients st j) \<and>
     ec_fd (ep_clients (run_frames e s bs st) j) = ec_fd (ep_clients st j)"
  by (simp add: run_frames_def Let_def disconnect_others run_messages_others split: prod.split)

text \<open>As long as the slot is in use it keeps its descriptor.\<close>

lemma run_messages_fd:
  "ec_in_use (ep_clients st s) \<Longrightarrow> ec_in_use (ep_clients (run_messages e s ms st) s) \<Longrightarrow>
     ec_fd (ep_clients (run_messages e s ms st) s) = ec_fd (ep_clients st s)"
proof (induction ms arbitrary: st)
  case (Cons m ms)
  with process_message_slot [OF Cons.prems(1) refl, of e m] show ?case
    by (auto simp: Let_def split: if_splits)
qed simp

lemma arrive_simps [simp]:
  "ep_clients (arrive fd bs st) = ep_clients st" "ep_crashed (arrive fd bs st) = ep_crashed st"
  "find_by_fd (arrive fd bs st) fd' = find_by_fd st fd'" "rbuf_content (arrive fd bs st) s = rbuf_content st s"
  by (simp_all add: arrive_def find_by_fd_def client_table_def rbuf_content_def)

lemma quiet_arrive: "quiet s (arrive fd bs st) = quiet s st"
  by (simp add: arrive_def quiet_def with_in_def strip_def upd_client_def)

lemma reads_free: "find_by_fd st fd = None \<Longrightarrow> quiet s (reads e fd chunks st) = quiet s st"
proof (induction chunks arbitrary: st)
  case (Cons bs chunks)
  have "handle_read e fd (arrive fd bs st) = arrive fd bs st" using Cons.prems by (simp add: handle_read_def)
  with Cons.IH [of "arrive fd bs st"] Cons.prems show ?case by (simp add: quiet_arrive)
qed simp

lemma quietD:
  assumes "quiet s a = quiet s b"
  shows "ep_crashed a = ep_crashed b" "ec_in_use (ep_clients a j) = ec_in_use (ep_clients b j)"
    "ec_fd (ep_clients a j) = ec_fd (ep_clients b j)"
  using assms by (metis quiet_def strip_simps(3-6) with_in_simps(1,3))+

text \<open>One chunk: the frames it completes are handled, the rest stays.\<close>

lemma read_chunk:
  assumes "wf_epoll st" "\<not> ep_crashed st" "find_by_fd st fd = Some s"
    and "k_end (ep_kern st) fd = SockOpen" "k_in (ep_kern st) fd = []"
    and "length (rbuf_content st s @ c) < nat RBUF_SIZE" "st1 = handle_read e fd (arrive fd c st)"
  shows "strip s st1 = strip s (run_frames e s (rbuf_content st s @ c) st)" "wf_epoll st1"
    "ec_in_use (ep_clients st1 s) \<Longrightarrow> \<not> ep_crashed st1 \<Longrightarrow>
       rbuf_content st1 s = fst (snd (frames (rbuf_content st s @ c)))"
proof -
  have w: "wf_epoll (arrive fd c st)" unfolding arrive_def by (rule wf_kern [OF assms(1)]) simp_all
  have d: "drained fd (arrive fd c st) = st" using assms(5) by (simp add: drained_def arrive_def fun_upd_idem)
  have k: "k_end (ep_kern (arrive fd c st)) fd = SockOpen" "rbuf_content st s @ c = rbuf_content (arrive fd c st) s @ k_in (ep_kern (arrive fd c st)) fd"
    using assms(4,5) by (simp_all add: arrive_def) (simp add: rbuf_content_def)
  from handle_read_frames [OF w _ _ k] assms(2,3,6) d
  show "strip s st1 = strip s (run_frames e s (rbuf_content st s @ c) st)"
    "ec_in_use (ep_clients st1 s) \<Longrightarrow> \<not> ep_crashed st1 \<Longrightarrow>
       rbuf_content st1 s = fst (snd (frames (rbuf_content st s @ c)))"
    by (simp_all add: assms(7))
  show "wf_epoll st1" unfolding assms(7) by (rule wf_handle_read [OF w])
qed

lemma reads_frames:
  assumes "wf_epoll st" "\<not> ep_crashed st" "find_by_fd st fd = Some s"
    and "k_end (ep_kern st) fd = SockOpen" "k_in (ep_kern st) fd = []"
    and "frames (rbuf_content st s) = ([], rbuf_content st s, False)" "fits (rbuf_content st s) chunks"
  shows "quiet s (reads e fd chunks st) = quiet s (run_frames e s (rbuf_content st s @ concat chunks) st)"
  using assms
proof (induction chunks arbitrary: st)
  case Nil
  then show ?case by (simp add: run_frames_def)
next
  case (Cons c chunks)
  let ?b = "rbuf_content st s" and ?st1 = "handle_read e fd (arrive fd c st)"
  let ?run = "run_frames e s (?b @ c) st"
  obtain ms rest bad where f: "frames (?b @ c) = (ms, rest, bad)" by (metis prod_cases3)
  have fit: "length (?b @ c) < nat RBUF_SIZE" "fits rest chunks" using Cons.prems(7) f by simp_all
  note one = read_chunk [OF Cons.prems(1-5) fit(1) refl, of e]
  note q = quiet_strip [OF one(1)]
  note same = quietD [OF q] and kern = run_frames_kernel [of e s "?b @ c" st]
  have use: "ec_in_use (ep_clients st s)" "ec_fd (ep_clients st s) = fd" using find_by_fd_Some [OF Cons.prems(3)] by simp_all
  have all: "run_frames e s (?b @ concat (c # chunks)) st =
      (if ep_crashed ?run \<or> \<not> ec_in_use (ep_clients ?run s) then ?run else run_frames e s (rest @ concat chunks) ?run)"
    using run_frames_append [OF Cons.prems(2) use(1) f, of e "concat chunks"] by (simp add: Let_def)
  have step: "reads e fd (c # chunks) st = reads e fd chunks ?st1" using Cons.prems(2) by simp
  consider (dead) "ep_crashed ?run" | (free) "\<not> ep_crashed ?run" "\<not> ec_in_use (ep_clients ?run s)"
    | (on) "\<not> ep_crashed ?run" "ec_in_use (ep_clients ?run s)" by blast
  then show ?case
  proof cases
    case dead
    then have "reads e fd chunks ?st1 = ?st1" using same(1) by (cases chunks) simp_all
    with dead q show ?thesis by (simp only: all step if_True simp_thms)
  next
    case free
    have "\<not> (ec_in_use (ep_clients ?st1 j) \<and> ec_fd (ep_clients ?st1 j) = fd)" for j
    proof (cases "j = s")
      case False
      then show ?thesis
        using same(2,3) [of j] run_frames_others [OF False, of e "?b @ c" st] find_by_fd_in_use [OF Cons.prems(1), of j] Cons.prems(3) by auto
    qed (use free same in simp)
    then have "find_by_fd ?st1 fd = None" by (auto simp: find_by_fd_def find_slot_None_iff client_table_def)
    from reads_free [OF this, of s e chunks] q free show ?thesis by (simp only: all step simp_thms if_True)
  next
    case on
    have nb: "bad = False"
      using on f by (auto simp: run_frames_def Let_def disconnect_client_def zero_client_def split: if_splits)
    have run: "?run = run_messages e s ms st" using f nb by (simp add: run_frames_def)
    have fd1: "ec_fd (ep_clients ?st1 s) = fd" using run_messages_fd [OF use(1), of e ms] on run same(3) use(2) by simp
    have a: "\<not> ep_crashed ?st1" "ec_in_use (ep_clients ?st1 s)" using on same by simp_all
    have rb: "rbuf_content ?st1 s = rest" using one(3) a f by simp
    have kk: "k_end (ep_kern ?st1) fd = SockOpen" "k_in (ep_kern ?st1) fd = []"
      using arg_cong [OF one(1), of ep_kern] kern Cons.prems(4,5) by simp_all
    have "find_by_fd ?st1 fd = Some s" using find_by_fd_in_use [OF one(2) a(2)] fd1 by simp
    from Cons.IH [OF one(2) a(1) this kk] rb frames_rest [of "?b @ c" ms rest] f nb fit(2)
    have "quiet s (reads e fd chunks ?st1) = quiet s (run_frames e s (rest @ concat chunks) ?st1)" by simp
    also have "\<dots> = quiet s (run_frames e s (rest @ concat chunks) ?run)"
      using q by (metis quiet_frames)
    finally show ?thesis using on by (simp only: all step simp_thms if_False)
  qed
qed

section \<open>Properties\<close>



end
