(* ===== verification/Session_Refines.thy ===== *)
theory Session_Refines
  imports Client_Session Epoll_Chunks
begin

text \<open>
  A whole session against the epoll server: what the client's \<open>main\<close> writes on its
  connection, in whatever pieces it arrives, has on the server the effect the abstract chat
  server gives to the login and the typed commands, one after the other.
\<close>

subsection \<open>The abstract server on a sequence of messages of one connection\<close>

fun spec_messages :: "bool \<Rightarrow> bool \<Rightarrow> env \<Rightarrow> nat \<Rightarrow> Message list \<Rightarrow> chat \<Rightarrow> chat" where
  "spec_messages again closes e s [] ch = ch"
| "spec_messages again closes e s (m # ms) ch =
     (let ch1 = spec_message again closes e s m ch
      in if ch_crashed ch1 \<or> closes \<and> msg_type m = MSG_LOGOUT then ch1 else spec_messages again closes e s ms ch1)"

lemma spec_message_online:
  "msg_type m \<noteq> MSG_LOGOUT \<Longrightarrow> ch_online (spec_message again closes e s m ch) j \<Longrightarrow> j = s \<or> ch_online ch j"
  by (auto simp: spec_message_def ch_online_def ch_set_user_def ch_send_def ch_send_others_def
      split: msg_type_t.splits prod.splits option.splits if_splits)

context chat_server
begin

text \<open>Room for \<open>n\<close> messages on the connection itself and on every online one.\<close>

definition room :: "nat \<Rightarrow> 's \<Rightarrow> nat \<Rightarrow> bool" where
  "room n st s \<longleftrightarrow> ready n st s \<and> (\<forall>i<MAX_CLIENTS. ch_online (abs st) i \<longrightarrow> ready n st i)"

lemma room_all_ready: "room (Suc (Suc n)) st s \<Longrightarrow> all_ready st s"
  using ready_mono [of "Suc (Suc n)" st _ 2] by (auto simp: room_def all_ready_def)

lemma send_takes_one: "ready (Suc k) st i \<Longrightarrow> ready (Suc n) st j \<Longrightarrow> ready n (send i m st) j"
  using send_keeps_ready [of k st i j n m] ready_mono [of "Suc n" st j n] by (cases "j = i") auto

lemma broadcast_takes_one:
  assumes "\<forall>i<MAX_CLIENTS. i \<noteq> s \<longrightarrow> ch_online (abs st) i \<longrightarrow> ready (Suc n) st i" "ready (Suc n) st j"
  shows "ready n (to_others s m [0..<MAX_CLIENTS] st) j"
proof -
  let ?R = "{i. ready (Suc n) st i}"
  have "\<forall>i\<in>?R. ready (if i \<in> set [0..<MAX_CLIENTS] \<and> i \<noteq> s then Suc n else n) st i"
    using ready_mono [of "Suc n" st _ n] by auto
  from to_others_loop [OF _ this, of m 0] assms show ?thesis by auto
qed

text \<open>One message takes room for at most two.\<close>

lemma route_takes_two:
  assumes "invar st" "room (Suc (Suc n)) st s" "msg_type m \<noteq> MSG_LOGOUT"
    and "\<not> ch_crashed (abs (route_with e s m st))" "ready (Suc (Suc n)) st j"
  shows "ready n (route_with e s m st) j"
proof -
  have s: "ready (Suc (Suc n)) st s" and on: "\<And>i. i < MAX_CLIENTS \<Longrightarrow> ch_online (abs st) i \<Longrightarrow> ready (Suc (Suc n)) st i"
    using assms(2) by (auto simp: room_def)
  have j1: "ready (Suc n) st j" using ready_mono [OF assms(5), of "Suc n"] by simp
  have one: "ready n (send s x st') j" if "ready (Suc (Suc n)) st' s" "ready (Suc n) st' j" for x st'
    using send_takes_one [OF that(1)] that(2) by blast
  note here = one [OF s j1]
  show ?thesis
  proof (cases "msg_type m")
    case MSG_LOGIN
    obtain k u p where sc: "sscanf_user_pass (payload m) = (k, u, p)" by (metis prod_cases3)
    have "ready n (send s x (login s u st)) j" for x by (rule one) (simp_all add: ready_ops s j1)
    with MSG_LOGIN sc here show ?thesis by (simp add: route_with_def)
  next
    case MSG_LOGOUT
    with assms(3) show ?thesis by simp
  next
    case MSG_BROADCAST
    show ?thesis
    proof (cases "save_history e (sender m) [] (payload m) (timestamp m) (ch_files (abs st))")
      case None
      with MSG_BROADCAST here assms(4) show ?thesis by (auto simp: route_with_def crash_abs split: if_splits)
    next
      case (Some fs)
      let ?st = "to_others s m [0..<MAX_CLIENTS] (put_files fs st)"
      have o: "\<forall>i<MAX_CLIENTS. i \<noteq> s \<longrightarrow> ch_online (abs (put_files fs st)) i \<longrightarrow> ready (Suc (Suc n)) (put_files fs st) i"
        using on by (simp add: files_abs ready_ops)
      have "ready (Suc n) ?st j" "ready (Suc n) ?st s"
        by (rule broadcast_takes_one [OF o]; simp add: ready_ops assms(5) s)+
      then have "ready n (send s x ?st) j" for x using send_takes_one by blast
      with MSG_BROADCAST Some here show ?thesis by (simp add: route_with_def)
    qed
  next
    case MSG_PRIVATE
    show ?thesis
    proof (cases "ch_online (abs st) s \<and> lookup st (receiver m) \<noteq> None")
      case False
      with MSG_PRIVATE here show ?thesis by (auto simp: route_with_def)
    next
      case True
      then obtain t where t: "lookup st (receiver m) = Some t" by auto
      then have "ready (Suc (Suc n)) st t" using lookup_abs [OF assms(1)] ch_find_Some on by auto
      then have "ready (Suc n) (send t m (put_files fs st)) j" "ready (Suc n) (send t m (put_files fs st)) s" for fs
        by (auto intro!: send_takes_one simp: ready_ops assms(5) s)
      then have "ready n (send s x (send t m (put_files fs st))) j" for x fs using send_takes_one by blast
      with MSG_PRIVATE t True assms(4) show ?thesis by (auto simp: route_with_def crash_abs split: option.splits)
    qed
  next
    case MSG_STATUS_CHANGE
    have "ready n (send s x (set_status s k st)) j" for x k by (rule one) (simp_all add: ready_ops s j1)
    with MSG_STATUS_CHANGE show ?thesis by (simp add: route_with_def)
  qed (simp_all add: route_with_def here)
qed

lemma route_room:
  assumes "invar st" "s < MAX_CLIENTS" "room (Suc (Suc n)) st s" "msg_type m \<noteq> MSG_LOGOUT"
    and "\<not> ch_crashed (abs (route_with e s m st))"
  shows "room n (route_with e s m st) s"
  using route_takes_two [OF assms(1,3-5)] route_refines [OF assms(1,2) room_all_ready [OF assms(3)], of e m]
    spec_message_online [OF assms(4), of again closes e s "abs st"] assms(3)
  by (auto simp: room_def)

end

lemma run_messages_chat:
  assumes "wf_epoll st" "ec_in_use (ep_clients st s)" "ep_server.room (2 * length ms) st s"
  shows "ep_chat (run_messages e s ms st) = spec_messages False True e s ms (ep_chat st)"
  using assms
proof (induction ms arbitrary: st)
  case (Cons m ms)
  let ?st = "process_message e s m st"
  have s: "s < 10" using Cons.prems(1,2) by (simp add: wf_epoll_def wf_table_def)
  have r: "ep_server.room (Suc (Suc (2 * length ms))) st s" using Cons.prems(3) by simp
  have chat: "ep_chat ?st = spec_message False True e s m (ep_chat st)"
    using ep_server.route_refines [OF Cons.prems(1) s ep_server.room_all_ready [OF r]] by (simp add: process_message_route)
  have use: "ec_in_use (ep_clients ?st s) \<longleftrightarrow> msg_type m \<noteq> MSG_LOGOUT"
    using process_message_slot [OF Cons.prems(2) refl, of e m] by (simp split: if_splits)
  show ?case
  proof (cases "ep_crashed ?st \<or> msg_type m = MSG_LOGOUT")
    case True
    with chat use show ?thesis by (auto simp: Let_def simp flip: chat)
  next
    case False
    then have "ep_server.room (2 * length ms) ?st s"
      using ep_server.route_room [OF Cons.prems(1) s r, of m e] by (simp add: process_message_route)
    from Cons.IH [OF wf_process_message [OF Cons.prems(1,2)] _ this] use False
    show ?thesis by (simp add: Let_def flip: chat)
  qed
qed simp

subsection \<open>Pieces that fit\<close>

text \<open>Of a sequence of whole messages, pieces of up to 16 bytes always fit into the receive
  buffer next to the incomplete message before them.\<close>

lemma frames_rest_length: "length (fst (snd (frames bs))) \<le> length bs"
proof (induction bs rule: frames.induct)
  case (1 bs)
  let ?tot = "76 + unat (read_u16_be (bs ! 74) (bs ! 75))"
  obtain ms rest bad where f: "frames (drop ?tot bs) = (ms, rest, bad)" by (metis prod_cases3)
  with 1 [OF _ refl refl] have "\<not> length bs < 76 \<Longrightarrow> \<not> 1024 < ?tot - 76 \<Longrightarrow> \<not> length bs < ?tot \<Longrightarrow> length rest \<le> length bs"
    by fastforce
  with f show ?case by (auto simp: frames.simps [of bs] Let_def)
qed

lemma incomplete_length:
  assumes "frames left = ([], left, False)"
  shows "length left < 1100"
proof -
  let ?tot = "76 + unat (read_u16_be (left ! 74) (left ! 75))"
  have "length (fst (snd (frames (drop ?tot left)))) \<le> length left - ?tot"
    using frames_rest_length [of "drop ?tot left"] by simp
  with assms show ?thesis
    by (cases "length left < 76") (auto simp: frames.simps [of left] Let_def split: if_splits prod.splits option.splits)
qed

lemma fits_small:
  assumes "frames (left @ concat chunks) = (ms, rest, False)" "frames left = ([], left, False)"
    and "\<forall>c\<in>set chunks. length c \<le> 16"
  shows "fits left chunks"
  using assms
proof (induction chunks arbitrary: left ms)
  case (Cons c chunks)
  obtain ms1 left1 bad where f: "frames (left @ c) = (ms1, left1, bad)" by (metis prod_cases3)
  have all: "frames ((left @ c) @ concat chunks) = (ms, rest, False)" using Cons.prems(1) by simp
  then have b: "\<not> bad" using f by (auto simp only: frames_append [of "left @ c"] split: if_splits)
  then obtain ms' where "frames (left1 @ concat chunks) = (ms', rest, False)"
    using all f by (auto simp: frames_append [of "left @ c"] simp del: append_assoc split: prod.splits)
  moreover have "frames left1 = ([], left1, False)" using frames_rest [of "left @ c"] f b by simp
  ultimately have "fits left1 chunks" using Cons.IH Cons.prems(3) by auto
  moreover have "length (left @ c) < nat RBUF_SIZE" using incomplete_length [OF Cons.prems(2)] Cons.prems(3) by fastforce
  ultimately show ?case using f by simp
qed simp

section \<open>The property\<close>


definition session_to_demo :: client_env where
  "session_to_demo = \<lparr>ce_registered_at = 7, ce_login_at = 8, ce_clock = (\<lambda>k. 9 + of_nat k),
     ce_resolve = (\<lambda>_. None), ce_disc = (\<lambda>_. None),
     ce_chat = (\<lambda>to. Some (\<lparr>r_bytes = pack_message (server_reply demo_env MSG_ACK ''cy'' ''Login successful''), r_script = [RData 9]\<rparr>,
                   \<lparr>w_out = [], w_script = [WData 5, WIntr]\<rparr>)),
     ce_thread = True, ce_pass = ''pw'', ce_alive = (\<lambda>_. True)\<rparr>"


end
