(* ===== verification/Thread_Server.thy ===== *)
theory Thread_Server
  imports Chat_Common Stream_IO
begin

text \<open>
  The thread server, \<open>src/chat_server_thread.c\<close>: the client table shared by the
  threads, the steps of a client thread (\<open>client_thread\<close> and \<open>route\<close>
  cut where another thread may run), the accept branch of \<open>main\<close> and the
  relation \<open>th_step\<close> of all interleavings. The credential check, the history
  and the user list are those of \<open>Chat_Common\<close>, whose text the file repeats.
\<close>

subsection \<open>The state\<close>

record tclient =
  tc_sockfd :: nat
  tc_username :: "char list"
  tc_active :: bool
  tc_in_use :: bool
  tc_status :: nat

text \<open>\<open>ts_in\<close> and \<open>ts_out\<close> are the two directions of each
  descriptor, \<open>ts_open\<close> tells the open ones.\<close>

record tstate =
  ts_clients :: "nat \<Rightarrow> tclient"
  ts_in :: "nat \<Rightarrow> rsock"
  ts_out :: "nat \<Rightarrow> wsock"
  ts_open :: "nat \<Rightarrow> bool"
  ts_files :: files
  ts_crashed :: bool

definition zero_tclient :: tclient where
  "zero_tclient = \<lparr>tc_sockfd = 0, tc_username = zeros MAX_USERNAME_LEN, tc_active = False, tc_in_use = False, tc_status = 0\<rparr>"

definition upd_tclient :: "nat \<Rightarrow> (tclient \<Rightarrow> tclient) \<Rightarrow> tstate \<Rightarrow> tstate" where
  "upd_tclient s f st = st\<lparr>ts_clients := (ts_clients st)(s := f (ts_clients st s))\<rparr>"

definition tclient_table :: "tstate \<Rightarrow> tclient list" where
  "tclient_table st = map (ts_clients st) [0..<MAX_CLIENTS]"

subsection \<open>Helpers\<close>

definition th_find_user :: "tstate \<Rightarrow> char list \<Rightarrow> nat option" where
  "th_find_user st u =
     find_slot (\<lambda>c. tc_active c \<and> strneq MAX_USERNAME_LEN (tc_username c) u) (tclient_table st)"

definition th_find_free :: "tstate \<Rightarrow> nat option" where
  "th_find_free st = find_slot (\<lambda>c. \<not> tc_in_use c) (tclient_table st)"

text \<open>A send under the slot's \<open>send_lock\<close>. On a closed descriptor the write
  fails at once; the result of \<open>send_message\<close> is not looked at.\<close>

definition th_slot_send :: "nat \<Rightarrow> Message \<Rightarrow> tstate \<Rightarrow> tstate" where
  "th_slot_send s m st =
     (let fd = tc_sockfd (ts_clients st s)
      in if ts_open st fd then st\<lparr>ts_out := (ts_out st)(fd := snd (send_message (ts_out st fd) m))\<rparr> else st)"

definition th_login_slot :: "nat \<Rightarrow> char list \<Rightarrow> tstate \<Rightarrow> tstate" where
  "th_login_slot s u = upd_tclient s (\<lambda>c. c\<lparr>
     tc_username := strncpy (tc_username c) u (MAX_USERNAME_LEN - 1), tc_active := True,
     tc_status := status_code STATUS_AVAILABLE\<rparr>)"

definition th_logout_slot :: "nat \<Rightarrow> tstate \<Rightarrow> tstate" where
  "th_logout_slot s = upd_tclient s (\<lambda>c. c\<lparr>tc_active := False, tc_username := zeros MAX_USERNAME_LEN\<rparr>)"

definition th_sessions :: "tstate \<Rightarrow> session list" where
  "th_sessions st = map (\<lambda>c. (tc_active c, tc_username c, tc_status c)) (tclient_table st)"

subsection \<open>The steps of a thread\<close>

text \<open>
  What a thread does between two points where another thread may run: a critical section
  of \<open>table_lock\<close>, a send under a \<open>send_lock\<close>, one round of a loop over
  the table (which reads \<open>active\<close> without a lock), one use of a file, one
  \<open>recv_message\<close>, one \<open>close\<close>. The code of a thread is the list of what
  it has still to do; an early \<open>return\<close> puts nothing on it.
\<close>

datatype action =
    ARecv
  | ARoute Message
  | ALogin "char list" "char list"
  | ALogout "char list"
  | ANote "char list"
  | ABcast nat Message
  | ASave "char list" "char list" "char list" "64 word"
  | AFind Message
  | AList "char list"
  | AHistory "char list"
  | AStatus "char list" "char list"
  | ASend nat Message
  | ACleanup
  | AClose

text \<open>\<open>route\<close> up to its first step.\<close>

definition route :: "env \<Rightarrow> nat \<Rightarrow> Message \<Rightarrow> tstate \<Rightarrow> action list" where
  "route e s msg st =
     (case msg_type msg of
        MSG_LOGIN \<Rightarrow>
          (case sscanf_user_pass (payload msg) of (n, u, p) \<Rightarrow>
             if n \<noteq> 2 then [ASend s (error_reply e [] ''Bad login format'')] else [ALogin u p])
      | MSG_LOGOUT \<Rightarrow>
          [ALogout (snprintf 64 (cstr (tc_username (ts_clients st s)) @ '' left''))]
      | MSG_BROADCAST \<Rightarrow>
          (if \<not> tc_active (ts_clients st s) then [ASend s (error_reply e [] ''Not authenticated'')]
           else [ASave (sender msg) [] (payload msg) (timestamp msg), ABcast 0 msg,
                 ASend s (server_reply e MSG_ACK (sender msg) [])])
      | MSG_PRIVATE \<Rightarrow>
          (if \<not> tc_active (ts_clients st s) then [ASend s (error_reply e [] ''Not authenticated'')]
           else [AFind msg])
      | MSG_LIST_USERS \<Rightarrow> [AList (sender msg)]
      | MSG_HISTORY_REQ \<Rightarrow> [AHistory (sender msg)]
      | MSG_STATUS_CHANGE \<Rightarrow> [AStatus (payload msg) (sender msg)]
      | _ \<Rightarrow> [ASend s (error_reply e (sender msg) ''Unknown type'')])"

text \<open>\<open>bcast_note\<close>: the message is made once and its loop over the table is still
  to be run. The thread of the slot is the one that is skipped.\<close>

definition th_bcast_note :: "env \<Rightarrow> char list \<Rightarrow> action list" where
  "th_bcast_note e note = [ABcast 0 (new_message (e_now e) MSG_BROADCAST ''server'' [] note)]"

declare th_bcast_note_def [simp]

text \<open>One step of the thread of slot \<open>s\<close>: the state afterwards and what the
  thread has to do first. \<open>ACleanup\<close> and \<open>AClose\<close> are the end of
  \<open>client_thread\<close>; \<open>stk\<close> is what its uninitialised array
  \<open>uname\<close> holds (and what follows it in memory): \<open>strncpy\<close> sets the
  first 31 bytes of it.\<close>

fun th_act :: "env \<Rightarrow> nat \<Rightarrow> char list \<Rightarrow> action \<Rightarrow> tstate \<Rightarrow> tstate \<times> action list" where
  "th_act e s stk ARecv st =
     (let fd = tc_sockfd (ts_clients st s)
      in if \<not> ts_open st fd then (st, [ACleanup])
         else (case recv_message (ts_in st fd) of
                 (None, rs) \<Rightarrow> (st\<lparr>ts_in := (ts_in st)(fd := rs)\<rparr>, [ACleanup])
               | (Some m, rs) \<Rightarrow>
                   (st\<lparr>ts_in := (ts_in st)(fd := rs)\<rparr>,
                    [ARoute m, if msg_type m = MSG_LOGOUT then ACleanup else ARecv])))"
| "th_act e s stk (ARoute m) st = (st, route e s m st)"
| "th_act e s stk (ALogin u p) st =
     (if th_find_user st u \<noteq> None then (st, [ASend s (error_reply e u ''Already logged in'')])
      else if \<not> validate e u p then (st, [ASend s (error_reply e u ''Invalid credentials'')])
      else (th_login_slot s u st, [ASend s (server_reply e MSG_ACK u ''Login successful'')]))"
| "th_act e s stk (ALogout note) st = (th_logout_slot s st, [ANote note])"
| "th_act e s stk (ANote note) st = (st, th_bcast_note e note)"
| "th_act e s stk (ABcast i m) st =
     (if i < MAX_CLIENTS
      then (st, (if i \<noteq> s \<and> tc_active (ts_clients st i) then [ASend i m] else []) @ [ABcast (Suc i) m])
      else (st, []))"
| "th_act e s stk (ASave who rcp text ts) st =
     (case save_history e who rcp text ts (ts_files st) of
        None \<Rightarrow> (st\<lparr>ts_crashed := True\<rparr>, [])
      | Some fs \<Rightarrow> (st\<lparr>ts_files := fs\<rparr>, []))"
| "th_act e s stk (AFind msg) st =
     (case th_find_user st (receiver msg) of
        None \<Rightarrow> (st, [ASend s (error_reply e (sender msg) ''User not online'')])
      | Some t \<Rightarrow>
          (st, [ASave (sender msg) (receiver msg) (payload msg) (timestamp msg), ASend t msg,
                ASend s (server_reply e MSG_ACK (sender msg) [])]))"
| "th_act e s stk (AList who) st =
     (st, [ASend s (server_reply e MSG_USER_LIST who (user_list (th_sessions st)))])"
| "th_act e s stk (AHistory who) st =
     (st, [ASend s (server_reply e MSG_HISTORY_RESP who (read_history (ts_files st) who))])"
| "th_act e s stk (AStatus p who) st =
     (upd_tclient s (\<lambda>c. c\<lparr>tc_status := status_code (status_of_payload p)\<rparr>) st,
      [ASend s (server_reply e MSG_ACK who ''Status updated'')])"
| "th_act e s stk (ASend t m) st = (th_slot_send t m st, [])"
| "th_act e s stk ACleanup st =
     (let c = ts_clients st s
      in (upd_tclient s (\<lambda>c. c\<lparr>tc_active := False, tc_in_use := False, tc_username := zeros MAX_USERNAME_LEN\<rparr>) st,
          (if tc_active c then [ANote (snprintf 64 (cstr (strncpy stk (tc_username c) (MAX_USERNAME_LEN - 1)) @ '' disconnected''))] else []) @ [AClose]))"
| "th_act e s stk AClose st = (st\<lparr>ts_open := (ts_open st)(tc_sockfd (ts_clients st s) := False)\<rparr>, [])"

subsection \<open>The server\<close>

record tthread =
  th_slot :: nat
  th_stack :: "char list"
  th_todo :: "action list"

record tserver =
  sv_state :: tstate
  sv_threads :: "tthread list"

text \<open>The accept branch of \<open>main\<close> with the new thread; \<open>spawned\<close>
  tells whether \<open>pthread_create\<close> succeeds, \<open>stk\<close> what the new thread
  finds on its stack.\<close>

definition th_accept ::
  "env \<Rightarrow> nat \<Rightarrow> rsock \<Rightarrow> wsock \<Rightarrow> bool \<Rightarrow> char list \<Rightarrow> tserver \<Rightarrow> tserver \<times> wsock" where
  "th_accept e cfd rs ws spawned stk sv =
     (let st = sv_state sv
      in case th_find_free st of
           None \<Rightarrow> (sv, snd (send_message ws (error_reply e [] ''Server full'')))
         | Some slot \<Rightarrow>
             let st1 = upd_tclient slot (\<lambda>c. c\<lparr>tc_sockfd := cfd, tc_in_use := True, tc_active := False,
                         tc_status := status_code STATUS_AVAILABLE, tc_username := zeros MAX_USERNAME_LEN\<rparr>)
                       (st\<lparr>ts_in := (ts_in st)(cfd := rs), ts_out := (ts_out st)(cfd := ws),
                          ts_open := (ts_open st)(cfd := True)\<rparr>)
             in if spawned
                then (\<lparr>sv_state = st1, sv_threads = sv_threads sv @ [\<lparr>th_slot = slot, th_stack = stk, th_todo = [ARecv]\<rparr>]\<rparr>, ws)
                else (\<lparr>sv_state = upd_tclient slot (\<lambda>c. c\<lparr>tc_in_use := False\<rparr>)
                                    (st1\<lparr>ts_open := (ts_open st1)(cfd := False)\<rparr>),
                       sv_threads = sv_threads sv\<rparr>, ws))"

text \<open>The next step of thread \<open>i\<close>.\<close>

definition th_run :: "env \<Rightarrow> nat \<Rightarrow> tserver \<Rightarrow> tserver" where
  "th_run e i sv =
     (let t = sv_threads sv ! i
      in case th_todo t of
           [] \<Rightarrow> sv
         | a # rest \<Rightarrow>
             (case th_act e (th_slot t) (th_stack t) a (sv_state sv) of
                (st, new) \<Rightarrow> \<lparr>sv_state = st, sv_threads = (sv_threads sv)[i := t\<lparr>th_todo := new @ rest\<rparr>]\<rparr>))"

definition th_start :: "files \<Rightarrow> tserver" where
  "th_start fs = \<lparr>sv_state = \<lparr>ts_clients = (\<lambda>_. zero_tclient), ts_in = (\<lambda>_. \<lparr>r_bytes = [], r_script = []\<rparr>),
     ts_out = (\<lambda>_. \<lparr>w_out = [], w_script = []\<rparr>), ts_open = (\<lambda>_. False), ts_files = fs, ts_crashed = False\<rparr>,
     sv_threads = []\<rparr>"

text \<open>Any interleaving: a new connection on a descriptor that is not open, or a step of
  any thread. With \<open>clean\<close> the accepted connections have no write errors.\<close>

inductive th_step :: "bool \<Rightarrow> tserver \<Rightarrow> tserver \<Rightarrow> bool" for clean :: bool where
  th_step_accept: "\<not> ts_crashed (sv_state sv) \<Longrightarrow> \<not> ts_open (sv_state sv) cfd \<Longrightarrow> w_out ws = [] \<Longrightarrow>
     (clean \<longrightarrow> no_wr_err ws) \<Longrightarrow> th_step clean sv (fst (th_accept e cfd rs ws spawned stk sv))"
| th_step_run: "\<not> ts_crashed (sv_state sv) \<Longrightarrow> i < length (sv_threads sv) \<Longrightarrow> th_step clean sv (th_run e i sv)"

inductive th_reachable :: "bool \<Rightarrow> tserver \<Rightarrow> bool" for clean :: bool where
  th_reach_start: "th_reachable clean (th_start fs)"
| th_reach_step: "th_reachable clean sv \<Longrightarrow> th_step clean sv sv' \<Longrightarrow> th_reachable clean sv'"

end
