(* ===== verification/Thread_Invariant.thy ===== *)
theory Thread_Invariant
  imports Thread_Server
begin

text \<open>
  Invariants of the thread server, \<open>src/chat_server_thread.c\<close>, that hold under
  every interleaving. \<open>threads_inv\<close> ties an invariant of the shared state to one
  of what each thread has still to do, and \<open>threads_inv_run\<close> reduces its
  preservation to single actions. It is used three times: for the client table
  (\<open>sv_inv\<close>), for the framing of the output (\<open>framed\<close>) and for the
  length of what a thread has to do (\<open>todo_ok\<close>). \<open>th_table\<close>
  interprets \<open>session_table\<close>.
\<close>

subsection \<open>The table\<close>

lemma upd_tclient_simps [simp]:
  "ts_clients (upd_tclient s f st) = (ts_clients st)(s := f (ts_clients st s))"
  "ts_in (upd_tclient s f st) = ts_in st" "ts_out (upd_tclient s f st) = ts_out st"
  "ts_open (upd_tclient s f st) = ts_open st" "ts_files (upd_tclient s f st) = ts_files st"
  "ts_crashed (upd_tclient s f st) = ts_crashed st"
  by (simp_all add: upd_tclient_def)

lemma tclient_table_nth [simp]: "i < 10 \<Longrightarrow> tclient_table st ! i = ts_clients st i"
  and length_tclient_table [simp]: "length (tclient_table st) = 10"
  by (simp_all add: tclient_table_def)

definition wf_tclient :: "tclient \<Rightarrow> bool" where
  "wf_tclient c \<longleftrightarrow> canonical_name (tc_username c) \<and> tc_status c < 3 \<and>
     (if tc_active c then user_ok (cstr (tc_username c)) else cstr (tc_username c) = [])"

definition wf_ttable :: "tstate \<Rightarrow> bool" where
  "wf_ttable st \<longleftrightarrow> (\<forall>i. wf_tclient (ts_clients st i)) \<and> (\<forall>i. tc_active (ts_clients st i) \<longrightarrow> i < 10)"

definition th_names :: "tstate \<Rightarrow> nat \<Rightarrow> char list option" where
  "th_names st i = (if tc_active (ts_clients st i) then Some (cstr (tc_username (ts_clients st i))) else None)"

lemma wf_ttable_name: "wf_ttable st \<Longrightarrow> length (cstr (tc_username (ts_clients st i))) \<le> 31"
  using canonical_length length_cstr_terminated by (auto simp: wf_ttable_def wf_tclient_def)

lemma th_find_user_Some:
  assumes "wf_ttable st" "th_find_user st u = Some i"
  shows "i < 10 \<and> tc_active (ts_clients st i) \<and> cstr (tc_username (ts_clients st i)) = cstr u"
proof -
  from find_slot_SomeD [OF assms(2) [unfolded th_find_user_def]]
  have "i < 10" "tc_active (ts_clients st i)" "strneq 32 (tc_username (ts_clients st i)) u" by auto
  with strneq_short [of "tc_username (ts_clients st i)" 32 u] wf_ttable_name [OF assms(1), of i]
  show ?thesis by simp
qed

lemma th_find_user_None:
  assumes "wf_ttable st" "th_find_user st u = None" "tc_active (ts_clients st i)"
  shows "cstr (tc_username (ts_clients st i)) \<noteq> cstr u"
proof -
  have "i < 10" using assms(1,3) by (simp add: wf_ttable_def)
  with find_slot_NoneD [OF assms(2) [unfolded th_find_user_def], of i] assms(3)
  show ?thesis by (auto simp: strneq_def)
qed

lemma th_login_client:
  assumes "wf_ttable st"
  shows "ts_clients (th_login_slot s u st) s = (ts_clients st s)\<lparr>tc_username := strncpy (zeros 32) u 31,
    tc_active := True, tc_status := 0\<rparr>"
proof -
  have "canonical_name (tc_username (ts_clients st s))" using assms by (simp add: wf_ttable_def wf_tclient_def)
  from strncpy_onto_canonical [OF this] show ?thesis by (simp add: th_login_slot_def)
qed

interpretation th_table: session_table th_names th_find_user th_login_slot th_logout_slot wf_ttable 10
proof (unfold_locales, goal_cases)
  case (1 st u i)
  then show ?case using th_find_user_Some [of st u i] by (simp add: th_names_def)
next
  case (2 st u i)
  then show ?case using th_find_user_None [of st u i] by (auto simp: th_names_def)
next
  case (3 st i u)
  then show ?case
    using th_login_client [OF 3(1), of i u]
    by (auto simp: th_names_def th_login_slot_def user_ok_def fun_eq_iff)
next
  case (4 st i)
  then show ?case by (auto simp: th_names_def th_logout_slot_def fun_eq_iff)
qed

definition wf_tstate :: "tstate \<Rightarrow> bool" where
  "wf_tstate st \<longleftrightarrow> wf_ttable st \<and> th_table.unique_names st"

lemma th_slot_send_frame [simp]:
  "ts_clients (th_slot_send i m st) = ts_clients st" "ts_files (th_slot_send i m st) = ts_files st"
  "ts_crashed (th_slot_send i m st) = ts_crashed st" "ts_open (th_slot_send i m st) = ts_open st"
  "ts_in (th_slot_send i m st) = ts_in st"
  by (simp_all add: th_slot_send_def Let_def)

lemma wf_tstate_clients: "ts_clients st' = ts_clients st \<Longrightarrow> wf_tstate st' = wf_tstate st"
  by (simp add: wf_tstate_def wf_ttable_def th_table.unique_names_def th_names_def)

lemma wf_th_login:
  assumes "wf_tstate st" "s < 10" "user_ok u" "th_find_user st u = None"
  shows "wf_tstate (th_login_slot s u st)"
proof -
  have t: "wf_ttable st" using assms(1) by (simp add: wf_tstate_def)
  have u: "take 31 (cstr u) = u" using assms(3) by (simp add: user_ok_def)
  have "wf_tclient (ts_clients (th_login_slot s u st) s)"
    using t assms(3) u by (simp add: th_login_client [OF t]) (simp add: wf_ttable_def wf_tclient_def)
  with t assms(2) have "wf_ttable (th_login_slot s u st)"
    by (auto simp: wf_ttable_def th_login_slot_def)
  with th_table.login_unique [OF t assms(2,3)] assms(1,4) show ?thesis by (simp add: wf_tstate_def)
qed

lemma th_names_reset:
  assumes "ts_clients st' = (ts_clients st)(s := c)" "\<not> tc_active c"
  shows "th_names st' = (th_names st)(s := None)"
  using assms by (auto simp: th_names_def fun_eq_iff)

lemma wf_th_reset:
  assumes "wf_tstate st" "ts_clients st' = (ts_clients st)(s := c)" "\<not> tc_active c" "wf_tclient c"
  shows "wf_tstate st'"
  using assms th_names_reset [OF assms(2,3)]
  by (auto simp: wf_tstate_def wf_ttable_def th_table.unique_names_def split: if_splits)

lemma wf_th_status:
  assumes "wf_tstate st" "n < 3"
  shows "wf_tstate (upd_tclient s (\<lambda>c. c\<lparr>tc_status := n\<rparr>) st)"
  using assms by (auto simp: wf_tstate_def wf_ttable_def th_table.unique_names_def th_names_def wf_tclient_def
    split: if_splits)

text \<open>The logins a thread has still to do carry names the format accepts.\<close>

definition login_ok :: "action \<Rightarrow> bool" where
  "login_ok a \<longleftrightarrow> (case a of ALogin u p \<Rightarrow> user_ok u | _ \<Rightarrow> True)"

lemma login_ok_simps [simp]:
  "login_ok (ALogin u p) = user_ok u" "login_ok ARecv" "login_ok (ARoute m)" "login_ok (ALogout n)"
  "login_ok (ANote n)" "login_ok (ABcast i m)" "login_ok (ASave a b c d)" "login_ok (AFind m)"
  "login_ok (AList w)" "login_ok (AHistory w)" "login_ok (AStatus q w)" "login_ok (ASend i m)"
  "login_ok ACleanup" "login_ok AClose"
  by (simp_all add: login_ok_def)

lemma status_code_small [simp]: "status_code x < 3"
  by (cases x) simp_all

lemma route_login_ok: "list_all login_ok (route e s m st)"
  by (auto simp: route_def sscanf_user_pass_ok split: msg_type_t.split prod.split)

lemma wf_th_clear:
  assumes "wf_tstate st" "ts_clients st' = (ts_clients st)(s := (ts_clients st s)\<lparr>tc_active := False,
    tc_in_use := b, tc_username := zeros MAX_USERNAME_LEN\<rparr>)"
  shows "wf_tstate st'"
proof (rule wf_th_reset [OF assms])
  have "wf_tclient (ts_clients st s)" using assms(1) by (simp add: wf_tstate_def wf_ttable_def)
  then show "wf_tclient ((ts_clients st s)\<lparr>tc_active := False, tc_in_use := b, tc_username := zeros MAX_USERNAME_LEN\<rparr>)"
    by (simp add: wf_tclient_def)
qed simp

lemma th_act_clients:
  "ts_clients (fst (th_act e s stk a st)) = (case a of
     ALogin u p \<Rightarrow> if th_find_user st u = None \<and> validate e u p then ts_clients (th_login_slot s u st) else ts_clients st
   | ALogout n \<Rightarrow> ts_clients (th_logout_slot s st)
   | AStatus q w \<Rightarrow> (ts_clients st)(s := (ts_clients st s)\<lparr>tc_status := status_code (status_of_payload q)\<rparr>)
   | ACleanup \<Rightarrow> (ts_clients st)(s := (ts_clients st s)\<lparr>tc_active := False, tc_in_use := False,
       tc_username := zeros MAX_USERNAME_LEN\<rparr>)
   | _ \<Rightarrow> ts_clients st)"
  by (cases a) (simp_all add: Let_def split: option.split prod.split)

lemma wf_th_act:
  assumes "wf_tstate st" "s < 10" "login_ok a"
  shows "wf_tstate (fst (th_act e s stk a st))"
proof -
  have same: "wf_tstate st'" if "ts_clients st' = ts_clients st0" "wf_tstate st0" for st0 st'
    using that wf_tstate_clients by blast
  define st' where "st' = fst (th_act e s stk a st)"
  note c = th_act_clients [of e s stk a st, folded st'_def]
  have "wf_tstate st'"
  proof (cases a)
    case (ALogin u p)
    with c assms(3) show ?thesis
      using same [OF _ wf_th_login [OF assms(1,2)]] same [OF _ assms(1)] by (auto split: if_splits)
  next
    case (ALogout n)
    with c show ?thesis
      by (intro wf_th_clear [OF assms(1), of st' s "tc_in_use (ts_clients st s)"]) (simp add: th_logout_slot_def)
  next
    case (AStatus q w)
    with c show ?thesis
      by (intro same [OF _ wf_th_status [OF assms(1), of "status_code (status_of_payload q)" s]]) simp_all
  next
    case ACleanup
    with c show ?thesis by (intro wf_th_clear [OF assms(1), of st' s False]) simp
  qed (use same [OF _ assms(1)] c in simp_all)
  then show ?thesis by (simp add: st'_def)
qed

lemma login_ok_new: "list_all login_ok (snd (th_act e s stk a st))"
proof (cases a)
  case (ARoute m)
  then show ?thesis by (simp add: route_login_ok)
next
  case ARecv
  then show ?thesis by (simp add: Let_def split: option.split prod.split)
qed (simp_all add: Let_def split: option.split)

text \<open>An invariant of the state together with one of what each thread has still to do.\<close>

definition threads_inv :: "(tstate \<Rightarrow> bool) \<Rightarrow> (nat \<Rightarrow> bool) \<Rightarrow> (action list \<Rightarrow> bool) \<Rightarrow> tserver \<Rightarrow> bool" where
  "threads_inv S R L sv \<longleftrightarrow> S (sv_state sv) \<and> (\<forall>t\<in>set (sv_threads sv). R (th_slot t) \<and> L (th_todo t))"

lemma threads_inv_run:
  assumes act: "\<And>s stk a rest st. S st \<Longrightarrow> R s \<Longrightarrow> L (a # rest) \<Longrightarrow>
      S (fst (th_act e s stk a st)) \<and> L (snd (th_act e s stk a st) @ rest)"
    and inv: "threads_inv S R L sv" and i: "i < length (sv_threads sv)"
  shows "threads_inv S R L (th_run e i sv)"
proof (cases "th_todo (sv_threads sv ! i)")
  case Nil
  with inv show ?thesis by (simp add: th_run_def)
next
  case (Cons a rest)
  let ?t = "sv_threads sv ! i" and ?P = "\<lambda>t. R (th_slot t) \<and> L (th_todo t)"
  have "?P ?t" using inv i by (simp add: threads_inv_def)
  with Cons have t: "R (th_slot ?t)" "L (a # rest)" by simp_all
  obtain st new where eq: "th_act e (th_slot ?t) (th_stack ?t) a (sv_state sv) = (st, new)" by fastforce
  with act [OF _ t, of "sv_state sv" "th_stack ?t"] inv have new: "S st" "L (new @ rest)"
    by (simp_all add: threads_inv_def)
  then have "?P (?t\<lparr>th_todo := new @ rest\<rparr>)" using t by simp
  then have "\<forall>t\<in>set ((sv_threads sv)[i := ?t\<lparr>th_todo := new @ rest\<rparr>]). ?P t"
    using inv set_update_subset_insert [of "sv_threads sv" i] unfolding threads_inv_def by blast
  with new(1) eq Cons show ?thesis by (simp add: threads_inv_def th_run_def Let_def)
qed

definition sv_inv :: "tserver \<Rightarrow> bool" where
  "sv_inv = threads_inv wf_tstate (\<lambda>s. s < MAX_CLIENTS) (list_all login_ok)"

lemma sv_inv_run: "sv_inv sv \<Longrightarrow> i < length (sv_threads sv) \<Longrightarrow> sv_inv (th_run e i sv)"
  unfolding sv_inv_def by (rule threads_inv_run) (simp_all add: wf_th_act login_ok_new)

lemma sv_inv_accept:
  assumes "sv_inv sv"
  shows "sv_inv (fst (th_accept e cfd rs ws spawned stk sv))"
proof (cases "th_find_free (sv_state sv)")
  case None
  with assms show ?thesis by (simp add: th_accept_def)
next
  case (Some slot)
  then have s: "slot < 10" by (auto simp: th_find_free_def dest: find_slot_SomeD)
  have w: "wf_tstate (sv_state sv)" using assms by (simp add: sv_inv_def threads_inv_def)
  have w': "wf_tstate st'"
    if "ts_clients st' = (ts_clients (sv_state sv))(slot := c)" "\<not> tc_active c" "tc_status c = 0"
      "tc_username c = zeros 32" for st' c
    using that by (intro wf_th_reset [OF w that(1)]) (simp_all add: wf_tclient_def)
  show ?thesis
    using assms Some s by (cases spawned) (auto simp: th_accept_def Let_def sv_inv_def threads_inv_def intro!: w')
qed

lemma sv_inv_reachable: "th_reachable clean sv \<Longrightarrow> sv_inv sv"
proof (induction rule: th_reachable.induct)
  case (th_reach_start fs)
  show ?case
    by (simp add: sv_inv_def threads_inv_def th_start_def wf_tstate_def wf_ttable_def th_table.unique_names_def th_names_def
        wf_tclient_def zero_tclient_def)
next
  case (th_reach_step sv sv')
  from th_reach_step(2,3) show ?case by (cases rule: th_step.cases) (auto simp: sv_inv_run sv_inv_accept)
qed

subsection \<open>The send locks keep messages whole\<close>

definition whole :: "wsock \<Rightarrow> bool" where
  "whole ws \<longleftrightarrow> no_wr_err ws \<and> message_stream (w_out ws)"

definition valid_act :: "action \<Rightarrow> bool" where
  "valid_act a \<longleftrightarrow> (case a of ARoute m \<Rightarrow> valid_message m | AFind m \<Rightarrow> valid_message m | ABcast i m \<Rightarrow> valid_message m
     | ASend i m \<Rightarrow> valid_message m | _ \<Rightarrow> True)"

lemma valid_act_simps [simp]:
  "valid_act (ARoute m) = valid_message m" "valid_act (AFind m) = valid_message m"
  "valid_act (ABcast i m) = valid_message m" "valid_act (ASend i m) = valid_message m"
  "valid_act ARecv" "valid_act (ALogin u p)" "valid_act (ALogout n)" "valid_act (ANote n)" "valid_act (ASave a b c d)"
  "valid_act (AList w)" "valid_act (AHistory w)" "valid_act (AStatus q w)" "valid_act ACleanup" "valid_act AClose"
  by (simp_all add: valid_act_def)

lemma whole_send:
  assumes "whole ws" "valid_message m"
  shows "whole (snd (send_message ws m))"
proof -
  have ws: "no_wr_err ws" "message_stream (w_out ws)" using assms(1) by (simp_all add: whole_def)
  obtain s' where "send_message ws m = (True, s')" "w_out s' = w_out ws @ pack_message m" "no_wr_err s'"
    using send_message_ok [OF ws(1)] by blast
  with message_stream_snoc [OF ws(2) assms(2)] show ?thesis by (simp add: whole_def)
qed

lemma valid_replies [simp]:
  "valid_message (error_reply e a b)" "wf_type t \<Longrightarrow> valid_message (server_reply e t a b)"
  by (simp_all add: wf_message_valid)

lemma route_valid: "valid_message m \<Longrightarrow> list_all valid_act (route e s m st)"
  by (auto simp: route_def split: msg_type_t.split prod.split)

lemma valid_act_new:
  assumes "valid_act a"
  shows "list_all valid_act (snd (th_act e s stk a st))"
proof (cases a)
  case (ARoute m)
  with assms show ?thesis by (simp add: route_valid)
next
  case ARecv
  then show ?thesis
    using recv_message_SomeD [of "ts_in st (tc_sockfd (ts_clients st s))"]
    by (auto simp: Let_def split: option.split prod.split)
qed (use assms in \<open>auto simp: Let_def wf_message_valid split: option.split\<close>)

lemma whole_th_act:
  assumes "\<forall>fd. whole (ts_out st fd)" "valid_act a"
  shows "whole (ts_out (fst (th_act e s stk a st)) fd)"
proof (cases a)
  case (ASend i m)
  with assms whole_send show ?thesis by (simp add: th_slot_send_def Let_def)
next
  case ARecv
  with assms show ?thesis by (simp add: Let_def split: option.split prod.split)
qed (use assms in \<open>simp_all add: Let_def th_login_slot_def th_logout_slot_def split: option.split\<close>)

definition framed :: "tserver \<Rightarrow> bool" where
  "framed = threads_inv (\<lambda>st. \<forall>fd. whole (ts_out st fd)) (\<lambda>_. True) (list_all valid_act)"

lemma framed_run: "framed sv \<Longrightarrow> i < length (sv_threads sv) \<Longrightarrow> framed (th_run e i sv)"
  unfolding framed_def by (rule threads_inv_run) (simp_all add: whole_th_act valid_act_new)

lemma framed_accept:
  assumes "framed sv" "w_out ws = []" "no_wr_err ws"
  shows "framed (fst (th_accept e cfd rs ws spawned stk sv))"
proof -
  have "whole ws" using assms(2,3) by (simp add: whole_def)
  with assms(1) show ?thesis
    by (simp add: th_accept_def framed_def threads_inv_def Let_def split: option.split)
qed

lemma framed_reachable: "th_reachable True sv \<Longrightarrow> framed sv"
proof (induction rule: th_reachable.induct)
  case (th_reach_start fs)
  have "whole \<lparr>w_out = [], w_script = []\<rparr>" by (simp add: whole_def no_wr_err_def)
  then show ?case by (simp add: framed_def threads_inv_def th_start_def)
next
  case (th_reach_step sv sv')
  from th_reach_step(2,3) show ?case by (cases rule: th_step.cases) (auto simp: framed_run framed_accept)
qed

subsection \<open>A thread comes back to its receive\<close>

text \<open>A bound on the steps an action still causes, up to the next \<open>recv_message\<close>.\<close>

fun th_weight :: "action \<Rightarrow> nat" where
  "th_weight ARecv = 1"
| "th_weight (ARoute m) = 27"
| "th_weight (ALogin u p) = 2"
| "th_weight (ALogout n) = 26"
| "th_weight (ANote n) = 25"
| "th_weight (ABcast i m) = 2 * (11 - i) + 1"
| "th_weight (ASave a b c d) = 1"
| "th_weight (AFind m) = 4"
| "th_weight (AList w) = 2"
| "th_weight (AHistory w) = 2"
| "th_weight (AStatus q w) = 2"
| "th_weight (ASend i m) = 1"
| "th_weight ACleanup = 27"
| "th_weight AClose = 1"

definition todo_weight :: "action list \<Rightarrow> nat" where
  "todo_weight as = sum_list (map th_weight as)"

lemma todo_weight_simps [simp]:
  "todo_weight [] = 0" "todo_weight (a # as) = th_weight a + todo_weight as"
  "todo_weight (as @ bs) = todo_weight as + todo_weight bs"
  by (simp_all add: todo_weight_def)

lemma th_weight_pos [simp]: "0 < th_weight a" "th_weight a \<noteq> 0"
  by (cases a; simp)+

lemma route_weight: "todo_weight (route e s m st) < 27"
  by (simp add: route_def split: msg_type_t.split prod.split)

lemma th_act_weight:
  assumes "a \<noteq> ARecv"
  shows "todo_weight (snd (th_act e s stk a st)) < th_weight a"
proof (cases a)
  case (ARoute m)
  then show ?thesis using route_weight by simp
next
  case (ABcast i m)
  then show ?thesis by auto
qed (use assms in \<open>simp_all add: Let_def split: option.split\<close>)

definition busy :: "nat \<Rightarrow> tserver \<Rightarrow> bool" where
  "busy i sv \<longleftrightarrow> \<not> ts_crashed (sv_state sv) \<and>
     (case th_todo (sv_threads sv ! i) of [] \<Rightarrow> False | a # rest \<Rightarrow> a \<noteq> ARecv)"

lemma th_run_other [simp]: "j \<noteq> i \<Longrightarrow> sv_threads (th_run e j sv) ! i = sv_threads sv ! i"
  by (simp add: th_run_def Let_def split: list.split prod.split)

lemma th_run_length [simp]: "length (sv_threads (th_run e j sv)) = length (sv_threads sv)"
  by (simp add: th_run_def Let_def split: list.split prod.split)

lemma th_run_weight:
  assumes "busy i sv" "i < length (sv_threads sv)"
  shows "todo_weight (th_todo (sv_threads (th_run e i sv) ! i)) < todo_weight (th_todo (sv_threads sv ! i))"
proof -
  let ?t = "sv_threads sv ! i"
  obtain a rest where t: "th_todo ?t = a # rest" "a \<noteq> ARecv"
    using assms(1) by (auto simp: busy_def split: list.splits)
  obtain st new where "th_act e (th_slot ?t) (th_stack ?t) a (sv_state sv) = (st, new)" by fastforce
  with th_act_weight [OF t(2), of e "th_slot ?t" "th_stack ?t" "sv_state sv"] assms(2) t show ?thesis
    by (simp add: th_run_def Let_def)
qed

text \<open>A schedule: which thread takes the next step. Nothing runs after a crash.\<close>

definition th_sched :: "env \<Rightarrow> nat list \<Rightarrow> tserver \<Rightarrow> tserver" where
  "th_sched e is = fold (\<lambda>i sv. if ts_crashed (sv_state sv) \<or> length (sv_threads sv) \<le> i then sv else th_run e i sv) is"

lemma th_sched_length [simp]: "length (sv_threads (th_sched e is sv)) = length (sv_threads sv)"
  by (induction "is" arbitrary: sv) (simp_all add: th_sched_def)

lemma th_sched_reachable: "th_reachable clean sv \<Longrightarrow> th_reachable clean (th_sched e is sv)"
proof (induction "is" arbitrary: sv)
  case Nil
  then show ?case by (simp add: th_sched_def)
next
  case (Cons i "is")
  let ?sv = "if ts_crashed (sv_state sv) \<or> length (sv_threads sv) \<le> i then sv else th_run e i sv"
  have "th_reachable clean ?sv"
    using Cons.prems by (simp add: th_reach_step [OF Cons.prems th_step_run])
  from Cons.IH [OF this] show ?case by (simp add: th_sched_def)
qed

lemma th_sched_idle:
  assumes "i < length (sv_threads sv)" "todo_weight (th_todo (sv_threads sv ! i)) \<le> count_list is i"
  shows "\<exists>k\<le>length is. \<not> busy i (th_sched e (take k is) sv)"
  using assms
proof (induction "is" arbitrary: sv)
  case Nil
  have "th_todo (sv_threads sv ! i) = []"
    using Nil by (cases "th_todo (sv_threads sv ! i)") auto
  then show ?case by (simp add: busy_def th_sched_def)
next
  case (Cons j js)
  show ?case
  proof (cases "busy i sv")
    case False
    then show ?thesis by (intro exI [of _ 0]) (simp add: th_sched_def)
  next
    case True
    define sv1 where "sv1 = (if ts_crashed (sv_state sv) \<or> length (sv_threads sv) \<le> j then sv else th_run e j sv)"
    have "i < length (sv_threads sv1)" using Cons.prems(1) by (simp add: sv1_def)
    moreover have "todo_weight (th_todo (sv_threads sv1 ! i)) \<le> count_list js i"
      using Cons.prems th_run_weight [OF True, of e] True by (cases "j = i") (auto simp: sv1_def busy_def)
    ultimately obtain k where "k \<le> length js" "\<not> busy i (th_sched e (take k js) sv1)" using Cons.IH by blast
    then show ?thesis by (intro exI [of _ "Suc k"]) (simp add: th_sched_def sv1_def)
  qed
qed

text \<open>In every reachable state a thread is at most 54 steps away from its next
  receive.\<close>

definition todo_ok :: "action list \<Rightarrow> bool" where
  "todo_ok as \<longleftrightarrow> ARecv \<notin> set (butlast as) \<and> todo_weight as \<le> 54"

lemma no_recv_new: "a \<noteq> ARecv \<Longrightarrow> ARecv \<notin> set (snd (th_act e s stk a st))"
  by (cases a) (auto simp: Let_def route_def split: option.split msg_type_t.split prod.split)

lemma todo_ok_new:
  assumes "todo_ok (a # rest)"
  shows "todo_ok (snd (th_act e s stk a st) @ rest)"
proof (cases "a = ARecv")
  case True
  then have "rest = []" using assms by (auto simp: todo_ok_def split: if_splits)
  with True show ?thesis
    by (auto simp: todo_ok_def Let_def split: option.split prod.split)
next
  case False
  have "ARecv \<notin> set (butlast rest)" "todo_weight rest + th_weight a \<le> 54"
    using assms by (auto simp: todo_ok_def split: if_splits)
  with no_recv_new [OF False] th_act_weight [OF False, of e s stk st] show ?thesis
    by (auto simp: todo_ok_def butlast_append dest: in_set_butlastD)
qed

lemma todo_ok_reachable:
  assumes "th_reachable clean sv" "t \<in> set (sv_threads sv)"
  shows "todo_ok (th_todo t)"
proof -
  let ?I = "threads_inv (\<lambda>_. True) (\<lambda>_. True) todo_ok"
  have "?I sv" using assms(1)
  proof (induction rule: th_reachable.induct)
    case (th_reach_start fs)
    show ?case by (simp add: threads_inv_def th_start_def)
  next
    case (th_reach_step sv sv')
    have acc: "?I sv \<Longrightarrow> ?I (fst (th_accept e cfd rs ws spawned stk sv))" for e cfd rs ws spawned stk
      by (auto simp: th_accept_def threads_inv_def Let_def todo_ok_def split: option.split)
    have run: "?I sv \<Longrightarrow> i < length (sv_threads sv) \<Longrightarrow> ?I (th_run e i sv)" for e i
      by (rule threads_inv_run) (simp_all add: todo_ok_new)
    from th_reach_step(2,3) show ?case by (cases rule: th_step.cases) (auto simp: acc run)
  qed
  with assms(2) show ?thesis by (simp add: threads_inv_def)
qed

end
