(* ===== verification/Thread_Refines.thy ===== *)
theory Thread_Refines
  imports Thread_Invariant Chat_Spec
begin

text \<open>
  The thread server and the abstract chat server of \<open>Chat_Spec\<close>: the abstraction
  \<open>th_chat\<close>, the interpretations \<open>th_sink\<close> of \<open>message_sink\<close>
  and \<open>th_server\<close> of \<open>chat_server\<close>, and \<open>th_exec\<close>, the
  steps of a thread between two receives, which make up the router of the contract when no
  other thread interferes (\<open>th_exec_route\<close>).
\<close>

subsection \<open>The abstraction\<close>

definition th_users :: "tstate \<Rightarrow> nat \<Rightarrow> (char list \<times> nat) option" where
  "th_users st i = (if tc_active (ts_clients st i)
     then Some (cstr (tc_username (ts_clients st i)), tc_status (ts_clients st i)) else None)"

text \<open>What the client of a slot in use has been sent.\<close>

definition th_stream :: "tstate \<Rightarrow> nat \<Rightarrow> char list" where
  "th_stream st i = (if tc_in_use (ts_clients st i) then w_out (ts_out st (tc_sockfd (ts_clients st i))) else [])"

definition th_chat :: "tstate \<Rightarrow> chat" where
  "th_chat st = \<lparr>ch_users = th_users st, ch_stream = th_stream st, ch_files = ts_files st, ch_crashed = ts_crashed st\<rparr>"

text \<open>A slot is ready when its descriptor is open, its own, and writes without errors.
  A blocking socket has room for any number of messages.\<close>

definition th_ready :: "nat \<Rightarrow> tstate \<Rightarrow> nat \<Rightarrow> bool" where
  "th_ready n st i \<longleftrightarrow>
     (let c = ts_clients st i
      in tc_in_use c \<and> ts_open st (tc_sockfd c) \<and> no_wr_err (ts_out st (tc_sockfd c)) \<and>
         (\<forall>j. j \<noteq> i \<longrightarrow> tc_in_use (ts_clients st j) \<longrightarrow> tc_sockfd (ts_clients st j) \<noteq> tc_sockfd c))"

definition th_set_status :: "nat \<Rightarrow> nat \<Rightarrow> tstate \<Rightarrow> tstate" where
  "th_set_status s n = upd_tclient s (\<lambda>c. c\<lparr>tc_status := n\<rparr>)"

text \<open>The end of a thread whose user has logged out.\<close>

definition th_leave :: "env \<Rightarrow> nat \<Rightarrow> tstate \<Rightarrow> tstate" where
  "th_leave e s st =
     (let st1 = upd_tclient s (\<lambda>c. c\<lparr>tc_active := False, tc_in_use := False, tc_username := zeros MAX_USERNAME_LEN\<rparr>) st
      in st1\<lparr>ts_open := (ts_open st1)(tc_sockfd (ts_clients st1 s) := False)\<rparr>)"

lemma th_chat_simps [simp]:
  "ch_users (th_chat st) = th_users st" "ch_stream (th_chat st) = th_stream st"
  "ch_files (th_chat st) = ts_files st" "ch_crashed (th_chat st) = ts_crashed st"
  by (simp_all add: th_chat_def)

definition th_online :: "tstate \<Rightarrow> nat \<Rightarrow> bool" where
  "th_online st i = tc_active (ts_clients st i)"

lemma ch_online_th [simp]: "ch_online (th_chat st) = th_online st"
  by (auto simp: ch_online_def th_users_def th_online_def fun_eq_iff)

lemma th_send_chat:
  assumes "th_ready n st i"
  shows "th_chat (th_slot_send i m st) = ch_send i m (th_chat st)"
proof -
  let ?fd = "tc_sockfd (ts_clients st i)"
  obtain s' where "send_message (ts_out st ?fd) m = (True, s')" "w_out s' = w_out (ts_out st ?fd) @ pack_message m"
    using send_message_ok [of "ts_out st ?fd" m] assms by (auto simp: th_ready_def Let_def)
  then have "th_stream (th_slot_send i m st) = (th_stream st)(i := th_stream st i @ pack_message m)"
    using assms by (auto simp: th_stream_def th_slot_send_def th_ready_def Let_def fun_eq_iff)
  moreover have "th_users (th_slot_send i m st) = th_users st" by (simp add: th_users_def fun_eq_iff)
  ultimately show ?thesis by (intro chat.equality) (simp_all add: ch_send_def)
qed

lemma th_send_ready:
  assumes "th_ready k st i" "th_ready n st j"
  shows "th_ready n' (th_slot_send i m st) j"
proof -
  let ?fd = "tc_sockfd (ts_clients st i)"
  obtain s' where "send_message (ts_out st ?fd) m = (True, s')" "no_wr_err s'"
    using send_message_ok [of "ts_out st ?fd" m] assms by (auto simp: th_ready_def Let_def)
  then show ?thesis using assms by (auto simp: th_slot_send_def th_ready_def Let_def)
qed

lemma th_send_stream: "th_ready n st i \<Longrightarrow>
  th_stream (th_slot_send i m st) j = th_stream st j @ (if j = i then pack_message m else [])"
  using arg_cong [OF th_send_chat, of n st i ch_stream m] by (simp add: ch_send_def)

interpretation th_sink: message_sink th_slot_send th_stream th_ready th_online
  by unfold_locales (simp_all add: th_send_stream th_send_ready th_online_def, simp add: th_ready_def)

lemma th_find_user_abs:
  assumes "wf_tstate st"
  shows "th_find_user st u = ch_find (th_chat st) u"
proof -
  have l: "length (cstr (tc_username (ts_clients st i))) < 32" for i
    using wf_ttable_name [of st i] assms by (simp add: wf_tstate_def)
  show ?thesis
    unfolding th_find_user_def ch_find_def tclient_table_def find_slot_map
    by (rule find_slot_cong) (simp add: th_users_def strneq_short [OF l])
qed

lemma th_login_chat:
  assumes "wf_tstate st" "user_ok u"
  shows "th_chat (th_login_slot s u st) = ch_set_user s (Some (u, status_code STATUS_AVAILABLE)) (th_chat st)"
proof -
  have t: "wf_ttable st" using assms(1) by (simp add: wf_tstate_def)
  have "th_users (th_login_slot s u st) = (th_users st)(s \<mapsto> (u, 0))"
    using th_login_client [OF t, of s u] assms(2)
    by (auto simp: th_users_def th_login_slot_def user_ok_def fun_eq_iff)
  moreover have "th_stream (th_login_slot s u st) = th_stream st"
    by (simp add: th_stream_def th_login_slot_def fun_eq_iff)
  ultimately show ?thesis by (intro chat.equality) (simp_all add: ch_set_user_def th_login_slot_def)
qed

lemma th_logout_chat: "th_chat (th_logout_slot s st) = ch_set_user s None (th_chat st)"
proof -
  have "th_users (th_logout_slot s st) = (th_users st)(s := None)" "th_stream (th_logout_slot s st) = th_stream st"
    by (simp_all add: th_users_def th_stream_def th_logout_slot_def fun_eq_iff)
  then show ?thesis by (intro chat.equality) (simp_all add: ch_set_user_def th_logout_slot_def)
qed

lemma th_status_chat:
  "th_chat (th_set_status s n st) = ch_set_user s (map_option (\<lambda>(u, k). (u, n)) (th_users st s)) (th_chat st)"
proof -
  have "th_users (th_set_status s n st) = (th_users st)(s := map_option (\<lambda>(u, k). (u, n)) (th_users st s))"
    "th_stream (th_set_status s n st) = th_stream st"
    by (auto simp: th_users_def th_stream_def th_set_status_def fun_eq_iff)
  then show ?thesis by (intro chat.equality) (simp_all add: ch_set_user_def th_set_status_def)
qed

lemma th_put_chat:
  "th_chat (st\<lparr>ts_files := fs\<rparr>) = (th_chat st)\<lparr>ch_files := fs\<rparr>"
  "th_chat (st\<lparr>ts_crashed := b\<rparr>) = (th_chat st)\<lparr>ch_crashed := b\<rparr>"
  by (simp_all add: th_chat_def) (simp_all add: th_users_def th_stream_def fun_eq_iff)

lemma th_leave_chat:
  assumes "\<not> tc_active (ts_clients st s)"
  shows "th_chat (th_leave e s st) = ch_close True s (th_chat st)"
proof -
  have "th_users (th_leave e s st) = th_users st" "th_stream (th_leave e s st) = (th_stream st)(s := [])"
    using assms by (auto simp: th_users_def th_stream_def th_leave_def Let_def fun_eq_iff)
  then show ?thesis by (intro chat.equality) (simp_all add: ch_close_def th_leave_def Let_def)
qed

lemma th_list_chat:
  assumes "wf_tstate st"
  shows "user_list (th_sessions st) = ch_list (th_chat st)"
proof -
  let ?g = "\<lambda>i. (tc_active (ts_clients st i), tc_username (ts_clients st i), tc_status (ts_clients st i))"
  have w: "wf_tclient (ts_clients st i)" for i using assms by (simp add: wf_tstate_def wf_ttable_def)
  have s: "th_sessions st = map ?g [0..<10]" by (simp add: th_sessions_def tclient_table_def)
  have "list_all wf_session (map ?g [0..<10])"
    using w wf_ttable_name [of st] assms by (simp add: list_all_iff wf_session_def wf_tclient_def wf_tstate_def)
  moreover have "cstr (tc_username (ts_clients st i)) \<noteq> []" if "tc_active (ts_clients st i)" for i
    using w [of i] that by (auto simp: wf_tclient_def user_ok_def)
  ultimately show ?thesis
    using user_list_users [of ?g "[0..<10]" "th_users st"] s by (simp add: ch_list_def th_users_def)
qed

lemma th_ready_upd:
  assumes "\<And>c. tc_sockfd (f c) = tc_sockfd c" "\<And>c. tc_in_use (f c) = tc_in_use c"
  shows "th_ready n (upd_tclient s f st) = th_ready n st"
proof -
  have "tc_sockfd (ts_clients (upd_tclient s f st) j) = tc_sockfd (ts_clients st j)"
    "tc_in_use (ts_clients (upd_tclient s f st) j) = tc_in_use (ts_clients st j)" for j
    using assms by simp_all
  then show ?thesis unfolding th_ready_def Let_def by (intro ext) (simp only: upd_tclient_simps(2-6))
qed

lemma th_ready_ops [simp]:
  "th_ready n (th_login_slot s u st) = th_ready n st" "th_ready n (th_logout_slot s st) = th_ready n st"
  "th_ready n (th_set_status s k st) = th_ready n st" "th_ready n (st\<lparr>ts_files := fs\<rparr>) = th_ready n st"
  unfolding th_login_slot_def th_logout_slot_def th_set_status_def
  by (simp_all add: th_ready_upd) (simp add: th_ready_def fun_eq_iff)

interpretation th_server: chat_server th_chat wf_tstate th_ready th_slot_send th_find_user th_login_slot th_logout_slot
  th_leave th_set_status "\<lambda>fs st. st\<lparr>ts_files := fs\<rparr>" "\<lambda>st. st\<lparr>ts_crashed := True\<rparr>"
  "\<lambda>st s. cstr (tc_username (ts_clients st s))" th_sessions False True
proof (unfold_locales, goal_cases)
  case (1 n st i m)
  then show ?case by (rule th_send_chat)
next
  case (2 k st i j n m)
  then show ?case by (rule th_send_ready)
next
  case (3 n st i k)
  then show ?case by (simp add: th_ready_def)
next
  case (4 i m st)
  then show ?case by (simp add: th_users_def fun_eq_iff)
next
  case (5 st u)
  then show ?case by (rule th_find_user_abs)
next
  case (11 st s e)
  then show ?case by (intro th_leave_chat) (simp add: th_online_def)
next
  case (16 st s)
  then show ?case by (simp add: ch_name_def th_users_def wf_tstate_def wf_ttable_def wf_tclient_def)
next
  case (17 st)
  then show ?case by (rule th_list_chat)
qed (simp_all add: th_login_chat th_logout_chat th_status_chat th_put_chat)

subsection \<open>A thread that is not interrupted\<close>

text \<open>The steps of one thread up to its next receive, without steps of others between
  them.\<close>

function th_exec :: "env \<Rightarrow> nat \<Rightarrow> char list \<Rightarrow> tstate \<Rightarrow> action list \<Rightarrow> tstate \<times> action list" where
  "th_exec e s stk st todo =
     (case todo of
        [] \<Rightarrow> (st, [])
      | a # rest \<Rightarrow>
          (if ts_crashed st \<or> a = ARecv then (st, todo)
           else th_exec e s stk (fst (th_act e s stk a st)) (snd (th_act e s stk a st) @ rest)))"
  by pat_completeness auto
termination
  by (relation "measure (\<lambda>(e, s, stk, st, todo). todo_weight todo)") (auto simp: th_act_weight)

declare th_exec.simps [simp del]

lemma th_exec_step:
  "\<not> ts_crashed st \<Longrightarrow> a \<noteq> ARecv \<Longrightarrow>
     th_exec e s stk st (a # rest) = th_exec e s stk (fst (th_act e s stk a st)) (snd (th_act e s stk a st) @ rest)"
  by (simp add: th_exec.simps [of e s stk st])

lemma th_exec_simps [simp]:
  "th_exec e s stk st [] = (st, [])"
  "ts_crashed st \<Longrightarrow> fst (th_exec e s stk st todo) = st"
  "th_exec e s stk st (ARecv # rest) = (st, ARecv # rest)"
  "\<not> ts_crashed st \<Longrightarrow> th_exec e s stk st (ASend j m # rest) = th_exec e s stk (th_slot_send j m st) rest"
  by (simp_all add: th_exec.simps [of e s stk st] split: list.split)

lemma th_to_others_frame [simp]:
  "ts_crashed (th_sink.to_others s m xs st) = ts_crashed st"
  "ts_clients (th_sink.to_others s m xs st) = ts_clients st"
  by (induction xs arbitrary: st) simp_all

lemma th_exec_bcast:
  assumes "\<not> ts_crashed st" "i \<le> 10"
  shows "th_exec e s stk st (ABcast i m # rest) = th_exec e s stk (th_sink.to_others s m [i..<10] st) rest"
  using assms
proof (induction "10 - i" arbitrary: i st)
  case 0
  then show ?case using th_exec_step [of st "ABcast i m"] by simp
next
  case (Suc k)
  then have i: "[i..<10] = i # [Suc i..<10]" "i < 10" "k = 10 - Suc i" "Suc i \<le> 10" by (simp_all add: upt_conv_Cons)
  let ?st = "if i \<noteq> s \<and> th_online st i then th_slot_send i m st else st"
  have "th_exec e s stk st (ABcast i m # rest) = th_exec e s stk ?st (ABcast (Suc i) m # rest)"
    using th_exec_step [of st "ABcast i m"] Suc.prems i(2) by (simp add: th_online_def)
  also have "\<dots> = th_exec e s stk (th_sink.to_others s m [Suc i..<10] ?st) rest"
    using Suc.hyps(1) [OF i(3) _ i(4), of ?st] Suc.prems(1) by simp
  finally show ?case by (simp add: i(1))
qed

lemma th_exec_route:
  assumes "\<not> ts_crashed st"
  shows "fst (th_exec e s stk st [ARoute m, if msg_type m = MSG_LOGOUT then ACleanup else ARecv])
    = th_server.route_with e s m st"
proof -
  note step = th_exec_step [OF assms, of "ARoute m"]
  obtain n u p where sc: "sscanf_user_pass (payload m) = (n, u, p)" by (metis prod_cases3)
  show ?thesis
  proof (cases "msg_type m")
    case MSG_LOGIN
    then show ?thesis
      using step th_exec_step [OF assms, of "ALogin u p"] sc assms
      by (simp add: route_def th_server.route_with_def th_login_slot_def)
  next
    case MSG_BROADCAST
    then show ?thesis
      using step th_exec_step [OF assms, of "ASave (sender m) [] (payload m) (timestamp m)"] assms
      by (auto simp: route_def th_server.route_with_def th_exec_bcast th_online_def split: option.split)
  next
    case MSG_PRIVATE
    then show ?thesis
      using step th_exec_step [OF assms, of "AFind m"] assms
        th_exec_step [OF assms, of "ASave (sender m) (receiver m) (payload m) (timestamp m)"]
      by (auto simp: route_def th_server.route_with_def th_online_def split: option.split)
  next
    case MSG_LOGOUT
    let ?st1 = "th_logout_slot s st" and ?note = "snprintf 64 (cstr (tc_username (ts_clients st s)) @ '' left'')"
    let ?st2 = "th_sink.to_others s (new_message (e_now e) MSG_BROADCAST ''server'' [] ?note) [0..<10] ?st1"
    have c: "\<not> ts_crashed ?st1" "\<not> ts_crashed ?st2" "\<not> tc_active (ts_clients ?st2 s)"
      using assms by (simp_all add: th_logout_slot_def)
    let ?st3 = "fst (th_act e s stk ACleanup ?st2)"
    have c3: "\<not> ts_crashed ?st3" using c(2) by (simp add: Let_def)
    show ?thesis
      using step MSG_LOGOUT th_exec_step [OF assms, of "ALogout ?note"] th_exec_step [OF c(1), of "ANote ?note"]
        th_exec_bcast [OF c(1), of 0] th_exec_step [OF c(2), of ACleanup e s stk] th_exec_step [OF c3, of AClose e s stk] c(3)
      by (simp add: route_def th_server.route_with_def th_leave_def Let_def)
  next
    case MSG_LIST_USERS
    then show ?thesis
      using step th_exec_step [OF assms, of "AList (sender m)"] assms by (simp add: route_def th_server.route_with_def)
  next
    case MSG_HISTORY_REQ
    then show ?thesis
      using step th_exec_step [OF assms, of "AHistory (sender m)"] assms by (simp add: route_def th_server.route_with_def)
  next
    case MSG_STATUS_CHANGE
    then show ?thesis
      using step th_exec_step [OF assms, of "AStatus (payload m) (sender m)"] assms
      by (simp add: route_def th_server.route_with_def th_set_status_def)
  qed (use step assms in \<open>simp_all add: route_def th_server.route_with_def\<close>)
qed

lemma th_exec_steps:
  assumes "i < length (sv_threads sv)" "t = sv_threads sv ! i"
    and "th_exec e (th_slot t) (th_stack t) (sv_state sv) (th_todo t) = (st', todo')"
  shows "(th_step clean)\<^sup>*\<^sup>* sv \<lparr>sv_state = st', sv_threads = (sv_threads sv)[i := t\<lparr>th_todo := todo'\<rparr>]\<rparr>"
  using assms
proof (induction "todo_weight (th_todo t)" arbitrary: sv t rule: less_induct)
  case less
  show ?case
  proof (cases "ts_crashed (sv_state sv) \<or> th_todo t = [] \<or> hd (th_todo t) = ARecv")
    case True
    then have "st' = sv_state sv" "todo' = th_todo t"
      using less.prems(3) by (auto simp: th_exec.simps [of e "th_slot t" "th_stack t" "sv_state sv"] split: list.splits if_splits)
    then have "\<lparr>sv_state = st', sv_threads = (sv_threads sv)[i := t\<lparr>th_todo := todo'\<rparr>]\<rparr> = sv"
      using less.prems(1,2) by simp
    then show ?thesis by simp
  next
    case False
    then obtain a rest where t: "th_todo t = a # rest" "a \<noteq> ARecv" "\<not> ts_crashed (sv_state sv)"
      by (cases "th_todo t") auto
    let ?r = "th_act e (th_slot t) (th_stack t) a (sv_state sv)"
    let ?t = "t\<lparr>th_todo := snd ?r @ rest\<rparr>" and ?sv = "th_run e i sv"
    have sv: "?sv = \<lparr>sv_state = fst ?r, sv_threads = (sv_threads sv)[i := ?t]\<rparr>"
      using t less.prems(1,2) by (simp add: th_run_def Let_def split: prod.split)
    have w: "todo_weight (th_todo ?t) < todo_weight (th_todo t)"
      using th_act_weight [OF t(2), of e "th_slot t" "th_stack t" "sv_state sv"] t(1) by simp
    have "th_exec e (th_slot t) (th_stack t) (sv_state sv) (a # rest)
        = th_exec e (th_slot t) (th_stack t) (fst ?r) (snd ?r @ rest)"
      by (rule th_exec_step [OF t(3,2)])
    then have ex: "th_exec e (th_slot ?t) (th_stack ?t) (sv_state ?sv) (th_todo ?t) = (st', todo')"
      using less.prems(3) t(1) unfolding sv by simp
    have len: "i < length (sv_threads ?sv)" and nth: "?t = sv_threads ?sv ! i"
      using less.prems(1) by (simp_all only: sv tserver.simps length_list_update nth_list_update_eq)
    from less.hyps [OF w len nth ex]
    have "(th_step clean)\<^sup>*\<^sup>* ?sv \<lparr>sv_state = st', sv_threads = (sv_threads ?sv)[i := ?t\<lparr>th_todo := todo'\<rparr>]\<rparr>" .
    moreover have "th_step clean sv ?sv" by (rule th_step_run [OF t(3) less.prems(1)])
    ultimately have "(th_step clean)\<^sup>*\<^sup>* sv \<lparr>sv_state = st', sv_threads = (sv_threads ?sv)[i := ?t\<lparr>th_todo := todo'\<rparr>]\<rparr>"
      by (rule converse_rtranclp_into_rtranclp [rotated])
    moreover have "(sv_threads ?sv)[i := ?t\<lparr>th_todo := todo'\<rparr>] = (sv_threads sv)[i := t\<lparr>th_todo := todo'\<rparr>]"
      by (simp only: sv tserver.simps list_update_overwrite) simp
    ultimately show ?thesis by (simp only:)
  qed
qed

end
