(* ===== verification/Thread_Properties.thy ===== *)
theory Thread_Properties
  imports Thread_Refines Epoll_Effects
begin

text \<open>
  The properties of the thread server, \<open>src/chat_server_thread.c\<close>: what holds in
  every interleaving of its threads, what one message does when its thread is not interrupted,
  and what goes wrong between the clean-up of a thread and its \<open>close\<close>.
\<close>

subsection \<open>A concrete server for the witnesses\<close>

text \<open>One accepted connection with the messages \<open>ms\<close> to come.\<close>

definition th_demo :: "Message list \<Rightarrow> tserver" where
  "th_demo ms = fst (th_accept demo_env 5 \<lparr>r_bytes = concat (map pack_message ms), r_script = []\<rparr>
     \<lparr>w_out = [], w_script = []\<rparr> True (zeros 32) (th_start (\<lambda>_. None)))"

lemma th_start_free [simp]: "th_find_free (sv_state (th_start fs)) = Some 0"
  by (simp add: th_find_free_def tclient_table_def th_start_def zero_tclient_def upt_rec)

lemma reachable_th_demo: "th_reachable True (th_demo ms)"
  unfolding th_demo_def
  by (rule th_reach_step [OF th_reach_start th_step_accept]) (simp_all add: th_start_def no_wr_err_def)

lemma th_demo_simps [simp]:
  "sv_threads (th_demo ms) = [\<lparr>th_slot = 0, th_stack = zeros 32, th_todo = [ARecv]\<rparr>]"
  "ts_clients (sv_state (th_demo ms)) = (\<lambda>_. zero_tclient)(0 := \<lparr>tc_sockfd = 5, tc_username = zeros 32,
     tc_active = False, tc_in_use = True, tc_status = 0\<rparr>)"
  "ts_in (sv_state (th_demo ms)) 5 = \<lparr>r_bytes = concat (map pack_message ms), r_script = []\<rparr>"
  "ts_out (sv_state (th_demo ms)) 5 = \<lparr>w_out = [], w_script = []\<rparr>"
  "ts_open (sv_state (th_demo ms)) fd = (fd = 5)" "\<not> ts_crashed (sv_state (th_demo ms))"
  by (simp_all add: th_demo_def th_accept_def Let_def) (simp_all add: th_start_def zero_tclient_def)

lemma th_demo_recv:
  assumes "wf_message m"
  shows "sv_threads (th_run demo_env 0 (th_demo (m # ms))) = [\<lparr>th_slot = 0, th_stack = zeros 32,
      th_todo = [ARoute m, if msg_type m = MSG_LOGOUT then ACleanup else ARecv]\<rparr>]"
    "ts_clients (sv_state (th_run demo_env 0 (th_demo (m # ms)))) = ts_clients (sv_state (th_demo (m # ms)))"
    "ts_out (sv_state (th_run demo_env 0 (th_demo (m # ms)))) = ts_out (sv_state (th_demo (m # ms)))"
    "ts_open (sv_state (th_run demo_env 0 (th_demo (m # ms)))) = ts_open (sv_state (th_demo (m # ms)))"
    "\<not> ts_crashed (sv_state (th_run demo_env 0 (th_demo (m # ms))))"
proof -
  obtain s' where "recv_message \<lparr>r_bytes = concat (map pack_message (m # ms)), r_script = []\<rparr> = (Some m, s')"
    using recv_packed [of m "\<lparr>r_bytes = concat (map pack_message (m # ms)), r_script = []\<rparr>" "concat (map pack_message ms)"] assms
    by (auto simp: no_rd_err_def)
  then show "sv_threads (th_run demo_env 0 (th_demo (m # ms))) = [\<lparr>th_slot = 0, th_stack = zeros 32,
      th_todo = [ARoute m, if msg_type m = MSG_LOGOUT then ACleanup else ARecv]\<rparr>]"
    "ts_clients (sv_state (th_run demo_env 0 (th_demo (m # ms)))) = ts_clients (sv_state (th_demo (m # ms)))"
    "ts_out (sv_state (th_run demo_env 0 (th_demo (m # ms)))) = ts_out (sv_state (th_demo (m # ms)))"
    "ts_open (sv_state (th_run demo_env 0 (th_demo (m # ms)))) = ts_open (sv_state (th_demo (m # ms)))"
    "\<not> ts_crashed (sv_state (th_run demo_env 0 (th_demo (m # ms))))"
    by (simp_all add: th_run_def Let_def del: th_act.simps) (simp_all add: fun_eq_iff)
qed

lemma reachable_th_run: "th_reachable clean sv \<Longrightarrow> \<not> ts_crashed (sv_state sv) \<Longrightarrow> i < length (sv_threads sv) \<Longrightarrow>
    th_reachable clean (th_run e i sv)"
  by (rule th_reach_step [OF _ th_step_run])

text \<open>The message just received, routed without interruption.\<close>

lemma route_run:
  assumes "th_reachable clean sv" "\<not> ts_crashed (sv_state sv)" "i < length (sv_threads sv)"
    and "s = th_slot (sv_threads sv ! i)"
    and "th_todo (sv_threads sv ! i) = [ARoute m, if msg_type m = MSG_LOGOUT then ACleanup else ARecv]"
    and "th_ready 2 (sv_state sv) s" "\<forall>j<10. th_online (sv_state sv) j \<longrightarrow> th_ready 2 (sv_state sv) j"
  shows "\<exists>sv'. (th_step clean)\<^sup>*\<^sup>* sv sv' \<and>
    th_chat (sv_state sv') = spec_message False True e s m (th_chat (sv_state sv))"
proof -
  let ?t = "sv_threads sv ! i"
  have w: "wf_tstate (sv_state sv)" "s < 10"
    using sv_inv_reachable [OF assms(1)] assms(3,4) by (auto simp: sv_inv_def threads_inv_def)
  obtain st' todo' where ex: "th_exec e (th_slot ?t) (th_stack ?t) (sv_state sv) (th_todo ?t) = (st', todo')" by fastforce
  have "st' = th_server.route_with e s m (sv_state sv)"
    using th_exec_route [OF assms(2), of e s "th_stack ?t" m] ex assms(4,5) by simp
  moreover have "th_server.all_ready (sv_state sv) s" using assms(6,7) by (simp add: th_server.all_ready_def)
  ultimately have "th_chat st' = spec_message False True e s m (th_chat (sv_state sv))"
    using th_server.route_refines [OF w] by simp
  with th_exec_steps [OF assms(3) refl ex, of clean] show ?thesis by force
qed

lemma reachable_steps: "(th_step clean)\<^sup>*\<^sup>* sv sv' \<Longrightarrow> th_reachable clean sv \<Longrightarrow> th_reachable clean sv'"
  by (induction rule: rtranclp_induct) (auto intro: th_reach_step)

text \<open>One request, received and routed, on the concrete server.\<close>

lemma th_demo_run:
  assumes "wf_message m" "msg_type m \<noteq> MSG_LOGOUT"
  shows "\<exists>sv'. th_reachable True sv' \<and> (th_step True)\<^sup>*\<^sup>* (th_run demo_env 0 (th_demo [m])) sv' \<and>
    th_chat (sv_state sv') = spec_message False True demo_env 0 m (th_chat (sv_state (th_demo [m])))"
proof -
  let ?sv = "th_run demo_env 0 (th_demo [m])"
  note d = th_demo_recv [OF assms(1), of "[]"]
  have r: "th_reachable True ?sv" by (rule reachable_th_run [OF reachable_th_demo]) simp_all
  have ready: "th_ready 2 (sv_state ?sv) 0" "\<forall>j<10. th_online (sv_state ?sv) j \<longrightarrow> th_ready 2 (sv_state ?sv) j"
    using d by (simp_all add: th_ready_def th_online_def Let_def no_wr_err_def zero_tclient_def)
  have "th_chat (sv_state ?sv) = th_chat (sv_state (th_demo [m]))"
    using d(2,3,5) by (simp add: th_chat_def th_users_def th_stream_def fun_eq_iff) (simp add: th_run_def Let_def split: prod.split option.split)
  with route_run [OF r d(5), of 0 0 m demo_env] d(1) assms(2) ready reachable_steps [OF _ r] show ?thesis by auto
qed

lemma th_demo_chat [simp]:
  "th_users (sv_state (th_demo ms)) = (\<lambda>_. None)" "th_stream (sv_state (th_demo ms)) 0 = []"
  by (simp_all add: th_users_def th_stream_def fun_eq_iff zero_tclient_def)

lemma reachable_th_login: "\<exists>sv. th_reachable True sv \<and> th_users (sv_state sv) 0 = Some (''cy'', 0)"
proof -
  let ?m = "pad_names (new_message 9 MSG_LOGIN ''cy'' ''server'' ''cy:pw'')"
  have wm: "wf_message ?m" "msg_type ?m = MSG_LOGIN" by simp_all
  obtain sv where sv: "th_reachable True sv"
      "th_chat (sv_state sv) = spec_message False True demo_env 0 ?m (th_chat (sv_state (th_demo [?m])))"
    using th_demo_run [of ?m] wm by auto
  have "ch_find (th_chat (sv_state (th_demo [?m]))) ''cy'' = None" by (simp add: ch_find_def find_slot_None_iff)
  with arg_cong [OF sv(2), of ch_users] login_payload wm(2)
  have "th_users (sv_state sv) 0 = Some (''cy'', 0)" by (simp add: spec_message_def ch_send_def ch_set_user_def)
  with sv(1) show ?thesis by blast
qed

lemma reachable_th_answered: "\<exists>sv fd. th_reachable True sv \<and> w_out (ts_out (sv_state sv) fd) \<noteq> []"
proof -
  let ?m = "new_message 9 MSG_LIST_USERS [] [] []"
  obtain sv where sv: "th_reachable True sv"
      "th_chat (sv_state sv) = spec_message False True demo_env 0 ?m (th_chat (sv_state (th_demo [?m])))"
    using th_demo_run [of ?m] by auto
  have "th_stream (sv_state sv) 0 \<noteq> []"
    using arg_cong [OF sv(2), of ch_stream] pack_not_Nil by (simp add: spec_message_def ch_send_def)
  then have "w_out (ts_out (sv_state sv) (tc_sockfd (ts_clients (sv_state sv) 0))) \<noteq> []"
    by (auto simp: th_stream_def split: if_splits)
  with sv(1) show ?thesis by blast
qed

lemma count_replicate: "count_list (replicate n x) x = n"
  by (induction n) simp_all

text \<open>C15: In every reachable state of every interleaving of the threads no name is logged
  in on two slots, every name on a slot is one the login format accepts, and every status is
  one of the three.\<close>
theorem thread_sessions:
  assumes "th_reachable clean sv"
  shows "(\<forall>i j u. th_names (sv_state sv) i = Some u \<longrightarrow> th_names (sv_state sv) j = Some u \<longrightarrow> i = j) \<and>
    (\<forall>i u. th_names (sv_state sv) i = Some u \<longrightarrow> i < MAX_CLIENTS \<and> user_ok u) \<and>
    (\<forall>i. tc_status (ts_clients (sv_state sv) i) < 3)"
proof -
  have w: "wf_tstate (sv_state sv)" using sv_inv_reachable [OF assms] by (simp add: sv_inv_def threads_inv_def)
  then have c: "wf_tclient (ts_clients (sv_state sv) i)" for i by (simp add: wf_tstate_def wf_ttable_def)
  have "\<forall>i j u. th_names (sv_state sv) i = Some u \<longrightarrow> th_names (sv_state sv) j = Some u \<longrightarrow> i = j"
    using w by (auto simp: wf_tstate_def th_table.unique_names_def)
  moreover have "i < MAX_CLIENTS \<and> user_ok u" if "th_names (sv_state sv) i = Some u" for i u
    using that w c [of i] by (auto simp: th_names_def wf_tstate_def wf_ttable_def wf_tclient_def split: if_splits)
  ultimately show ?thesis using c by (auto simp: wf_tclient_def)
qed

theorem thread_sessions_witness:
  "\<exists>sv :: tserver. {j. th_names (sv_state sv) j = Some ''cy''} = {0}"
proof -
  obtain sv where sv: "th_reachable True sv" "th_users (sv_state sv) 0 = Some (''cy'', 0)"
    using reachable_th_login by blast
  then have "th_names (sv_state sv) 0 = Some ''cy''" by (auto simp: th_names_def th_users_def split: if_splits)
  with thread_sessions [OF sv(1), THEN conjunct1, rule_format, of _ "''cy''" 0] show ?thesis
    by blast
qed



text \<open>C17: No thread handles a message forever: from every reachable state, under every
  schedule that lets the thread run 54 times, whatever the others do in between, it comes
  back to its receive or ends, or the process dies.\<close>
theorem thread_returns_to_receive:
  assumes "th_reachable clean sv" "i < length (sv_threads sv)" "54 \<le> count_list is i"
  shows "\<exists>k\<le>length is. let sv' = th_sched e (take k is) sv in
    ts_crashed (sv_state sv') \<or> th_todo (sv_threads sv' ! i) = [] \<or> th_todo (sv_threads sv' ! i) = [ARecv]"
proof -
  have ok: "todo_ok (th_todo (sv_threads sv' ! i))" if "th_reachable clean sv'" "i < length (sv_threads sv')" for sv'
    using todo_ok_reachable [OF that(1)] that(2) by simp
  have "todo_weight (th_todo (sv_threads sv ! i)) \<le> count_list is i"
    using ok [OF assms(1,2)] assms(3) by (simp add: todo_ok_def)
  from th_sched_idle [OF assms(2) this, of e] obtain k
    where k: "k \<le> length is" "\<not> busy i (th_sched e (take k is) sv)" by blast
  let ?sv = "th_sched e (take k is) sv"
  have "th_reachable clean ?sv \<and> i < length (sv_threads ?sv)"
    using th_sched_reachable [OF assms(1)] th_sched_length assms(2) by simp
  then have "todo_ok (th_todo (sv_threads ?sv ! i))" using ok by blast
  with k show ?thesis
    by (intro exI [of _ k]) (auto simp: busy_def Let_def todo_ok_def split: list.splits if_splits)
qed

theorem thread_returns_to_receive_witness:
  "\<exists>k\<le>54. let sv' = th_sched demo_env (replicate k 0) (th_run demo_env 0 (th_demo [new_message 9 MSG_LIST_USERS [] [] []])) in
    ts_crashed (sv_state sv') \<or> th_todo (sv_threads sv' ! 0) = [] \<or> th_todo (sv_threads sv' ! 0) = [ARecv]"
proof -
  let ?sv = "th_run demo_env 0 (th_demo [new_message 9 MSG_LIST_USERS [] [] []])"
  have r: "th_reachable True ?sv" by (rule reachable_th_run [OF reachable_th_demo]) simp_all
  have c: "54 \<le> count_list (replicate 54 0) (0::nat)" by (simp only: count_replicate)
  from thread_returns_to_receive [OF r _ c, of demo_env] show ?thesis by (auto simp: take_replicate min_def)
qed

text \<open>C19: The thread server can close the connection of the wrong client: a thread that
  ends frees its slot before it closes the slot's descriptor; when a new connection is
  accepted in between it takes the same slot, the old thread closes the new descriptor and
  the new client's request is never read, while the old descriptor stays open.\<close>
theorem finished_thread_closes_new_connection:
  "\<exists>sv. th_reachable True sv \<and> ts_open (sv_state sv) 5 \<and> ts_open (sv_state sv) 6 \<and>
     tc_sockfd (ts_clients (sv_state sv) 0) = 6 \<and> r_bytes (ts_in (sv_state sv) 6) = pack_message m \<and>
     map th_slot (sv_threads sv) = [0, 0] \<and> map th_todo (sv_threads sv) = [[AClose], [ARecv]] \<and>
     \<not> ts_open (sv_state (th_run e 0 sv)) 6 \<and> ts_open (sv_state (th_run e 0 sv)) 5 \<and>
     map th_todo (sv_threads (th_run e 1 (th_run e 0 sv))) = [[], [ACleanup]]"
proof -
  let ?sv2 = "th_run e 0 (th_run e 0 (th_demo []))"
  let ?rs = "\<lparr>r_bytes = pack_message m, r_script = []\<rparr>" and ?ws = "\<lparr>w_out = [], w_script = []\<rparr> :: wsock"
  let ?sv = "fst (th_accept e 6 ?rs ?ws True [] ?sv2)"
  obtain s' where "recv_message \<lparr>r_bytes = [], r_script = []\<rparr> = (None, s')"
    using recv_at_eof [of "\<lparr>r_bytes = [], r_script = []\<rparr>"] by auto
  then have sv1: "sv_threads (th_run e 0 (th_demo [])) = [\<lparr>th_slot = 0, th_stack = zeros 32, th_todo = [ACleanup]\<rparr>]"
      "ts_clients (sv_state (th_run e 0 (th_demo []))) = ts_clients (sv_state (th_demo []))"
      "ts_open (sv_state (th_run e 0 (th_demo []))) = ts_open (sv_state (th_demo []))"
      "\<not> ts_crashed (sv_state (th_run e 0 (th_demo [])))"
    by (simp_all add: th_run_def Let_def)
  then have sv2: "sv_threads ?sv2 = [\<lparr>th_slot = 0, th_stack = zeros 32, th_todo = [AClose]\<rparr>]"
      "ts_clients (sv_state ?sv2) = (\<lambda>_. zero_tclient)(0 := \<lparr>tc_sockfd = 5, tc_username = zeros 32,
     tc_active = False, tc_in_use = False, tc_status = 0\<rparr>)"
      "ts_open (sv_state ?sv2) fd = (fd = 5)" "\<not> ts_crashed (sv_state ?sv2)" for fd
    by (simp_all add: th_run_def [of e 0 "th_run e 0 (th_demo [])"] Let_def)
  have r2: "th_reachable True ?sv2"
    using sv1 by (intro reachable_th_run reachable_th_demo) simp_all
  have "th_reachable True ?sv"
    using sv2 by (intro th_reach_step [OF r2 th_step_accept]) (simp_all add: no_wr_err_def)
  moreover have "th_find_free (sv_state ?sv2) = Some 0"
    using sv2(2) by (simp add: th_find_free_def tclient_table_def upt_rec)
  ultimately show ?thesis
    using sv2 by (intro exI [of _ ?sv]) (simp add: th_accept_def th_run_def Let_def)
qed

text \<open>C2: The thread server implements the abstract chat server: from the moment a thread
  has received a message, its steps up to the next receive (for \<open>MSG_LOGOUT\<close> up to
  its end), when no other thread runs between them, change users, streams, history files and
  crashes exactly as \<open>spec_message\<close> says, on every message type and branch.\<close>
theorem thread_refines_chat:
  assumes "th_reachable clean sv" "\<not> ts_crashed (sv_state sv)" "i < length (sv_threads sv)"
    and "s = th_slot (sv_threads sv ! i)"
    and "th_todo (sv_threads sv ! i) = [ARoute m, if msg_type m = MSG_LOGOUT then ACleanup else ARecv]"
    and "th_ready 2 (sv_state sv) s" "\<forall>j<10. th_online (sv_state sv) j \<longrightarrow> th_ready 2 (sv_state sv) j"
  shows "\<exists>sv'. (th_step clean)\<^sup>*\<^sup>* sv sv' \<and>
    th_chat (sv_state sv') = spec_message False True e s m (th_chat (sv_state sv))"
  by (rule route_run [OF assms])

theorem thread_refines_chat_witness:
  "\<exists>sv sv'. (th_step True)\<^sup>*\<^sup>* sv sv' \<and> th_stream (sv_state sv) 0 = [] \<and>
     th_stream (sv_state sv') 0 = pack_message (server_reply demo_env MSG_USER_LIST (sender (new_message 9 MSG_LIST_USERS [] [] [])) [])"
proof -
  let ?m = "new_message 9 MSG_LIST_USERS [] [] []"
  let ?sv = "th_run demo_env 0 (th_demo [?m])"
  have wm: "wf_message ?m" by simp
  note d = th_demo_recv [OF wm, of "[]"]
  have r: "th_reachable True ?sv" by (rule reachable_th_run [OF reachable_th_demo]) simp_all
  have ready: "th_ready 2 (sv_state ?sv) 0" "\<forall>j<10. th_online (sv_state ?sv) j \<longrightarrow> th_ready 2 (sv_state ?sv) j"
    using d by (simp_all add: th_ready_def th_online_def Let_def no_wr_err_def zero_tclient_def)
  obtain sv' where sv': "(th_step True)\<^sup>*\<^sup>* ?sv sv'"
      "th_chat (sv_state sv') = spec_message False True demo_env 0 ?m (th_chat (sv_state ?sv))"
    using thread_refines_chat [OF r d(5), of 0 0 ?m] d(1) ready by auto
  have "List.map_filter (th_users (sv_state ?sv)) [0..<10] = []"
    using d(2) by (simp add: th_users_def List.map_filter_def zero_tclient_def)
  moreover have s0: "th_stream (sv_state ?sv) 0 = []" using d(2,3) by (simp add: th_stream_def)
  ultimately have "th_stream (sv_state sv') 0 = pack_message (server_reply demo_env MSG_USER_LIST (sender ?m) [])"
    using arg_cong [OF sv'(2), of ch_stream] by (simp add: spec_message_def ch_send_def ch_list_def)
  with sv'(1) s0 show ?thesis by blast
qed

end
