(* ===== verification/Thread_Races.thy ===== *)
theory Thread_Races
  imports Thread_Properties
begin

text \<open>
  A race of the thread server, \<open>src/chat_server_thread.c\<close>, that reaches from the
  lookup of a recipient under \<open>table_lock\<close> to the send under
  \<open>send_lock\<close>, with a run of the server that ends in it.
\<close>

lemma reach_run:
  assumes "th_reachable c \<lparr>sv_state = st, sv_threads = ts\<rparr>" "\<not> ts_crashed st" "i < length ts"
    and "th_todo (ts ! i) = a # rest" "th_act e (th_slot (ts ! i)) (th_stack (ts ! i)) a st = (st', new)"
    and "ts' = ts[i := (ts ! i)\<lparr>th_todo := new @ rest\<rparr>]"
  shows "th_reachable c \<lparr>sv_state = st', sv_threads = ts'\<rparr>"
proof -
  have "th_run e i \<lparr>sv_state = st, sv_threads = ts\<rparr> = \<lparr>sv_state = st', sv_threads = ts'\<rparr>"
    using assms(3-6) by (simp add: th_run_def Let_def)
  with reachable_th_run [OF assms(1), of i e] assms(2,3) show ?thesis by simp
qed

text \<open>A login received and handled.\<close>

lemma reach_login:
  assumes r: "th_reachable c \<lparr>sv_state = st, sv_threads = ts\<rparr>" and "\<not> ts_crashed st" "i < length ts"
    and t: "ts ! i = \<lparr>th_slot = s, th_stack = k, th_todo = [ARecv]\<rparr>"
    and open_fd: "ts_open st (tc_sockfd (ts_clients st s))"
    and recv: "recv_message (ts_in st (tc_sockfd (ts_clients st s))) = (Some m, rs)"
    and m: "msg_type m = MSG_LOGIN" "sscanf_user_pass (payload m) = (2, u, p)"
    and "th_find_user st u = None"
  shows "th_reachable c \<lparr>sv_state = th_slot_send s (server_reply demo_env MSG_ACK u ''Login successful'')
    (th_login_slot s u (st\<lparr>ts_in := (ts_in st)(tc_sockfd (ts_clients st s) := rs)\<rparr>)), sv_threads = ts\<rparr>"
proof -
  let ?st1 = "st\<lparr>ts_in := (ts_in st)(tc_sockfd (ts_clients st s) := rs)\<rparr>"
  let ?T = "\<lambda>a. ts[i := \<lparr>th_slot = s, th_stack = k, th_todo = a # [ARecv]\<rparr>]"
  let ?ack = "server_reply demo_env MSG_ACK u ''Login successful''"
  have f: "th_find_user ?st1 u = None" using assms(9) by (simp add: th_find_user_def tclient_table_def)
  have 1: "th_reachable c \<lparr>sv_state = ?st1, sv_threads = ?T (ARoute m)\<rparr>"
    by (rule reach_run [OF r, where i = i and a = ARecv and rest = "[]" and new = "[ARoute m, ARecv]" and e = demo_env])
      (use assms in \<open>simp_all add: Let_def\<close>)
  have 2: "th_reachable c \<lparr>sv_state = ?st1, sv_threads = ?T (ALogin u p)\<rparr>"
    by (rule reach_run [OF 1, where i = i and a = "ARoute m" and rest = "[ARecv]" and new = "[ALogin u p]" and e = demo_env])
      (use assms in \<open>simp_all add: route_def\<close>)
  have 3: "th_reachable c \<lparr>sv_state = th_login_slot s u ?st1, sv_threads = ?T (ASend s ?ack)\<rparr>"
    by (rule reach_run [OF 2, where i = i and a = "ALogin u p" and rest = "[ARecv]" and new = "[ASend s ?ack]" and e = demo_env])
      (use assms f in simp_all)
  have "ts[i := ts ! i] = ts" by simp
  then have same: "ts[i := \<lparr>th_slot = s, th_stack = k, th_todo = [ARecv]\<rparr>] = ts" by (simp only: t)
  show ?thesis
    by (rule reach_run [OF 3, where i = i and a = "ASend s ?ack" and rest = "[ARecv]" and new = "[]" and e = demo_env])
      (use assms same in \<open>simp_all add: th_login_slot_def\<close>)
qed

text \<open>A private message received, its recipient looked up, the history written.\<close>

lemma reach_private:
  assumes r: "th_reachable c \<lparr>sv_state = st, sv_threads = ts\<rparr>" and "\<not> ts_crashed st" "i < length ts"
    and t: "ts ! i = \<lparr>th_slot = s, th_stack = k, th_todo = [ARecv]\<rparr>"
    and open_fd: "ts_open st (tc_sockfd (ts_clients st s))"
    and recv: "recv_message (ts_in st (tc_sockfd (ts_clients st s))) = (Some m, rs)"
    and m: "msg_type m = MSG_PRIVATE" "tc_active (ts_clients st s)" "th_find_user st (receiver m) = Some t'"
  shows "\<exists>fs. th_reachable c \<lparr>sv_state = st\<lparr>ts_in := (ts_in st)(tc_sockfd (ts_clients st s) := rs), ts_files := fs\<rparr>,
    sv_threads = ts[i := \<lparr>th_slot = s, th_stack = k,
      th_todo = [ASend t' m, ASend s (server_reply demo_env MSG_ACK (sender m) []), ARecv]\<rparr>]\<rparr>"
proof -
  let ?st1 = "st\<lparr>ts_in := (ts_in st)(tc_sockfd (ts_clients st s) := rs)\<rparr>"
  let ?T = "\<lambda>as. ts[i := \<lparr>th_slot = s, th_stack = k, th_todo = as @ [ARecv]\<rparr>]"
  let ?sv = "ASave (sender m) (receiver m) (payload m) (timestamp m)"
  let ?rest = "[ASend t' m, ASend s (server_reply demo_env MSG_ACK (sender m) [])]"
  have f: "th_find_user ?st1 (receiver m) = Some t'" using m(3) by (simp add: th_find_user_def tclient_table_def)
  obtain fs where fs: "save_history demo_env (sender m) (receiver m) (payload m) (timestamp m) (ts_files st) = Some fs"
    using demo_save by blast
  have 1: "th_reachable c \<lparr>sv_state = ?st1, sv_threads = ?T [ARoute m]\<rparr>"
    by (rule reach_run [OF r, where i = i and a = ARecv and rest = "[]" and new = "[ARoute m, ARecv]" and e = demo_env])
      (use assms in \<open>simp_all add: Let_def\<close>)
  have 2: "th_reachable c \<lparr>sv_state = ?st1, sv_threads = ?T [AFind m]\<rparr>"
    by (rule reach_run [OF 1, where i = i and a = "ARoute m" and rest = "[ARecv]" and new = "[AFind m]" and e = demo_env])
      (use assms in \<open>simp_all add: route_def\<close>)
  have 3: "th_reachable c \<lparr>sv_state = ?st1, sv_threads = ?T (?sv # ?rest)\<rparr>"
    by (rule reach_run [OF 2, where i = i and a = "AFind m" and rest = "[ARecv]" and new = "?sv # ?rest" and e = demo_env])
      (use assms f in simp_all)
  have "th_reachable c \<lparr>sv_state = ?st1\<lparr>ts_files := fs\<rparr>, sv_threads = ?T ?rest\<rparr>"
    by (rule reach_run [OF 3, where i = i and a = ?sv and rest = "?rest @ [ARecv]" and new = "[]" and e = demo_env])
      (use assms fs in simp_all)
  then show ?thesis by auto
qed

text \<open>Two connections: al, who will send a private message to bo, and bo.\<close>

definition to_bo :: Message where
  "to_bo = new_message 9 MSG_PRIVATE ''al'' ''bo'' ''secret''"

definition login_of :: "char list \<Rightarrow> Message" where
  "login_of u = new_message 9 MSG_LOGIN u ''server'' (u @ '':pw'')"

definition th_duo :: tserver where
  "th_duo = fst (th_accept demo_env 6 \<lparr>r_bytes = pack_message (login_of ''bo''), r_script = []\<rparr>
     \<lparr>w_out = [], w_script = []\<rparr> True (zeros 32) (th_demo [login_of ''al'', to_bo]))"

lemma login_of_scan:
  assumes "user_ok u"
  shows "sscanf_user_pass (payload (login_of u)) = (2, u, ''pw'')" "wf_message (login_of u)" "msg_type (login_of u) = MSG_LOGIN"
proof -
  have "length u \<le> 31" "cstring u" using assms by (simp_all add: user_ok_def)
  then have "sscanf_user_pass (payload (login_of u)) = sscanf_user_pass (u @ '':pw'')"
    using sscanf_cstr(1) [of "payload (login_of u)"] by (simp add: login_of_def del: sscanf_cstr)
  then show "sscanf_user_pass (payload (login_of u)) = (2, u, ''pw'')"
    using sscanf_login_roundtrip [OF assms, of "''pw''"] by (simp add: word_ok_def is_space_def)
qed (simp_all add: login_of_def)

lemma th_duo_simps:
  "sv_threads th_duo = [\<lparr>th_slot = 0, th_stack = zeros 32, th_todo = [ARecv]\<rparr>, \<lparr>th_slot = 1, th_stack = zeros 32, th_todo = [ARecv]\<rparr>]"
  "tc_sockfd (ts_clients (sv_state th_duo) j) = (if j = 0 then 5 else if j = 1 then 6 else 0)"
  "tc_active (ts_clients (sv_state th_duo) j) = False" "tc_in_use (ts_clients (sv_state th_duo) j) = (j < 2)"
  "ts_in (sv_state th_duo) 5 = \<lparr>r_bytes = pack_message (login_of ''al'') @ pack_message to_bo, r_script = []\<rparr>"
  "ts_in (sv_state th_duo) 6 = \<lparr>r_bytes = pack_message (login_of ''bo''), r_script = []\<rparr>"
  "ts_open (sv_state th_duo) fd = (fd = 5 \<or> fd = 6)" "\<not> ts_crashed (sv_state th_duo)"
proof -
  have "th_find_free (sv_state (th_demo ms)) = Some 1" for ms
    by (simp add: th_find_free_def tclient_table_def upt_rec zero_tclient_def)
  then show
    "sv_threads th_duo = [\<lparr>th_slot = 0, th_stack = zeros 32, th_todo = [ARecv]\<rparr>, \<lparr>th_slot = 1, th_stack = zeros 32, th_todo = [ARecv]\<rparr>]"
    "tc_sockfd (ts_clients (sv_state th_duo) j) = (if j = 0 then 5 else if j = 1 then 6 else 0)"
    "tc_active (ts_clients (sv_state th_duo) j) = False" "tc_in_use (ts_clients (sv_state th_duo) j) = (j < 2)"
    "ts_in (sv_state th_duo) 5 = \<lparr>r_bytes = pack_message (login_of ''al'') @ pack_message to_bo, r_script = []\<rparr>"
    "ts_in (sv_state th_duo) 6 = \<lparr>r_bytes = pack_message (login_of ''bo''), r_script = []\<rparr>"
    "ts_open (sv_state th_duo) fd = (fd = 5 \<or> fd = 6)" "\<not> ts_crashed (sv_state th_duo)"
    by (auto simp: th_duo_def th_accept_def Let_def zero_tclient_def)
qed

lemma reachable_th_duo: "th_reachable True th_duo"
  unfolding th_duo_def
  by (rule th_reach_step [OF reachable_th_demo th_step_accept]) (simp_all add: no_wr_err_def)

lemma th_names_frame:
  "th_names (th_slot_send i m st) = th_names st" "th_names (st\<lparr>ts_in := f\<rparr>) = th_names st"
  by (simp_all add: th_names_def fun_eq_iff)

lemma reach_wf:
  assumes "th_reachable c \<lparr>sv_state = st, sv_threads = ts\<rparr>"
  shows "wf_ttable st" "th_table.unique_names st"
  using sv_inv_reachable [OF assms] by (simp_all add: sv_inv_def threads_inv_def wf_tstate_def)

lemma th_login_names_in:
  assumes "wf_ttable st" "s < 10" "user_ok u"
  shows "th_names (th_login_slot s u (st\<lparr>ts_in := f\<rparr>)) = (th_names st)(s \<mapsto> u)"
proof -
  have "wf_ttable (st\<lparr>ts_in := f\<rparr>)" using assms(1) by (simp add: wf_ttable_def)
  from th_table.login_names [OF this assms(2,3)] show ?thesis by (simp add: th_names_frame)
qed

lemma find_user_cstr: "th_find_user st a = th_find_user st (cstr a)"
  by (simp add: th_find_user_def strneq_def)

text \<open>Both have logged in, the message to bo has been looked up, and bo has gone.\<close>

lemma bo_gone:
  "\<exists>st rest ts. th_reachable True \<lparr>sv_state = st, sv_threads = \<lparr>th_slot = 0, th_stack = zeros 32, th_todo = ASend 1 to_bo # rest\<rparr> # ts\<rparr> \<and>
     \<not> ts_crashed st \<and> th_find_free st = Some 1 \<and> \<not> ts_open st 7"
proof -
  let ?al = "''al''" and ?bo = "''bo''"
  have u: "user_ok ?al" "user_ok ?bo" by (simp_all add: user_ok_def)
  let ?t = "\<lambda>s. \<lparr>th_slot = s, th_stack = zeros 32, th_todo = [ARecv]\<rparr>"
  define st0 where "st0 = sv_state th_duo"
  note d = th_duo_simps [folded st0_def]
  have r0: "th_reachable True \<lparr>sv_state = st0, sv_threads = [?t 0, ?t 1]\<rparr>"
    using reachable_th_duo th_duo_simps(1) by (metis st0_def tserver.surjective old.unit.exhaust)
  obtain rs1 where rs1: "recv_message (ts_in st0 5) = (Some (login_of ?al), rs1)" "r_bytes rs1 = pack_message to_bo" "no_rd_err rs1"
    using recv_packed [of "login_of ?al" "ts_in st0 5" "pack_message to_bo"] login_of_scan(2) [OF u(1)] by (auto simp: d no_rd_err_def)
  obtain rs2 where rs2: "recv_message (ts_in st0 6) = (Some (login_of ?bo), rs2)" "r_bytes rs2 = []"
    using recv_packed [of "login_of ?bo" "ts_in st0 6" "[]"] login_of_scan(2) [OF u(2)] by (auto simp: d no_rd_err_def)
  have wbo: "wf_message to_bo" by (simp add: to_bo_def)
  obtain rs3 where rs3: "recv_message rs1 = (Some to_bo, rs3)"
    using recv_packed [of to_bo rs1 "[]"] rs1(2,3) wbo by auto
  obtain rs4 where rs4: "recv_message rs2 = (None, rs4)" using recv_at_eof [OF rs2(2)] by blast
  have n0: "th_names st0 = (\<lambda>_. None)" by (simp add: th_names_def d fun_eq_iff)
  have f0: "th_find_user st0 v = None" for v by (simp add: th_find_user_def find_slot_None_iff tclient_table_def d)
  define A where "A = th_slot_send 0 (server_reply demo_env MSG_ACK ?al ''Login successful'')
    (th_login_slot 0 ?al (st0\<lparr>ts_in := (ts_in st0)(5 := rs1)\<rparr>))"
  have rA: "th_reachable True \<lparr>sv_state = A, sv_threads = [?t 0, ?t 1]\<rparr>"
    using reach_login [OF r0, of 0 0 "zeros 32" "login_of ?al" rs1 ?al "''pw''"] d rs1(1) login_of_scan [OF u(1)] f0
    by (simp add: A_def)
  have nA: "th_names A = [0 \<mapsto> ?al]"
    using th_login_names_in [OF reach_wf(1) [OF r0], of 0 ?al] u n0 by (simp add: A_def th_names_frame)
  have cA: "ts_in A 6 = ts_in st0 6" "ts_in A 5 = rs1" "tc_sockfd (ts_clients A j) = tc_sockfd (ts_clients st0 j)"
    "tc_in_use (ts_clients A j) = tc_in_use (ts_clients st0 j)" "ts_open A = ts_open st0" "\<not> ts_crashed A" for j
    by (simp_all add: A_def th_login_slot_def d)
  have fA: "th_find_user A ?bo = None"
  proof (cases "th_find_user A ?bo")
    case (Some j)
    with th_table.lookup_Some [OF reach_wf(1) [OF rA], of ?bo j] u(2) nA show ?thesis by (simp add: user_ok_def split: if_splits)
  qed
  define B where "B = th_slot_send 1 (server_reply demo_env MSG_ACK ?bo ''Login successful'')
    (th_login_slot 1 ?bo (A\<lparr>ts_in := (ts_in A)(6 := rs2)\<rparr>))"
  have rB: "th_reachable True \<lparr>sv_state = B, sv_threads = [?t 0, ?t 1]\<rparr>"
    using reach_login [OF rA, of 1 1 "zeros 32" "login_of ?bo" rs2 ?bo "''pw''"] d cA rs2(1) login_of_scan [OF u(2)] fA
    by (simp add: B_def)
  have nB: "th_names B = [0 \<mapsto> ?al, 1 \<mapsto> ?bo]"
    using th_login_names_in [OF reach_wf(1) [OF rA], of 1 ?bo] u nA by (simp add: B_def th_names_frame)
  have cB: "ts_in B 6 = rs2" "ts_in B 5 = rs1" "tc_sockfd (ts_clients B j) = tc_sockfd (ts_clients st0 j)"
    "tc_in_use (ts_clients B j) = tc_in_use (ts_clients st0 j)" "ts_open B = ts_open st0" "\<not> ts_crashed B" for j
    by (simp_all add: B_def th_login_slot_def d cA)
  have "th_find_user B (receiver to_bo) = Some 1"
    using th_table.lookup_unique [OF reach_wf [OF rB], of 1 ?bo] nB u(2) find_user_cstr [of B "receiver to_bo"]
    by (simp add: to_bo_def user_ok_def)
  moreover have "tc_active (ts_clients B 0)" using nB by (auto simp: th_names_def fun_eq_iff split: if_splits dest!: spec [of _ 0])
  ultimately obtain fs where rC: "th_reachable True \<lparr>sv_state = B\<lparr>ts_in := (ts_in B)(5 := rs3), ts_files := fs\<rparr>,
    sv_threads = [\<lparr>th_slot = 0, th_stack = zeros 32,
      th_todo = [ASend 1 to_bo, ASend 0 (server_reply demo_env MSG_ACK (sender to_bo) []), ARecv]\<rparr>, ?t 1]\<rparr>"
    using reach_private [OF rB, of 0 0 "zeros 32" to_bo rs3 1] d cB rs3 by (auto simp: to_bo_def)
  let ?C = "B\<lparr>ts_in := (ts_in B)(5 := rs3), ts_files := fs\<rparr>"
  let ?t0 = "\<lparr>th_slot = 0, th_stack = zeros 32,
      th_todo = [ASend 1 to_bo, ASend 0 (server_reply demo_env MSG_ACK (sender to_bo) []), ARecv]\<rparr>"
  let ?D = "?C\<lparr>ts_in := (ts_in ?C)(6 := rs4)\<rparr>"
  have rD: "th_reachable True \<lparr>sv_state = ?D, sv_threads = [?t0, \<lparr>th_slot = 1, th_stack = zeros 32, th_todo = [ACleanup]\<rparr>]\<rparr>"
    by (rule reach_run [OF rC, where i = 1 and a = ARecv and rest = "[]" and new = "[ACleanup]" and e = demo_env])
      (simp_all add: d cB rs4 Let_def)
  let ?E = "fst (th_act demo_env 1 (zeros 32) ACleanup ?D)" and ?new = "snd (th_act demo_env 1 (zeros 32) ACleanup ?D)"
  have rE: "th_reachable True \<lparr>sv_state = ?E, sv_threads = [?t0, \<lparr>th_slot = 1, th_stack = zeros 32, th_todo = ?new\<rparr>]\<rparr>"
    by (rule reach_run [OF rD, where i = 1 and a = ACleanup and rest = "[]" and new = ?new and e = demo_env])
      (simp_all add: cB del: th_act.simps)
  have "th_find_free ?E = Some 1"
    by (simp add: th_find_free_def tclient_table_def upt_rec Let_def cB d)
  moreover have "\<not> ts_crashed ?E" "\<not> ts_open ?E 7" by (simp_all add: Let_def cB d)
  ultimately show ?thesis using rE by blast
qed

text \<open>C18: The thread server can hand a private message to the wrong client: the router looks
  the recipient up under the table lock but sends without it. When the recipient leaves in
  between, and a new connection takes the freed slot, the message is the first thing that
  connection receives, although nobody has logged in on it.\<close>
theorem send_reaches_new_connection:
  assumes "th_reachable True sv" "\<not> ts_crashed (sv_state sv)" "i < length (sv_threads sv)"
    and "th_todo (sv_threads sv ! i) = ASend t m # rest" "th_find_free (sv_state sv) = Some t" "\<not> ts_open (sv_state sv) cfd"
    and acc: "sv1 = fst (th_accept e cfd rs \<lparr>w_out = [], w_script = []\<rparr> True stk sv)" "sv2 = th_run e i sv1"
  shows "th_step True sv sv1 \<and> th_step True sv1 sv2 \<and> th_names (sv_state sv2) t = None \<and>
    tc_sockfd (ts_clients (sv_state sv2) t) = cfd \<and> th_stream (sv_state sv2) t = pack_message m"
proof -
  have 1: "th_step True sv sv1"
    unfolding acc by (rule th_step_accept) (use assms in \<open>simp_all add: no_wr_err_def\<close>)
  have st1: "sv_threads sv1 = sv_threads sv @ [\<lparr>th_slot = t, th_stack = stk, th_todo = [ARecv]\<rparr>]"
      "tc_sockfd (ts_clients (sv_state sv1) t) = cfd" "\<not> tc_active (ts_clients (sv_state sv1) t)"
      "tc_in_use (ts_clients (sv_state sv1) t)" "ts_open (sv_state sv1) cfd"
      "ts_out (sv_state sv1) cfd = \<lparr>w_out = [], w_script = []\<rparr>" "\<not> ts_crashed (sv_state sv1)"
    using assms(2,5) by (simp_all add: acc th_accept_def Let_def)
  have sv2: "sv_state sv2 = th_slot_send t m (sv_state sv1)"
    using st1(1) assms(3,4) by (simp add: acc(2) th_run_def Let_def nth_append)
  obtain s' where "send_message \<lparr>w_out = [], w_script = []\<rparr> m = (True, s')" "w_out s' = pack_message m"
    using send_message_ok [of "\<lparr>w_out = [], w_script = []\<rparr>" m] by (auto simp: no_wr_err_def)
  then have "th_stream (sv_state sv2) t = pack_message m"
    using st1 by (simp add: sv2 th_stream_def th_slot_send_def Let_def)
  moreover have "th_step True sv1 sv2"
    unfolding acc(2) using st1(1,7) assms(3) by (intro th_step_run) simp_all
  ultimately show ?thesis using 1 st1 by (simp add: sv2 th_names_def)
qed

theorem send_reaches_new_connection_witness:
  "\<exists>sv. th_reachable True sv \<and> th_names (sv_state sv) 1 = None \<and> th_stream (sv_state sv) 1 = pack_message to_bo"
proof -
  obtain st rest ts where r: "th_reachable True \<lparr>sv_state = st, sv_threads = \<lparr>th_slot = 0, th_stack = zeros 32, th_todo = ASend 1 to_bo # rest\<rparr> # ts\<rparr>"
    "\<not> ts_crashed st" "th_find_free st = Some 1" "\<not> ts_open st 7" using bo_gone by blast
  let ?sv = "\<lparr>sv_state = st, sv_threads = \<lparr>th_slot = 0, th_stack = zeros 32, th_todo = ASend 1 to_bo # rest\<rparr> # ts\<rparr>"
  let ?sv1 = "fst (th_accept demo_env 7 \<lparr>r_bytes = [], r_script = []\<rparr> \<lparr>w_out = [], w_script = []\<rparr> True [] ?sv)"
  have "th_step True ?sv ?sv1 \<and> th_step True ?sv1 (th_run demo_env 0 ?sv1) \<and> th_names (sv_state (th_run demo_env 0 ?sv1)) 1 = None \<and>
    tc_sockfd (ts_clients (sv_state (th_run demo_env 0 ?sv1)) 1) = 7 \<and> th_stream (sv_state (th_run demo_env 0 ?sv1)) 1 = pack_message to_bo"
    by (rule send_reaches_new_connection [OF r(1)]) (use r in simp_all)
  with th_reach_step [OF th_reach_step [OF r(1)]] show ?thesis by blast
qed

end
