(* ===== verification/Fork_Server.thy ===== *)
theory Fork_Server
  imports Chat_Common Stream_IO
begin

text \<open>
  The fork server, \<open>src/chat_server_fork.c\<close>: the table of slots in shared memory,
  one child process per connection, the two pipes between each child and the parent, the
  parent's router \<open>route_message\<close>, the loop of the child (\<open>child_main\<close>),
  the handler of \<open>SIGCHLD\<close>, and the relation \<open>fk_step\<close> of what may happen
  next. The credential check, the history and the user list are those of
  \<open>Chat_Common\<close>, whose text the file repeats.
\<close>

subsection \<open>The state\<close>

text \<open>\<open>fc_pid\<close> is 0 for a slot without a child; \<open>fc_pipe\<close> stands for
  the four descriptors of the slot's pipes: the child they were made for.\<close>

record fclient =
  fc_username :: "char list"
  fc_ip :: "char list"
  fc_active :: bool
  fc_status :: nat
  fc_pid :: nat
  fc_pipe :: nat

text \<open>A child: its slot, the two directions of its socket, the content of its two pipes,
  whether it runs, and whether the parent has waited for it.\<close>

record fchild =
  cp_slot :: nat
  cp_pid :: nat
  cp_in :: rsock
  cp_out :: wsock
  cp_to :: "char list"
  cp_from :: "char list"
  cp_alive :: bool
  cp_reaped :: bool

text \<open>\<open>fs_fds\<close> counts the open descriptors of the parent.\<close>

record fserver =
  fs_clients :: "nat \<Rightarrow> fclient"
  fs_children :: "fchild list"
  fs_fds :: nat
  fs_files :: files
  fs_crashed :: bool

definition zero_fclient :: fclient where
  "zero_fclient = \<lparr>fc_username = zeros MAX_USERNAME_LEN, fc_ip = zeros 16, fc_active = False,
     fc_status = 0, fc_pid = 0, fc_pipe = 0\<rparr>"

definition upd_fclient :: "nat \<Rightarrow> (fclient \<Rightarrow> fclient) \<Rightarrow> fserver \<Rightarrow> fserver" where
  "upd_fclient s f st = st\<lparr>fs_clients := (fs_clients st)(s := f (fs_clients st s))\<rparr>"

definition upd_child :: "nat \<Rightarrow> (fchild \<Rightarrow> fchild) \<Rightarrow> fserver \<Rightarrow> fserver" where
  "upd_child i f st = st\<lparr>fs_children := (fs_children st)[i := f (fs_children st ! i)]\<rparr>"

definition fclient_table :: "fserver \<Rightarrow> fclient list" where
  "fclient_table st = map (fs_clients st) [0..<MAX_CLIENTS]"

subsection \<open>Helpers\<close>

definition find_slot_by_username :: "fserver \<Rightarrow> char list \<Rightarrow> nat option" where
  "find_slot_by_username st u =
     find_slot (\<lambda>c. fc_active c \<and> strneq MAX_USERNAME_LEN (fc_username c) u) (fclient_table st)"

definition find_free_slot :: "fserver \<Rightarrow> nat option" where
  "find_free_slot st = find_slot (\<lambda>c. \<not> fc_active c \<and> fc_pid c = 0) (fclient_table st)"

text \<open>A message has at most 1100 bytes, less than \<open>PIPE_BUF\<close>, so the one
  \<open>write\<close> puts all of it into the pipe. Without a reader it fails and nobody looks at
  the result. A write that waits for room in the pipe is taken as done.\<close>

definition pipe_send :: "nat \<Rightarrow> Message \<Rightarrow> fserver \<Rightarrow> fserver" where
  "pipe_send slot m st =
     (let i = fc_pipe (fs_clients st slot)
      in if i < length (fs_children st) \<and> cp_alive (fs_children st ! i)
         then upd_child i (\<lambda>c. c\<lparr>cp_to := cp_to c @ pack_message m\<rparr>) st else st)"

text \<open>The two loops of \<open>pipe_recv\<close>: any result of \<open>read\<close> that is not
  positive ends them.\<close>

function (sequential) pipe_full :: "nat \<Rightarrow> char list \<Rightarrow> rsock \<Rightarrow> char list option \<times> rsock" where
  "pipe_full need acc s =
     (if length acc < need then
        (case c_read (need - length acc) s of
           (Bytes bs, s') \<Rightarrow> if bs = [] then (None, s') else pipe_full need (acc @ bs) s'
         | (ReadIntr, s') \<Rightarrow> (None, s')
         | (ReadErr, s') \<Rightarrow> (None, s'))
      else (Some acc, s))"
  by pat_completeness auto
termination
proof (relation "measure (\<lambda>(need, acc, s). need - length acc)", goal_cases)
  case 1
  show ?case by simp
next
  case prems: (2 need acc s out rest bs)
  then show ?case by (cases bs) auto
qed

declare pipe_full.simps [simp del]

definition pipe_recv :: "rsock \<Rightarrow> Message option \<times> rsock" where
  "pipe_recv s =
     (case pipe_full HEADER_SIZE [] s of
        (None, s1) \<Rightarrow> (None, s1)
      | (Some hdr, s1) \<Rightarrow>
          (let plen = read_u16_be (hdr ! 74) (hdr ! 75)
           in case pipe_full (unat plen) [] s1 of
                (None, s2) \<Rightarrow> (None, s2)
              | (Some body, s2) \<Rightarrow> (unpack_message (hdr @ body) (HEADER_SIZE + unat plen), s2)))"

subsection \<open>The parent's router\<close>

definition fk_login_slot :: "nat \<Rightarrow> char list \<Rightarrow> fserver \<Rightarrow> fserver" where
  "fk_login_slot s u = upd_fclient s (\<lambda>c. c\<lparr>
     fc_username := strncpy (fc_username c) u (MAX_USERNAME_LEN - 1), fc_active := True,
     fc_status := status_code STATUS_AVAILABLE\<rparr>)"

definition fk_logout_slot :: "nat \<Rightarrow> fserver \<Rightarrow> fserver" where
  "fk_logout_slot s = upd_fclient s (\<lambda>c. c\<lparr>fc_username := zeros MAX_USERNAME_LEN, fc_active := False\<rparr>)"

definition pipe_others :: "nat \<Rightarrow> Message \<Rightarrow> fserver \<Rightarrow> fserver" where
  "pipe_others skip m st =
     fold (\<lambda>i st. if i \<noteq> skip \<and> fc_active (fs_clients st i) then pipe_send i m st else st)
       [0..<MAX_CLIENTS] st"

definition fk_sessions :: "fserver \<Rightarrow> session list" where
  "fk_sessions st = map (\<lambda>c. (fc_active c, fc_username c, fc_status c)) (fclient_table st)"

definition route_message :: "env \<Rightarrow> nat \<Rightarrow> Message \<Rightarrow> fserver \<Rightarrow> fserver" where
  "route_message e from msg st =
     (let c = fs_clients st from
      in case msg_type msg of
        MSG_LOGIN \<Rightarrow>
          (case sscanf_user_pass (payload msg) of (n, u, p) \<Rightarrow>
             if n \<noteq> 2 then pipe_send from (error_reply e [] ''Bad login format'') st
             else
               let dup = find_slot_by_username st u
               in if dup \<noteq> None \<and> dup \<noteq> Some from then pipe_send from (error_reply e u ''Already logged in'') st
                  else if \<not> validate e u p then pipe_send from (error_reply e u ''Invalid credentials'') st
                  else pipe_send from (server_reply e MSG_ACK u ''Login successful'') (fk_login_slot from u st))
      | MSG_LOGOUT \<Rightarrow>
          (let note = snprintf 64 (cstr (fc_username c) @ '' left'')
           in pipe_others from (new_message (e_now e) MSG_BROADCAST ''server'' [] note) (fk_logout_slot from st))
      | MSG_BROADCAST \<Rightarrow>
          (if \<not> fc_active c then pipe_send from (error_reply e [] ''Not authenticated'') st
           else (case save_history e (sender msg) [] (payload msg) (timestamp msg) (fs_files st) of
                   None \<Rightarrow> st\<lparr>fs_crashed := True\<rparr>
                 | Some fs \<Rightarrow>
                     pipe_send from (server_reply e MSG_ACK (sender msg) [])
                       (pipe_others from msg (st\<lparr>fs_files := fs\<rparr>))))
      | MSG_PRIVATE \<Rightarrow>
          (if \<not> fc_active c then pipe_send from (error_reply e [] ''Not authenticated'') st
           else (case find_slot_by_username st (receiver msg) of
                   None \<Rightarrow> pipe_send from (error_reply e (sender msg) ''User not online'') st
                 | Some t \<Rightarrow>
                     (case save_history e (sender msg) (receiver msg) (payload msg) (timestamp msg) (fs_files st) of
                        None \<Rightarrow> st\<lparr>fs_crashed := True\<rparr>
                      | Some fs \<Rightarrow>
                          pipe_send from (server_reply e MSG_ACK (sender msg) [])
                            (pipe_send t msg (st\<lparr>fs_files := fs\<rparr>)))))
      | MSG_LIST_USERS \<Rightarrow>
          pipe_send from (server_reply e MSG_USER_LIST (sender msg) (user_list (fk_sessions st))) st
      | MSG_HISTORY_REQ \<Rightarrow>
          pipe_send from (server_reply e MSG_HISTORY_RESP (sender msg) (read_history (fs_files st) (sender msg))) st
      | MSG_STATUS_CHANGE \<Rightarrow>
          pipe_send from (server_reply e MSG_ACK (sender msg) ''Status updated'')
            (upd_fclient from (\<lambda>c. c\<lparr>fc_status := status_code (status_of_payload (payload msg))\<rparr>) st)
      | _ \<Rightarrow> pipe_send from (error_reply e (sender msg) ''Unknown type'') st)"

subsection \<open>The child\<close>

text \<open>The half of a round of \<open>child_main\<close> for a readable socket: what the client
  sends goes into the pipe to the parent, packed again; when the receive fails, a
  \<open>MSG_LOGOUT\<close> under the slot's user name does, and the child exits.\<close>

definition child_sock :: "env \<Rightarrow> nat \<Rightarrow> fserver \<Rightarrow> fserver" where
  "child_sock e i st =
     (let c = fs_children st ! i
      in case recv_message (cp_in c) of
           (None, rs) \<Rightarrow>
             upd_child i (\<lambda>c. c\<lparr>cp_in := rs, cp_from := cp_from c @ pack_message
                 (new_message (e_now e) MSG_LOGOUT (fc_username (fs_clients st (cp_slot c))) [] []), cp_alive := False\<rparr>) st
         | (Some m, rs) \<Rightarrow>
             upd_child i (\<lambda>c. c\<lparr>cp_in := rs, cp_from := cp_from c @ pack_message m\<rparr>) st)"

text \<open>The half for a readable pipe; \<open>chunks\<close> are the sizes in which the reads return
  its content.\<close>

definition child_pipe :: "nat \<Rightarrow> rd_res list \<Rightarrow> fserver \<Rightarrow> fserver" where
  "child_pipe i chunks st =
     (let c = fs_children st ! i
      in case pipe_recv \<lparr>r_bytes = cp_to c, r_script = chunks\<rparr> of
           (None, rs) \<Rightarrow> upd_child i (\<lambda>c. c\<lparr>cp_to := r_bytes rs, cp_alive := False\<rparr>) st
         | (Some fwd, rs) \<Rightarrow>
             upd_child i (\<lambda>c. c\<lparr>cp_out := snd (send_message (cp_out c) fwd), cp_to := r_bytes rs\<rparr>) st)"

subsection \<open>The parent's loop\<close>

text \<open>How far the branch for a new connection gets: the first or the second
  \<open>pipe\<close> fails, \<open>fork\<close> fails, or a child runs. What is made for the slot is
  not closed again on the way out, nor when the slot is freed later: of the descriptors of
  the two pipes, two stay open in the parent when only the first pipe was made, four when the
  fork failed, two when the child has taken over the other ends.\<close>

datatype fork_result = PipeFails bool | ForkFails | Child nat

definition fk_set_ip :: "char list \<Rightarrow> fclient \<Rightarrow> fclient" where
  "fk_set_ip ip c = c\<lparr>fc_ip := ip @ NUL # drop (Suc (length ip)) (fc_ip c)\<rparr>"

definition fk_accept :: "env \<Rightarrow> char list \<Rightarrow> fork_result \<Rightarrow> rsock \<Rightarrow> wsock \<Rightarrow> fserver \<Rightarrow> fserver \<times> wsock" where
  "fk_accept e ip made rs ws st =
     (case find_free_slot st of
        None \<Rightarrow> (st, snd (send_message ws (error_reply e [] ''Server full'')))
      | Some slot \<Rightarrow>
          (case made of
             PipeFails first_made \<Rightarrow> (st\<lparr>fs_fds := fs_fds st + (if first_made then 2 else 0)\<rparr>, ws)
           | ForkFails \<Rightarrow> (upd_fclient slot (fk_set_ip ip) (st\<lparr>fs_fds := fs_fds st + 4\<rparr>), ws)
           | Child pid \<Rightarrow>
               (upd_fclient slot (\<lambda>c. (fk_set_ip ip c)\<lparr>fc_pid := pid, fc_pipe := length (fs_children st)\<rparr>)
                  (st\<lparr>fs_children := fs_children st @
                     [\<lparr>cp_slot = slot, cp_pid = pid, cp_in = rs, cp_out = ws, cp_to = [], cp_from = [],
                       cp_alive = True, cp_reaped = False\<rparr>],
                     fs_fds := fs_fds st + 2\<rparr>), ws)))"

definition reset_slot :: "nat \<Rightarrow> fserver \<Rightarrow> fserver" where
  "reset_slot s = upd_fclient s (\<lambda>c. c\<lparr>fc_username := zeros MAX_USERNAME_LEN, fc_active := False, fc_pid := 0\<rparr>)"

text \<open>One round of the loop over the children, for a slot whose pipe is readable.\<close>

definition fk_parent :: "env \<Rightarrow> nat \<Rightarrow> rd_res list \<Rightarrow> fserver \<Rightarrow> fserver" where
  "fk_parent e s chunks st =
     (let i = fc_pipe (fs_clients st s)
      in case pipe_recv \<lparr>r_bytes = cp_from (fs_children st ! i), r_script = chunks\<rparr> of
           (None, rs) \<Rightarrow> reset_slot s (upd_child i (\<lambda>c. c\<lparr>cp_from := r_bytes rs\<rparr>) st)
         | (Some msg, rs) \<Rightarrow> route_message e s msg (upd_child i (\<lambda>c. c\<lparr>cp_from := r_bytes rs\<rparr>) st))"

text \<open>One round of the loop of \<open>sigchld_handler\<close>, for the exited child
  \<open>i\<close>.\<close>

definition sigchld :: "nat \<Rightarrow> fserver \<Rightarrow> fserver" where
  "sigchld i st =
     (let st1 = upd_child i (\<lambda>c. c\<lparr>cp_reaped := True\<rparr>) st
      in case find_slot (\<lambda>c. fc_pid c = cp_pid (fs_children st ! i)) (fclient_table st) of
           None \<Rightarrow> st1
         | Some s \<Rightarrow> reset_slot s st1)"

text \<open>At the start the three standard descriptors and the listening socket are open.\<close>

definition fk_start :: "files \<Rightarrow> fserver" where
  "fk_start fs = \<lparr>fs_clients = (\<lambda>_. zero_fclient), fs_children = [], fs_fds = 4, fs_files = fs, fs_crashed = False\<rparr>"

text \<open>What may happen next: a connection, a readable socket or pipe in a child, a readable
  pipe in the parent (with data, or closed by a child that has exited), a
  \<open>SIGCHLD\<close>. A process number is not used again before its child has been waited
  for. Reads from a pipe are not interrupted (\<open>signal\<close> restarts them). With
  \<open>clean\<close> the accepted connections have no write errors.\<close>

definition chunked :: "rd_res list \<Rightarrow> bool" where
  "chunked chunks \<longleftrightarrow> set chunks \<subseteq> range RData"

definition fresh_pid :: "nat \<Rightarrow> fserver \<Rightarrow> bool" where
  "fresh_pid pid st \<longleftrightarrow> pid \<noteq> 0 \<and> (\<forall>c\<in>set (fs_children st). \<not> cp_reaped c \<longrightarrow> cp_pid c \<noteq> pid)"

inductive fk_step :: "bool \<Rightarrow> fserver \<Rightarrow> fserver \<Rightarrow> bool" for clean :: bool where
  fk_step_accept: "\<not> fs_crashed st \<Longrightarrow> \<forall>pid. made = Child pid \<longrightarrow> fresh_pid pid st \<Longrightarrow>
     w_out ws = [] \<Longrightarrow> (clean \<longrightarrow> no_wr_err ws) \<Longrightarrow> fk_step clean st (fst (fk_accept e ip made rs ws st))"
| fk_step_sock: "\<not> fs_crashed st \<Longrightarrow> i < length (fs_children st) \<Longrightarrow> cp_alive (fs_children st ! i) \<Longrightarrow>
     fk_step clean st (child_sock e i st)"
| fk_step_pipe: "\<not> fs_crashed st \<Longrightarrow> i < length (fs_children st) \<Longrightarrow> cp_alive (fs_children st ! i) \<Longrightarrow>
     cp_to (fs_children st ! i) \<noteq> [] \<Longrightarrow> chunked chunks \<Longrightarrow> fk_step clean st (child_pipe i chunks st)"
| fk_step_parent: "\<not> fs_crashed st \<Longrightarrow> s < MAX_CLIENTS \<Longrightarrow> fc_pid (fs_clients st s) \<noteq> 0 \<Longrightarrow>
     cp_from (fs_children st ! fc_pipe (fs_clients st s)) \<noteq> [] \<or>
       \<not> cp_alive (fs_children st ! fc_pipe (fs_clients st s)) \<Longrightarrow> chunked chunks \<Longrightarrow>
     fk_step clean st (fk_parent e s chunks st)"
| fk_step_sigchld: "\<not> fs_crashed st \<Longrightarrow> i < length (fs_children st) \<Longrightarrow> \<not> cp_alive (fs_children st ! i) \<Longrightarrow>
     \<not> cp_reaped (fs_children st ! i) \<Longrightarrow> fk_step clean st (sigchld i st)"

inductive fk_reachable :: "bool \<Rightarrow> fserver \<Rightarrow> bool" for clean :: bool where
  fk_reach_start: "fk_reachable clean (fk_start fs)"
| fk_reach_step: "fk_reachable clean st \<Longrightarrow> fk_step clean st st' \<Longrightarrow> fk_reachable clean st'"

end
