(* ===== verification/Fork_Invariant.thy ===== *)
theory Fork_Invariant
  imports Fork_Server
begin

text \<open>
  Invariants of the fork server, \<open>src/chat_server_fork.c\<close>: \<open>wf_fork\<close>
  for the shared table and its links to the children, \<open>flow\<close> for what is in the
  pipes and on the sockets. Both hold in every reachable state (\<open>fk_reachable_inv\<close>).
  \<open>fk_table\<close> interprets \<open>session_table\<close>.
\<close>

subsection \<open>What the operations leave unchanged\<close>

lemma upd_fclient_simps [simp]:
  "fs_clients (upd_fclient s f st) = (fs_clients st)(s := f (fs_clients st s))"
  "fs_children (upd_fclient s f st) = fs_children st" "fs_files (upd_fclient s f st) = fs_files st"
  "fs_crashed (upd_fclient s f st) = fs_crashed st"
  by (simp_all add: upd_fclient_def)

lemma upd_child_simps [simp]:
  "fs_clients (upd_child i f st) = fs_clients st"
  "fs_children (upd_child i f st) = (fs_children st)[i := f (fs_children st ! i)]"
  "fs_files (upd_child i f st) = fs_files st" "fs_crashed (upd_child i f st) = fs_crashed st"
  by (simp_all add: upd_child_def)

lemma update_nth_field: "g (f (xs ! i)) = g (xs ! i) \<Longrightarrow> g (xs[i := f (xs ! i)] ! j) = g (xs ! j)"
  by (cases "i < length xs"; cases "i = j") (simp_all add: list_update_beyond)

text \<open>Everything about a child but what is in its pipe to the client.\<close>

definition same_child :: "fchild \<Rightarrow> fchild \<Rightarrow> bool" where
  "same_child c d \<longleftrightarrow> d = c\<lparr>cp_to := cp_to d\<rparr>"

lemma same_childD: "same_child c d \<Longrightarrow> cp_slot d = cp_slot c \<and> cp_pid d = cp_pid c \<and> cp_in d = cp_in c \<and>
    cp_out d = cp_out c \<and> cp_from d = cp_from c \<and> cp_alive d = cp_alive c \<and> cp_reaped d = cp_reaped c"
  by (cases c; cases d) (simp add: same_child_def)

lemma same_child_refl [simp]: "same_child c c"
  by (simp add: same_child_def)

lemma same_child_trans: "same_child a b \<Longrightarrow> same_child b c \<Longrightarrow> same_child a c"
  by (cases a; cases b; cases c) (simp add: same_child_def)

definition sent_only :: "fserver \<Rightarrow> fserver \<Rightarrow> bool" where
  "sent_only st st' \<longleftrightarrow> length (fs_children st') = length (fs_children st) \<and>
     (\<forall>i. same_child (fs_children st ! i) (fs_children st' ! i))"

lemma sent_only_refl [simp]: "sent_only st st"
  by (simp add: sent_only_def)

lemma sent_only_trans: "sent_only a b \<Longrightarrow> sent_only b c \<Longrightarrow> sent_only a c"
  using same_child_trans by (fastforce simp: sent_only_def)

lemma pipe_send_simps [simp]:
  "fs_clients (pipe_send s m st) = fs_clients st" "fs_files (pipe_send s m st) = fs_files st"
  "fs_crashed (pipe_send s m st) = fs_crashed st" "length (fs_children (pipe_send s m st)) = length (fs_children st)"
  by (simp_all add: pipe_send_def Let_def)

lemma pipe_send_sent: "sent_only st (pipe_send s m st)"
  by (auto simp: sent_only_def pipe_send_def Let_def same_child_def nth_list_update)

lemma pipe_others_frame:
  "fs_clients (pipe_others s m st) = fs_clients st" "fs_files (pipe_others s m st) = fs_files st"
  "fs_crashed (pipe_others s m st) = fs_crashed st" "sent_only st (pipe_others s m st)"
proof -
  show "fs_clients (pipe_others s m st) = fs_clients st" "fs_files (pipe_others s m st) = fs_files st"
    "fs_crashed (pipe_others s m st) = fs_crashed st"
    unfolding pipe_others_def by (rule fold_fixed_field; simp)+
  show "sent_only st (pipe_others s m st)"
    unfolding pipe_others_def by (rule fold_invariant_on) (auto intro: sent_only_trans pipe_send_sent)
qed

declare pipe_others_frame(1-3) [simp]

subsection \<open>The table\<close>

lemma fclient_table_nth [simp]: "i < 10 \<Longrightarrow> fclient_table st ! i = fs_clients st i"
  and length_fclient_table [simp]: "length (fclient_table st) = 10"
  by (simp_all add: fclient_table_def)

definition wf_fclient :: "fclient \<Rightarrow> bool" where
  "wf_fclient c \<longleftrightarrow> canonical_name (fc_username c) \<and> fc_status c < 3 \<and>
     (if fc_active c then fc_pid c \<noteq> 0 \<and> user_ok (cstr (fc_username c)) else cstr (fc_username c) = [])"

text \<open>A slot with a child is linked to it by its pipes and its process number.\<close>

definition linked :: "fserver \<Rightarrow> nat \<Rightarrow> bool" where
  "linked st s \<longleftrightarrow>
     (let i = fc_pipe (fs_clients st s); c = fs_children st ! i
      in s < MAX_CLIENTS \<and> i < length (fs_children st) \<and> cp_slot c = s \<and> cp_pid c = fc_pid (fs_clients st s) \<and>
         \<not> cp_reaped c)"

definition wf_ftable :: "fserver \<Rightarrow> bool" where
  "wf_ftable st \<longleftrightarrow> (\<forall>i. wf_fclient (fs_clients st i)) \<and> (\<forall>i. fc_pid (fs_clients st i) \<noteq> 0 \<longrightarrow> linked st i) \<and>
     (\<forall>i j. i < length (fs_children st) \<longrightarrow> j < length (fs_children st) \<longrightarrow> \<not> cp_reaped (fs_children st ! i) \<longrightarrow>
        \<not> cp_reaped (fs_children st ! j) \<longrightarrow> cp_pid (fs_children st ! i) = cp_pid (fs_children st ! j) \<longrightarrow> i = j)"

definition fk_names :: "fserver \<Rightarrow> nat \<Rightarrow> char list option" where
  "fk_names st i = (if fc_active (fs_clients st i) then Some (cstr (fc_username (fs_clients st i))) else None)"

lemma wf_ftableD:
  assumes "wf_ftable st"
  shows "wf_fclient (fs_clients st i)" "fc_pid (fs_clients st i) \<noteq> 0 \<Longrightarrow> linked st i"
    "length (cstr (fc_username (fs_clients st i))) < 32" "fc_active (fs_clients st i) \<Longrightarrow> i < 10"
proof -
  show w: "wf_fclient (fs_clients st i)" and l: "fc_pid (fs_clients st i) \<noteq> 0 \<Longrightarrow> linked st i" for i
    using assms by (simp_all add: wf_ftable_def)
  show "length (cstr (fc_username (fs_clients st i))) < 32"
    using w [of i] canonical_length length_cstr_terminated [of "fc_username (fs_clients st i)"]
    by (fastforce simp: wf_fclient_def)
  show "fc_active (fs_clients st i) \<Longrightarrow> i < 10"
    using w [of i] l [of i] by (simp add: wf_fclient_def linked_def Let_def)
qed

lemma find_by_username_Some:
  assumes "wf_ftable st" "find_slot_by_username st u = Some i"
  shows "i < 10 \<and> fc_active (fs_clients st i) \<and> cstr (fc_username (fs_clients st i)) = cstr u"
  using find_slot_SomeD [OF assms(2) [unfolded find_slot_by_username_def]] strneq_short [OF wf_ftableD(3) [OF assms(1)]]
  by auto

lemma find_by_username_None:
  assumes "wf_ftable st" "find_slot_by_username st u = None" "fc_active (fs_clients st i)"
  shows "cstr (fc_username (fs_clients st i)) \<noteq> cstr u"
  using find_slot_NoneD [OF assms(2) [unfolded find_slot_by_username_def], of i] assms(3) wf_ftableD(4) [OF assms(1,3)]
  by (auto simp: strneq_def)

lemma fk_login_client:
  assumes "wf_ftable st"
  shows "fs_clients (fk_login_slot s u st) s = (fs_clients st s)\<lparr>fc_username := strncpy (zeros 32) u 31,
    fc_active := True, fc_status := 0\<rparr>"
proof -
  have "canonical_name (fc_username (fs_clients st s))" using wf_ftableD(1) [OF assms] by (simp add: wf_fclient_def)
  then obtain k where k: "strncpy (fc_username (fs_clients st s)) u 31 = strncpy (zeros 32) u 31"
    using strncpy_onto_canonical by blast
  then show ?thesis by (simp add: fk_login_slot_def)
qed

interpretation fk_table: session_table fk_names find_slot_by_username fk_login_slot fk_logout_slot wf_ftable 10
proof (unfold_locales, goal_cases)
  case (1 st u i)
  then show ?case using find_by_username_Some [of st u i] by (simp add: fk_names_def)
next
  case (2 st u i)
  then show ?case using find_by_username_None [of st u i] by (auto simp: fk_names_def)
next
  case (3 st i u)
  then show ?case
    using fk_login_client [OF 3(1), of i u]
    by (auto simp: fk_names_def fk_login_slot_def user_ok_def fun_eq_iff)
next
  case (4 st i)
  then show ?case by (auto simp: fk_names_def fk_logout_slot_def fun_eq_iff)
qed

definition wf_fork :: "fserver \<Rightarrow> bool" where
  "wf_fork st \<longleftrightarrow> wf_ftable st \<and> fk_table.unique_names st"

subsection \<open>Steps keep the table\<close>

text \<open>The links depend on slots, process numbers and pipes only.\<close>

lemma linked_cong:
  assumes "fc_pid (fs_clients st' s) = fc_pid (fs_clients st s)" "fc_pipe (fs_clients st' s) = fc_pipe (fs_clients st s)"
    and "length (fs_children st') = length (fs_children st)"
    and "\<And>i. cp_slot (fs_children st' ! i) = cp_slot (fs_children st ! i) \<and> cp_pid (fs_children st' ! i) = cp_pid (fs_children st ! i)
      \<and> cp_reaped (fs_children st' ! i) = cp_reaped (fs_children st ! i)"
  shows "linked st' s = linked st s"
  using assms by (simp add: linked_def Let_def)

text \<open>A step that changes at most one client entry, and of the children neither slot nor
  process number.\<close>

lemma wf_fork_update:
  assumes w: "wf_fork st"
    and cl: "fs_clients st' = (fs_clients st)(s := c)" "fc_pid c = fc_pid (fs_clients st s)"
      "fc_pipe c = fc_pipe (fs_clients st s)" "wf_fclient c"
    and ch: "length (fs_children st') = length (fs_children st)"
      "\<And>i. cp_slot (fs_children st' ! i) = cp_slot (fs_children st ! i) \<and> cp_pid (fs_children st' ! i) = cp_pid (fs_children st ! i)
      \<and> cp_reaped (fs_children st' ! i) = cp_reaped (fs_children st ! i)"
    and un: "fk_table.unique_names st'"
  shows "wf_fork st'"
proof -
  have p: "fc_pid (fs_clients st' j) = fc_pid (fs_clients st j)" "fc_pipe (fs_clients st' j) = fc_pipe (fs_clients st j)" for j
    using cl by simp_all
  have "linked st' j = linked st j" for j by (rule linked_cong [OF p ch])
  moreover have "wf_fclient (fs_clients st' j)" for j
    using cl(1,4) w by (simp add: wf_fork_def wf_ftable_def)
  ultimately have "wf_ftable st'" using w p ch unfolding wf_fork_def wf_ftable_def by simp
  with un show ?thesis by (simp add: wf_fork_def)
qed

lemma fk_names_cong: "fs_clients st' = fs_clients st \<Longrightarrow> fk_names st' = fk_names st"
  by (simp add: fk_names_def fun_eq_iff)

lemma wf_fork_same:
  assumes "wf_fork st" "fs_clients st' = fs_clients st" "length (fs_children st') = length (fs_children st)"
    "\<And>i. cp_slot (fs_children st' ! i) = cp_slot (fs_children st ! i) \<and> cp_pid (fs_children st' ! i) = cp_pid (fs_children st ! i)
      \<and> cp_reaped (fs_children st' ! i) = cp_reaped (fs_children st ! i)"
  shows "wf_fork st'"
proof (rule wf_fork_update [OF assms(1), of _ 0 "fs_clients st 0"])
  show "wf_fclient (fs_clients st 0)" using assms(1) by (simp add: wf_fork_def wf_ftableD)
  show "fk_table.unique_names st'"
    using assms(1) fk_names_cong [OF assms(2)] by (simp add: wf_fork_def fk_table.unique_names_def)
qed (use assms in simp_all)

lemma wf_fork_sent: "wf_fork st \<Longrightarrow> fs_clients st' = fs_clients st \<Longrightarrow> sent_only st st' \<Longrightarrow> wf_fork st'"
proof (erule wf_fork_same)
  assume "sent_only st st'"
  then have c: "length (fs_children st') = length (fs_children st)" "same_child (fs_children st ! i) (fs_children st' ! i)" for i
    by (simp_all add: sent_only_def)
  show "length (fs_children st') = length (fs_children st)" by (rule c(1))
  show "cp_slot (fs_children st' ! i) = cp_slot (fs_children st ! i) \<and> cp_pid (fs_children st' ! i) = cp_pid (fs_children st ! i)
      \<and> cp_reaped (fs_children st' ! i) = cp_reaped (fs_children st ! i)" for i
    using same_childD [OF c(2), of i] by simp
qed

lemma wf_fk_status:
  assumes "wf_fork st" "n < 3"
  shows "wf_fork (upd_fclient s (\<lambda>c. c\<lparr>fc_status := n\<rparr>) st)"
proof (rule wf_fork_update [OF assms(1)])
  have "wf_fclient (fs_clients st s)" using assms(1) by (simp add: wf_fork_def wf_ftableD)
  with assms(2) show "wf_fclient ((fs_clients st s)\<lparr>fc_status := n\<rparr>)" by (simp add: wf_fclient_def)
  have "fk_names (upd_fclient s (\<lambda>c. c\<lparr>fc_status := n\<rparr>) st) = fk_names st" by (simp add: fk_names_def fun_eq_iff)
  then show "fk_table.unique_names (upd_fclient s (\<lambda>c. c\<lparr>fc_status := n\<rparr>) st)"
    using assms(1) by (simp add: wf_fork_def fk_table.unique_names_def)
qed simp_all

lemma wf_fk_login:
  assumes "wf_fork st" "s < 10" "fc_pid (fs_clients st s) \<noteq> 0" "user_ok u"
    and "find_slot_by_username st u = None \<or> find_slot_by_username st u = Some s"
  shows "wf_fork (fk_login_slot s u st)"
proof (rule wf_fork_update [OF assms(1)])
  let ?c = "(fs_clients st s)\<lparr>fc_username := strncpy (zeros 32) u 31, fc_active := True, fc_status := 0\<rparr>"
  have t: "wf_ftable st" using assms(1) by (simp add: wf_fork_def)
  have u: "take 31 (cstr u) = u" using assms(4) by (simp add: user_ok_def)
  show "fs_clients (fk_login_slot s u st) = (fs_clients st)(s := ?c)"
    using fk_login_client [OF t, of s u] by (auto simp: fk_login_slot_def)
  show "wf_fclient ?c" using assms(3,4) u by (simp add: wf_fclient_def)
  show "fk_table.unique_names (fk_login_slot s u st)"
    using fk_table.login_unique [OF t assms(2,4) _ assms(5)] assms(1) by (simp add: wf_fork_def)
qed (simp_all add: fk_login_slot_def)

lemma wf_fk_logout:
  assumes "wf_fork st" "s < 10"
  shows "wf_fork (fk_logout_slot s st)"
proof (rule wf_fork_update [OF assms(1)])
  let ?c = "(fs_clients st s)\<lparr>fc_username := zeros 32, fc_active := False\<rparr>"
  have t: "wf_ftable st" using assms(1) by (simp add: wf_fork_def)
  show "fs_clients (fk_logout_slot s st) = (fs_clients st)(s := ?c)" by (simp add: fk_logout_slot_def)
  show "wf_fclient ?c" using wf_ftableD(1) [OF t, of s] by (simp add: wf_fclient_def)
  show "fk_table.unique_names (fk_logout_slot s st)"
    using fk_table.logout_unique [OF t assms(2)] assms(1) by (simp add: wf_fork_def)
qed (simp_all add: fk_logout_slot_def)

lemma wf_fork_put [simp]:
  "wf_fork (st\<lparr>fs_files := fs\<rparr>) = wf_fork st" "wf_fork (st\<lparr>fs_crashed := b\<rparr>) = wf_fork st"
  by (simp_all add: wf_fork_def wf_ftable_def linked_def Let_def fk_table.unique_names_def fk_names_def)

lemma wf_pipe_send: "wf_fork st \<Longrightarrow> wf_fork (pipe_send s m st)"
  by (erule wf_fork_sent) (simp_all add: pipe_send_sent)

lemma wf_pipe_others: "wf_fork st \<Longrightarrow> wf_fork (pipe_others s m st)"
  by (erule wf_fork_sent) (simp_all add: pipe_others_frame)

lemma fk_status_small [simp]: "status_code x < 3"
  by (cases x) simp_all

lemma wf_route_message:
  assumes "wf_fork st" "s < 10" "fc_pid (fs_clients st s) \<noteq> 0"
  shows "wf_fork (route_message e s m st)"
proof -
  obtain n u p where sc: "sscanf_user_pass (payload m) = (n, u, p)" by (metis prod_cases3)
  show ?thesis
  proof (cases "msg_type m")
    case MSG_LOGIN
    with sc have "n = 2 \<Longrightarrow> user_ok u" using sscanf_user_pass_ok by simp
    with MSG_LOGIN sc assms wf_fk_login [OF assms] show ?thesis
      by (auto simp: route_message_def Let_def intro!: wf_pipe_send)
  next
    case MSG_BROADCAST
    with assms(1) show ?thesis
      by (simp add: route_message_def Let_def wf_pipe_send wf_pipe_others split: option.split)
  next
    case MSG_PRIVATE
    with assms(1) show ?thesis
      by (simp add: route_message_def Let_def wf_pipe_send split: option.split)
  next
    case MSG_LOGOUT
    with wf_fk_logout [OF assms(1,2)] show ?thesis by (simp add: route_message_def Let_def wf_pipe_others)
  next
    case MSG_STATUS_CHANGE
    with wf_fk_status [OF assms(1)] show ?thesis by (simp add: route_message_def Let_def wf_pipe_send)
  qed (use assms(1) in \<open>simp_all add: route_message_def Let_def wf_pipe_send\<close>)
qed

subsection \<open>Pipes carry whole messages\<close>

lemma pipe_full_read_full:
  "chunked (r_script s) \<Longrightarrow> pipe_full need acc s = read_full need acc s"
proof (induction need acc s rule: pipe_full.induct)
  case (1 need acc s)
  show ?case
  proof (cases "length acc < need")
    case False
    then show ?thesis by (simp add: pipe_full.simps [of need acc] read_full.simps [of need acc])
  next
    case True
    obtain out s' where c: "c_read (need - length acc) s = (out, s')" by fastforce
    from 1(2) obtain bs where out: "out = Bytes bs"
      using c by (auto simp: c_read.simps chunked_def Let_def split: list.splits rd_res.splits)
    have "chunked (r_script s')" using 1(2) c_read_Bytes(4) [OF c [unfolded out]] by (auto simp: chunked_def)
    with 1(1) [OF True c [symmetric] out] True c out show ?thesis
      by (simp add: pipe_full.simps [of need acc] read_full.simps [of need acc])
  qed
qed

lemma chunked_no_err: "chunked (r_script s) \<Longrightarrow> no_rd_err s"
  by (auto simp: chunked_def no_rd_err_def)

lemma read_full_chunked: "chunked (r_script s) \<Longrightarrow> read_full need acc s = (r, s') \<Longrightarrow> chunked (r_script s')"
proof (induction need acc s rule: read_full.induct)
  case (1 need acc s)
  show ?case
  proof (cases "length acc < need")
    case False
    with "1.prems" show ?thesis by (simp add: read_full.simps [of need acc])
  next
    case True
    obtain out s1 where c: "c_read (need - length acc) s = (out, s1)" by fastforce
    from "1.prems"(1) obtain bs where out: "out = Bytes bs"
      using c by (auto simp: c_read.simps chunked_def Let_def split: list.splits rd_res.splits)
    have k: "chunked (r_script s1)" using "1.prems"(1) c_read_Bytes(4) [OF c [unfolded out]] by (auto simp: chunked_def)
    with "1.IH"(1) [OF True c [symmetric] out] True c out "1.prems"(2) show ?thesis
      by (auto simp: read_full.simps [of need acc] split: if_splits)
  qed
qed

text \<open>On a pipe of whole messages \<open>pipe_recv\<close> does what \<open>recv_message\<close>
  does, and its buffer is large enough.\<close>

lemma pipe_recv_packed:
  assumes "valid_message m" "chunked chunks"
  shows "\<exists>rs. pipe_recv \<lparr>r_bytes = pack_message m @ rest, r_script = chunks\<rparr> = (Some (pad_names m), rs) \<and> r_bytes rs = rest"
proof -
  let ?s = "\<lparr>r_bytes = pack_message m @ rest, r_script = chunks\<rparr>"
  obtain rs where rs: "recv_message ?s = (Some (pad_names m), rs)" "r_bytes rs = rest"
    using recv_packed [OF assms(1), of ?s rest] chunked_no_err [of ?s] assms(2) by auto
  then obtain hd s1 bd where r: "read_full 76 [] ?s = (Some hd, s1)"
      "read_full (unat (read_u16_be (hd ! 74) (hd ! 75))) [] s1 = (Some bd, rs)"
      "unpack_message (hd @ bd) (76 + unat (read_u16_be (hd ! 74) (hd ! 75))) = Some (pad_names m)"
    by (auto simp: recv_message_def Let_def split: prod.splits option.splits if_splits)
  have "chunked (r_script s1)" using read_full_chunked [OF _ r(1)] assms(2) by simp
  with r rs(2) assms(2) show ?thesis
    by (simp add: pipe_recv_def Let_def pipe_full_read_full)
qed

lemma pipe_recv_Nil: "\<exists>rs. pipe_recv \<lparr>r_bytes = [], r_script = chunks\<rparr> = (None, rs)"
proof -
  have "fst (pipe_full 76 [] \<lparr>r_bytes = [], r_script = chunks\<rparr>) = None"
    by (simp add: pipe_full.simps [of 76 "[]"] c_read.simps Let_def split: list.split rd_res.split)
  then show ?thesis by (cases "pipe_full 76 [] \<lparr>r_bytes = [], r_script = chunks\<rparr>") (simp add: pipe_recv_def)
qed

lemma pipe_full_left: "pipe_full need acc s = (r, s') \<Longrightarrow> length (r_bytes s') \<le> length (r_bytes s)"
proof (induction need acc s rule: pipe_full.induct)
  case (1 need acc s)
  show ?case
  proof (cases "length acc < need")
    case False
    with "1.prems" show ?thesis by (simp add: pipe_full.simps [of need acc])
  next
    case True
    obtain out s1 where c: "c_read (need - length acc) s = (out, s1)" by fastforce
    then have "length (r_bytes s1) \<le> length (r_bytes s)"
      by (auto simp: c_read.simps Let_def split: list.splits rd_res.splits)
    moreover have "s' = s1 \<or> length (r_bytes s') \<le> length (r_bytes s1)"
      using "1.IH" [OF True c [symmetric]] "1.prems" True c
      by (auto simp: pipe_full.simps [of need acc] split: rd_out.splits if_splits)
    ultimately show ?thesis by auto
  qed
qed

lemma pipe_recv_left:
  assumes "pipe_recv \<lparr>r_bytes = [], r_script = chunks\<rparr> = (r, rs)"
  shows "r_bytes rs = []"
proof -
  obtain a s1 where 1: "pipe_full 76 [] \<lparr>r_bytes = [], r_script = chunks\<rparr> = (a, s1)" by fastforce
  have s1: "r_bytes s1 = []" using pipe_full_left [OF 1] by simp
  have "r_bytes (snd (pipe_full n [] s1)) = []" for n
    using pipe_full_left [of n "[]" s1] s1 by (cases "pipe_full n [] s1") simp
  with 1 s1 assms show ?thesis
    by (auto simp: pipe_recv_def Let_def split: prod.splits option.splits) (metis snd_conv)+
qed

definition piped :: "bool \<Rightarrow> fchild \<Rightarrow> bool" where
  "piped clean c \<longleftrightarrow> message_stream (cp_to c) \<and> message_stream (cp_from c) \<and>
     (clean \<longrightarrow> no_wr_err (cp_out c) \<and> message_stream (w_out (cp_out c)))"

definition flow :: "bool \<Rightarrow> fserver \<Rightarrow> bool" where
  "flow clean st \<longleftrightarrow> (\<forall>c\<in>set (fs_children st). piped clean c)"

lemma flow_upd:
  assumes "flow clean st" "\<And>c. i < length (fs_children st) \<Longrightarrow> c = fs_children st ! i \<Longrightarrow> piped clean c \<Longrightarrow> piped clean (f c)"
  shows "flow clean (upd_child i f st)"
proof (cases "i < length (fs_children st)")
  case True
  with assms have "piped clean (f (fs_children st ! i))" by (simp add: flow_def)
  with assms(1) show ?thesis
    using set_update_subset_insert [of "fs_children st" i] by (auto simp: flow_def)
next
  case False
  with assms(1) show ?thesis by (simp add: flow_def list_update_beyond)
qed

lemma flow_cong: "fs_children st' = fs_children st \<Longrightarrow> flow clean st' = flow clean st"
  by (simp add: flow_def)

lemma flow_simps [simp]:
  "flow clean (upd_fclient s f st) = flow clean st" "flow clean (fk_login_slot s u st) = flow clean st"
  "flow clean (fk_logout_slot s st) = flow clean st" "flow clean (reset_slot s st) = flow clean st"
  "flow clean (st\<lparr>fs_files := fs\<rparr>) = flow clean st" "flow clean (st\<lparr>fs_crashed := b\<rparr>) = flow clean st"
  by (auto simp: flow_def fk_login_slot_def fk_logout_slot_def reset_slot_def)

lemma flow_send: "flow clean st \<Longrightarrow> valid_message m \<Longrightarrow> flow clean (pipe_send s m st)"
  by (auto simp: pipe_send_def Let_def piped_def message_stream_snoc intro: flow_upd)

lemma flow_others: "flow clean st \<Longrightarrow> valid_message m \<Longrightarrow> flow clean (pipe_others s m st)"
  unfolding pipe_others_def by (rule fold_invariant_on) (auto intro: flow_send)

lemma flow_route:
  assumes "flow clean st" "valid_message m"
  shows "flow clean (route_message e s m st)"
proof -
  obtain n u p where sc: "sscanf_user_pass (payload m) = (n, u, p)" by (metis prod_cases3)
  show ?thesis
    by (cases "msg_type m") (simp_all add: route_message_def Let_def sc assms flow_send flow_others split: option.split)
qed

subsection \<open>Every step keeps both\<close>

lemma wf_upd_child:
  assumes "wf_fork st" "\<And>c. cp_slot (f c) = cp_slot c" "\<And>c. cp_pid (f c) = cp_pid c" "\<And>c. cp_reaped (f c) = cp_reaped c"
  shows "wf_fork (upd_child i f st)"
  by (rule wf_fork_same [OF assms(1)]) (simp_all add: assms(2-4) update_nth_field)

lemma wf_child_sock: "wf_fork st \<Longrightarrow> wf_fork (child_sock e i st)"
  by (auto simp: child_sock_def Let_def intro!: wf_upd_child split: prod.split option.split)

lemma wf_child_pipe: "wf_fork st \<Longrightarrow> wf_fork (child_pipe i chunks st)"
  by (auto simp: child_pipe_def Let_def intro!: wf_upd_child split: prod.split option.split)

lemma flow_child_sock:
  assumes "flow clean st"
  shows "flow clean (child_sock e i st)"
proof (cases "recv_message (cp_in (fs_children st ! i))")
  case (Pair r rs)
  show ?thesis
  proof (cases r)
    case None
    have "valid_message (new_message (e_now e) MSG_LOGOUT (fc_username (fs_clients st s)) [] [])" for s by simp
    with assms Pair None show ?thesis
      by (auto simp: child_sock_def Let_def piped_def message_stream_snoc intro!: flow_upd)
  next
    case (Some m)
    with recv_message_SomeD Pair have "valid_message m" by blast
    with assms Pair Some show ?thesis
      by (auto simp: child_sock_def Let_def piped_def message_stream_snoc intro!: flow_upd)
  qed
qed

text \<open>The child hands on the first message of its pipe.\<close>

lemma child_pipe_first:
  assumes "message_stream (cp_to (fs_children st ! i))" "cp_to (fs_children st ! i) \<noteq> []" "chunked chunks"
  obtains m rest where "valid_message m" "cp_to (fs_children st ! i) = pack_message m @ rest" "message_stream rest"
    "child_pipe i chunks st = upd_child i (\<lambda>c. c\<lparr>cp_out := snd (send_message (cp_out c) (pad_names m)), cp_to := rest\<rparr>) st"
proof -
  obtain m rest where m: "valid_message m" "cp_to (fs_children st ! i) = pack_message m @ rest" "message_stream rest"
    using message_stream_cases [OF assms(1,2)] by blast
  obtain rs where "pipe_recv \<lparr>r_bytes = cp_to (fs_children st ! i), r_script = chunks\<rparr> = (Some (pad_names m), rs)" "r_bytes rs = rest"
    using pipe_recv_packed [OF m(1) assms(3), of rest] m(2) by auto
  with m that [of m rest] show ?thesis by (simp add: child_pipe_def Let_def)
qed

lemma valid_pad: "valid_message m \<Longrightarrow> valid_message (pad_names m)"
  by (simp add: valid_pad_names)

lemma flow_child_pipe:
  assumes "flow clean st" "i < length (fs_children st)" "cp_to (fs_children st ! i) \<noteq> []" "chunked chunks"
  shows "flow clean (child_pipe i chunks st)"
proof -
  have "message_stream (cp_to (fs_children st ! i))" using assms(1,2) by (simp add: flow_def piped_def)
  from this assms(3,4) obtain m rest where m: "valid_message m"
    "cp_to (fs_children st ! i) = pack_message m @ rest" "message_stream rest"
    "child_pipe i chunks st = upd_child i (\<lambda>c. c\<lparr>cp_out := snd (send_message (cp_out c) (pad_names m)), cp_to := rest\<rparr>) st"
    by (rule child_pipe_first)
  show ?thesis unfolding m(4)
  proof (rule flow_upd [OF assms(1)])
    fix c assume "piped clean c"
    moreover have "no_wr_err (cp_out c) \<Longrightarrow> message_stream (w_out (cp_out c)) \<Longrightarrow>
        no_wr_err (snd (send_message (cp_out c) (pad_names m))) \<and> message_stream (w_out (snd (send_message (cp_out c) (pad_names m))))"
      using send_message_ok [of "cp_out c" "pad_names m"] message_stream_snoc [OF _ m(1), of "w_out (cp_out c)"] by auto
    ultimately show "piped clean (c\<lparr>cp_out := snd (send_message (cp_out c) (pad_names m)), cp_to := rest\<rparr>)"
      using m(3) by (simp add: piped_def)
  qed
qed

text \<open>Clearing a slot.\<close>

lemma wf_reset_child:
  assumes w: "wf_fork st" and s: "s < 10"
    and links: "\<And>j. j \<noteq> s \<Longrightarrow> fc_pid (fs_clients st j) \<noteq> 0 \<Longrightarrow> linked (reset_slot s st1) j"
    and cl: "fs_clients st1 = fs_clients st"
    and pids: "\<forall>i j. i < length (fs_children st1) \<longrightarrow> j < length (fs_children st1) \<longrightarrow> \<not> cp_reaped (fs_children st1 ! i) \<longrightarrow>
        \<not> cp_reaped (fs_children st1 ! j) \<longrightarrow> cp_pid (fs_children st1 ! i) = cp_pid (fs_children st1 ! j) \<longrightarrow> i = j"
  shows "wf_fork (reset_slot s st1)"
proof -
  have t: "wf_ftable st" and un: "fk_table.unique_names st" using w by (simp_all add: wf_fork_def)
  have "wf_fclient ((fs_clients st s)\<lparr>fc_username := zeros 32, fc_active := False, fc_pid := 0\<rparr>)"
    using wf_ftableD(1) [OF t, of s] by (simp add: wf_fclient_def)
  then have "wf_fclient (fs_clients (reset_slot s st1) i)" for i
    using wf_ftableD(1) [OF t, of i] cl by (simp add: reset_slot_def)
  moreover have "fc_pid (fs_clients (reset_slot s st1) j) \<noteq> 0 \<longrightarrow> linked (reset_slot s st1) j" for j
    using links [of j] cl by (cases "j = s") (simp_all add: reset_slot_def)
  moreover have "fs_children (reset_slot s st1) = fs_children st1" by (simp add: reset_slot_def)
  ultimately have "wf_ftable (reset_slot s st1)" using pids by (simp add: wf_ftable_def)
  moreover have "fk_names (reset_slot s st1) = (fk_names st)(s := None)"
    using cl by (simp add: fk_names_def reset_slot_def fun_eq_iff)
  then have "fk_table.unique_names (reset_slot s st1)"
    using un by (auto simp: fk_table.unique_names_def split: if_splits)
  ultimately show ?thesis by (simp add: wf_fork_def)
qed

lemma wf_reset_slot:
  assumes "wf_fork st" "s < 10"
  shows "wf_fork (reset_slot s st)"
proof (rule wf_reset_child [OF assms _ refl])
  have t: "wf_ftable st" using assms(1) by (simp add: wf_fork_def)
  show "linked (reset_slot s st) j" if "j \<noteq> s" "fc_pid (fs_clients st j) \<noteq> 0" for j
    using wf_ftableD(2) [OF t that(2)] that(1) by (simp add: linked_def reset_slot_def Let_def)
  show "\<forall>i j. i < length (fs_children st) \<longrightarrow> j < length (fs_children st) \<longrightarrow> \<not> cp_reaped (fs_children st ! i) \<longrightarrow>
        \<not> cp_reaped (fs_children st ! j) \<longrightarrow> cp_pid (fs_children st ! i) = cp_pid (fs_children st ! j) \<longrightarrow> i = j"
    using t by (simp add: wf_ftable_def)
qed

lemma parent_child:
  assumes "wf_fork st" "fc_pid (fs_clients st s) \<noteq> 0"
  shows "fc_pipe (fs_clients st s) < length (fs_children st)" "s < 10"
    "cp_slot (fs_children st ! fc_pipe (fs_clients st s)) = s"
    "cp_pid (fs_children st ! fc_pipe (fs_clients st s)) = fc_pid (fs_clients st s)"
    "\<not> cp_reaped (fs_children st ! fc_pipe (fs_clients st s))"
  using wf_ftableD(2) [of st s] assms by (simp_all add: wf_fork_def linked_def Let_def)

text \<open>What the parent does with the readable pipe of a slot.\<close>

lemma fk_parent_cases:
  assumes "flow clean st" "wf_fork st" "fc_pid (fs_clients st s) \<noteq> 0" "chunked chunks"
  defines "i \<equiv> fc_pipe (fs_clients st s)"
  shows "(cp_from (fs_children st ! i) = [] \<and> (\<exists>r. fk_parent e s chunks st = reset_slot s (upd_child i (\<lambda>c. c\<lparr>cp_from := r\<rparr>) st) \<and> r = [])) \<or>
    (\<exists>m rest. valid_message m \<and> cp_from (fs_children st ! i) = pack_message m @ rest \<and> message_stream rest \<and>
       fk_parent e s chunks st = route_message e s (pad_names m) (upd_child i (\<lambda>c. c\<lparr>cp_from := rest\<rparr>) st))"
proof (cases "cp_from (fs_children st ! i) = []")
  case True
  obtain rs where rs: "pipe_recv \<lparr>r_bytes = [], r_script = chunks\<rparr> = (None, rs)" using pipe_recv_Nil by blast
  have "r_bytes rs = []" using pipe_recv_left [OF rs] by simp
  with rs True show ?thesis by (simp add: fk_parent_def Let_def i_def)
next
  case False
  have "piped clean (fs_children st ! i)" using assms(1) parent_child(1) [OF assms(2,3)] by (simp add: flow_def i_def)
  then obtain m rest where m: "valid_message m" "cp_from (fs_children st ! i) = pack_message m @ rest" "message_stream rest"
    using message_stream_cases [OF _ False] by (auto simp: piped_def)
  obtain rs where "pipe_recv \<lparr>r_bytes = cp_from (fs_children st ! i), r_script = chunks\<rparr> = (Some (pad_names m), rs)" "r_bytes rs = rest"
    using pipe_recv_packed [OF m(1) assms(4), of rest] m(2) by auto
  with m show ?thesis by (simp add: fk_parent_def Let_def i_def) blast
qed

lemma wf_fk_parent:
  assumes "flow clean st" "wf_fork st" "fc_pid (fs_clients st s) \<noteq> 0" "chunked chunks"
  shows "wf_fork (fk_parent e s chunks st) \<and> flow clean (fk_parent e s chunks st)"
proof -
  let ?i = "fc_pipe (fs_clients st s)"
  have w: "wf_fork (upd_child ?i (\<lambda>c. c\<lparr>cp_from := r\<rparr>) st)" for r by (rule wf_upd_child [OF assms(2)]) simp_all
  have f: "message_stream r \<Longrightarrow> flow clean (upd_child ?i (\<lambda>c. c\<lparr>cp_from := r\<rparr>) st)" for r
    by (rule flow_upd [OF assms(1)]) (simp add: piped_def)
  have s: "s < 10" by (rule parent_child(2) [OF assms(2,3)])
  from fk_parent_cases [OF assms, of e] show ?thesis
    using wf_reset_slot [OF w s] f wf_route_message [OF w s] assms(3) flow_route [OF f _ ] valid_pad by auto
qed

lemma wf_sigchld:
  assumes "wf_fork st" "i < length (fs_children st)" "\<not> cp_reaped (fs_children st ! i)"
  shows "wf_fork (sigchld i st)"
proof -
  let ?st1 = "upd_child i (\<lambda>c. c\<lparr>cp_reaped := True\<rparr>) st" and ?pid = "cp_pid (fs_children st ! i)"
  have t: "wf_ftable st" using assms(1) by (simp add: wf_fork_def)
  have same: "fc_pipe (fs_clients st s) = i" if "fc_pid (fs_clients st s) \<noteq> 0" "fc_pid (fs_clients st s) = ?pid" for s
    using parent_child [OF assms(1) that(1)] that(2) assms(2,3) t unfolding wf_ftable_def by metis
  have other: "linked ?st1 s" if "fc_pid (fs_clients st s) \<noteq> 0" "fc_pipe (fs_clients st s) \<noteq> i" for s
    using wf_ftableD(2) [OF t that(1)] that(2) by (auto simp: linked_def Let_def nth_list_update)
  have pids: "\<forall>k j. k < length (fs_children ?st1) \<longrightarrow> j < length (fs_children ?st1) \<longrightarrow> \<not> cp_reaped (fs_children ?st1 ! k) \<longrightarrow>
        \<not> cp_reaped (fs_children ?st1 ! j) \<longrightarrow> cp_pid (fs_children ?st1 ! k) = cp_pid (fs_children ?st1 ! j) \<longrightarrow> k = j"
    using t assms(2) by (auto simp: wf_ftable_def nth_list_update split: if_splits)
  show ?thesis
  proof (cases "find_slot (\<lambda>c. fc_pid c = ?pid) (fclient_table st)")
    case None
    have "linked ?st1 s" if "fc_pid (fs_clients st s) \<noteq> 0" for s
    proof (rule other [OF that])
      have "fc_pid (fs_clients st s) \<noteq> ?pid"
        using find_slot_NoneD [OF None, of s] parent_child(2) [OF assms(1) that] by simp
      then show "fc_pipe (fs_clients st s) \<noteq> i" using parent_child(4) [OF assms(1) that] by auto
    qed
    then have "wf_ftable ?st1" using t pids by (simp add: wf_ftable_def)
    moreover have "fk_names ?st1 = fk_names st" by (rule fk_names_cong) simp
    ultimately show ?thesis using assms(1) None
      by (simp add: sigchld_def Let_def wf_fork_def fk_table.unique_names_def)
  next
    case (Some s)
    from find_slot_SomeD [OF this] have s: "s < 10" "fc_pid (fs_clients st s) = ?pid" by auto
    have "wf_fork (reset_slot s ?st1)"
    proof (rule wf_reset_child [OF assms(1) s(1) _ _ pids])
      fix j assume j: "j \<noteq> s" "fc_pid (fs_clients st j) \<noteq> 0"
      have "fc_pipe (fs_clients st j) \<noteq> i"
      proof
        assume "fc_pipe (fs_clients st j) = i"
        with parent_child(3,4) [OF assms(1) j(2)] have "cp_slot (fs_children st ! i) = j" "fc_pid (fs_clients st s) \<noteq> 0"
          using s(2) j(2) by auto
        moreover from same [OF this(2) s(2)] parent_child(3) [OF assms(1) this(2)] have "cp_slot (fs_children st ! i) = s" by simp
        ultimately show False using j(1) by simp
      qed
      from other [OF j(2) this] j(1) show "linked (reset_slot s ?st1) j" by (simp add: linked_def reset_slot_def Let_def)
    qed simp
    with Some show ?thesis by (simp add: sigchld_def Let_def)
  qed
qed

lemma fk_set_ip_simps [simp]:
  "fc_username (fk_set_ip ip c) = fc_username c" "fc_active (fk_set_ip ip c) = fc_active c"
  "fc_status (fk_set_ip ip c) = fc_status c" "fc_pid (fk_set_ip ip c) = fc_pid c" "fc_pipe (fk_set_ip ip c) = fc_pipe c"
  by (simp_all add: fk_set_ip_def)

text \<open>The count of descriptors is no part of the invariants.\<close>

lemma fds_irrelevant [simp]:
  "wf_fork (st\<lparr>fs_fds := n\<rparr>) = wf_fork st" "flow clean (st\<lparr>fs_fds := n\<rparr>) = flow clean st"
  by (simp_all add: wf_fork_def wf_ftable_def linked_def Let_def fk_table.unique_names_def fk_names_def flow_def cong: if_cong)

lemma wf_fk_accept:
  assumes "wf_fork st" "\<forall>pid. made = Child pid \<longrightarrow> fresh_pid pid st"
  shows "wf_fork (fst (fk_accept e ip made rs ws st))"
proof (cases "find_free_slot st")
  case None
  with assms(1) show ?thesis by (simp add: fk_accept_def)
next
  case (Some slot)
  from find_slot_SomeD [OF this [unfolded find_free_slot_def]]
  have s: "slot < 10" "\<not> fc_active (fs_clients st slot)" "fc_pid (fs_clients st slot) = 0" by auto
  have t: "wf_ftable st" and un: "fk_table.unique_names st" using assms(1) by (simp_all add: wf_fork_def)
  show ?thesis
  proof (cases made)
    case (PipeFails x1)
    with Some assms(1) show ?thesis by (simp add: fk_accept_def)
  next
    case ForkFails
    let ?st = "st\<lparr>fs_fds := fs_fds st + 4\<rparr>"
    have w: "wf_fork ?st" using assms(1) by simp
    have "wf_fork (upd_fclient slot (fk_set_ip ip) ?st)"
    proof (rule wf_fork_update [OF w])
      show "wf_fclient (fk_set_ip ip (fs_clients ?st slot))"
        using wf_ftableD(1) [OF t, of slot] by (simp add: wf_fclient_def)
      have "fk_names (upd_fclient slot (fk_set_ip ip) ?st) = fk_names st"
        by (simp add: fk_names_def fun_eq_iff)
      with un show "fk_table.unique_names (upd_fclient slot (fk_set_ip ip) ?st)"
        by (simp add: fk_table.unique_names_def)
    qed simp_all
    with Some ForkFails show ?thesis by (simp add: fk_accept_def)
  next
    case (Child pid)
    let ?st = "fst (fk_accept e ip made rs ws st)"
    let ?c = "(fk_set_ip ip (fs_clients st slot))\<lparr>fc_pid := pid, fc_pipe := length (fs_children st)\<rparr>"
    have pid: "fresh_pid pid st" using assms(2) Child by blast
    let ?k = "\<lparr>cp_slot = slot, cp_pid = pid, cp_in = rs, cp_out = ws, cp_to = [], cp_from = [], cp_alive = True, cp_reaped = False\<rparr>"
    have cl: "fs_clients ?st = (fs_clients st)(slot := ?c)" "fs_children ?st = fs_children st @ [?k]"
      using Some Child by (simp_all add: fk_accept_def)
    have "wf_fclient (fs_clients ?st i)" for i
      using wf_ftableD(1) [OF t, of i] s(2) cl(1) by (auto simp: wf_fclient_def)
    moreover have "linked ?st i" if "fc_pid (fs_clients ?st i) \<noteq> 0" for i
    proof (cases "i = slot")
      case True
      then show ?thesis using s(1) by (simp add: linked_def Let_def cl)
    next
      case other: False
      then have "fc_pid (fs_clients st i) \<noteq> 0" using that by (simp add: cl)
      from wf_ftableD(2) [OF t this] other show ?thesis by (simp add: linked_def Let_def cl nth_append)
    qed
    moreover have "i = j" if "i < length (fs_children ?st)" "j < length (fs_children ?st)" "\<not> cp_reaped (fs_children ?st ! i)"
      "\<not> cp_reaped (fs_children ?st ! j)" "cp_pid (fs_children ?st ! i) = cp_pid (fs_children ?st ! j)" for i j
    proof -
      have old: "cp_pid (fs_children st ! k) \<noteq> pid" if "k < length (fs_children st)" "\<not> cp_reaped (fs_children st ! k)" for k
        using pid that by (simp add: fresh_pid_def)
      show ?thesis
      proof (cases "i < length (fs_children st)"; cases "j < length (fs_children st)")
        assume "i < length (fs_children st)" "j < length (fs_children st)"
        with that t show ?thesis unfolding wf_ftable_def by (simp add: cl nth_append)
      qed (use that old [of i] old [of j] in \<open>auto simp: cl nth_append\<close>)
    qed
    ultimately have "wf_ftable ?st" by (simp add: wf_ftable_def)
    moreover have "fk_names ?st = fk_names st" by (simp add: cl fk_names_def fun_eq_iff)
    ultimately show ?thesis using un by (simp add: wf_fork_def fk_table.unique_names_def)
  qed
qed

lemma flow_fk_accept:
  assumes "flow clean st" "w_out ws = []" "clean \<longrightarrow> no_wr_err ws"
  shows "flow clean (fst (fk_accept e ip made rs ws st))"
proof -
  have "piped clean \<lparr>cp_slot = slot, cp_pid = pid, cp_in = rs, cp_out = ws, cp_to = [], cp_from = [], cp_alive = True, cp_reaped = False\<rparr>" for slot pid
    using assms(2,3) by (simp add: piped_def)
  with assms(1) show ?thesis by (simp add: fk_accept_def flow_def split: option.split fork_result.split)
qed

lemma flow_sigchld:
  assumes "flow clean st"
  shows "flow clean (sigchld i st)"
proof -
  have "flow clean (upd_child i (\<lambda>c. c\<lparr>cp_reaped := True\<rparr>) st)"
    by (rule flow_upd [OF assms]) (simp add: piped_def)
  then show ?thesis by (simp add: sigchld_def Let_def split: option.split)
qed

lemma fk_reachable_inv: "fk_reachable clean st \<Longrightarrow> wf_fork st \<and> flow clean st"
proof (induction rule: fk_reachable.induct)
  case (fk_reach_start fs)
  have "fk_names (fk_start fs) = (\<lambda>_. None)" by (simp add: fk_names_def fk_start_def zero_fclient_def fun_eq_iff)
  then show ?case
    by (simp add: wf_fork_def fk_table.unique_names_def wf_ftable_def flow_def)
      (simp add: fk_start_def wf_fclient_def zero_fclient_def)
next
  case (fk_reach_step st st')
  then have i: "wf_fork st" "flow clean st" by simp_all
  from fk_reach_step(2) show ?case
  proof cases
    case (fk_step_accept made ws e ip rs)
    with i show ?thesis by (simp add: wf_fk_accept flow_fk_accept)
  next
    case (fk_step_sock i e)
    with i show ?thesis by (simp add: wf_child_sock flow_child_sock)
  next
    case (fk_step_pipe i chunks)
    with i show ?thesis by (simp add: wf_child_pipe flow_child_pipe)
  next
    case (fk_step_parent s chunks e)
    with wf_fk_parent [OF i(2,1)] show ?thesis by simp
  next
    case (fk_step_sigchld i)
    with i show ?thesis by (simp add: wf_sigchld flow_sigchld)
  qed
qed

end
