(* ===== verification/Fork_Refines.thy ===== *)
theory Fork_Refines
  imports Fork_Invariant Chat_Spec
begin

text \<open>
  The fork server and the abstract chat server of \<open>Chat_Spec\<close>: the abstraction
  \<open>fk_chat\<close>, the interpretations \<open>fk_sink\<close> of \<open>message_sink\<close>
  and \<open>fk_server\<close> of \<open>chat_server\<close>, the way of a message from the socket
  of a child to the router (\<open>fk_serve\<close>) and of what is queued for a client to its
  socket (\<open>fk_drain\<close>).
\<close>

subsection \<open>The abstraction\<close>

definition fk_users :: "fserver \<Rightarrow> nat \<Rightarrow> (char list \<times> nat) option" where
  "fk_users st i = (if fc_active (fs_clients st i)
     then Some (cstr (fc_username (fs_clients st i)), fc_status (fs_clients st i)) else None)"

text \<open>What has been written for the client of a slot: what its child has sent it, and
  what still is in the pipe to the child.\<close>

definition fk_stream :: "fserver \<Rightarrow> nat \<Rightarrow> char list" where
  "fk_stream st i =
     (if fc_pid (fs_clients st i) = 0 then []
      else let c = fs_children st ! fc_pipe (fs_clients st i) in w_out (cp_out c) @ cp_to c)"

definition fk_chat :: "fserver \<Rightarrow> chat" where
  "fk_chat st = \<lparr>ch_users = fk_users st, ch_stream = fk_stream st, ch_files = fs_files st, ch_crashed = fs_crashed st\<rparr>"

definition fk_ready :: "nat \<Rightarrow> fserver \<Rightarrow> nat \<Rightarrow> bool" where
  "fk_ready n st i \<longleftrightarrow>
     (let k = fc_pipe (fs_clients st i)
      in fc_pid (fs_clients st i) \<noteq> 0 \<and> k < length (fs_children st) \<and> cp_alive (fs_children st ! k) \<and>
         (\<forall>j. j \<noteq> i \<longrightarrow> fc_pid (fs_clients st j) \<noteq> 0 \<longrightarrow> fc_pipe (fs_clients st j) \<noteq> k))"

definition fk_set_status :: "nat \<Rightarrow> nat \<Rightarrow> fserver \<Rightarrow> fserver" where
  "fk_set_status s n = upd_fclient s (\<lambda>c. c\<lparr>fc_status := n\<rparr>)"

definition fk_online :: "fserver \<Rightarrow> nat \<Rightarrow> bool" where
  "fk_online st i = fc_active (fs_clients st i)"

lemma fk_chat_simps [simp]:
  "ch_users (fk_chat st) = fk_users st" "ch_stream (fk_chat st) = fk_stream st"
  "ch_files (fk_chat st) = fs_files st" "ch_crashed (fk_chat st) = fs_crashed st"
  "ch_online (fk_chat st) = fk_online st"
  by (auto simp: fk_chat_def ch_online_def fk_users_def fk_online_def fun_eq_iff)

lemma fk_send_chat:
  assumes "fk_ready n st i"
  shows "fk_chat (pipe_send i m st) = ch_send i m (fk_chat st)"
proof -
  have "fk_stream (pipe_send i m st) = (fk_stream st)(i := fk_stream st i @ pack_message m)"
    using assms by (auto simp: fk_stream_def pipe_send_def fk_ready_def Let_def fun_eq_iff nth_list_update)
  moreover have "fk_users (pipe_send i m st) = fk_users st" by (simp add: fk_users_def fun_eq_iff)
  ultimately show ?thesis by (intro chat.equality) (simp_all add: ch_send_def)
qed

lemma fk_send_stream: "fk_ready n st i \<Longrightarrow>
  fk_stream (pipe_send i m st) j = fk_stream st j @ (if j = i then pack_message m else [])"
  using arg_cong [OF fk_send_chat, of n st i ch_stream m] by (simp add: ch_send_def)

lemma fk_send_ready: "fk_ready k st i \<Longrightarrow> fk_ready n st j \<Longrightarrow> fk_ready n' (pipe_send i m st) j"
  by (auto simp: fk_ready_def pipe_send_def Let_def nth_list_update)

interpretation fk_sink: message_sink pipe_send fk_stream fk_ready fk_online
  by unfold_locales (simp_all add: fk_send_stream fk_send_ready fk_online_def, simp add: fk_ready_def)

lemma fk_find_user_abs:
  assumes "wf_fork st"
  shows "find_slot_by_username st u = ch_find (fk_chat st) u"
proof -
  have t: "wf_ftable st" using assms by (simp add: wf_fork_def)
  show ?thesis
    unfolding find_slot_by_username_def ch_find_def fclient_table_def find_slot_map
    by (rule find_slot_cong) (simp add: fk_users_def strneq_short [OF wf_ftableD(3) [OF t]])
qed

lemma fk_login_chat:
  assumes "wf_fork st" "user_ok u"
  shows "fk_chat (fk_login_slot s u st) = ch_set_user s (Some (u, status_code STATUS_AVAILABLE)) (fk_chat st)"
proof -
  have t: "wf_ftable st" using assms(1) by (simp add: wf_fork_def)
  have "fk_users (fk_login_slot s u st) = (fk_users st)(s \<mapsto> (u, 0))"
    using fk_login_client [OF t, of s u] assms(2)
    by (auto simp: fk_users_def fk_login_slot_def user_ok_def fun_eq_iff)
  moreover have "fk_stream (fk_login_slot s u st) = fk_stream st"
    by (simp add: fk_stream_def fk_login_slot_def fun_eq_iff)
  ultimately show ?thesis by (intro chat.equality) (simp_all add: ch_set_user_def fk_login_slot_def)
qed

lemma fk_logout_chat: "fk_chat (fk_logout_slot s st) = ch_set_user s None (fk_chat st)"
proof -
  have "fk_users (fk_logout_slot s st) = (fk_users st)(s := None)" "fk_stream (fk_logout_slot s st) = fk_stream st"
    by (simp_all add: fk_users_def fk_stream_def fk_logout_slot_def fun_eq_iff)
  then show ?thesis by (intro chat.equality) (simp_all add: ch_set_user_def fk_logout_slot_def)
qed

lemma fk_status_chat:
  "fk_chat (fk_set_status s n st) = ch_set_user s (map_option (\<lambda>(u, k). (u, n)) (fk_users st s)) (fk_chat st)"
proof -
  have "fk_users (fk_set_status s n st) = (fk_users st)(s := map_option (\<lambda>(u, k). (u, n)) (fk_users st s))"
    "fk_stream (fk_set_status s n st) = fk_stream st"
    by (auto simp: fk_users_def fk_stream_def fk_set_status_def fun_eq_iff)
  then show ?thesis by (intro chat.equality) (simp_all add: ch_set_user_def fk_set_status_def)
qed

lemma fk_put_chat:
  "fk_chat (st\<lparr>fs_files := fs\<rparr>) = (fk_chat st)\<lparr>ch_files := fs\<rparr>"
  "fk_chat (st\<lparr>fs_crashed := b\<rparr>) = (fk_chat st)\<lparr>ch_crashed := b\<rparr>"
  by (simp_all add: fk_chat_def) (simp_all add: fk_users_def fk_stream_def fun_eq_iff)

lemma fk_list_chat:
  assumes "wf_fork st"
  shows "user_list (fk_sessions st) = ch_list (fk_chat st)"
proof -
  let ?g = "\<lambda>i. (fc_active (fs_clients st i), fc_username (fs_clients st i), fc_status (fs_clients st i))"
  have t: "wf_ftable st" using assms by (simp add: wf_fork_def)
  have s: "fk_sessions st = map ?g [0..<10]" by (simp add: fk_sessions_def fclient_table_def)
  have "wf_session (?g i)" for i
    using wf_ftableD(1,3) [OF t, of i] by (simp add: wf_session_def wf_fclient_def)
  then have "list_all wf_session (map ?g [0..<10])" by (simp add: list_all_iff)
  moreover have "cstr (fc_username (fs_clients st i)) \<noteq> []" if "fc_active (fs_clients st i)" for i
    using wf_ftableD(1) [OF t, of i] that by (auto simp: wf_fclient_def user_ok_def)
  ultimately show ?thesis
    using user_list_users [of ?g "[0..<10]" "fk_users st"] s by (simp add: ch_list_def fk_users_def)
qed

lemma fk_ready_upd:
  assumes "\<And>c. fc_pid (f c) = fc_pid c" "\<And>c. fc_pipe (f c) = fc_pipe c"
  shows "fk_ready n (upd_fclient s f st) = fk_ready n st"
proof -
  have "fc_pid (fs_clients (upd_fclient s f st) j) = fc_pid (fs_clients st j)"
    "fc_pipe (fs_clients (upd_fclient s f st) j) = fc_pipe (fs_clients st j)" for j
    using assms by simp_all
  then show ?thesis unfolding fk_ready_def Let_def by (intro ext) (simp only: upd_fclient_simps(2-4))
qed

lemma fk_ready_ops [simp]:
  "fk_ready n (fk_login_slot s u st) = fk_ready n st" "fk_ready n (fk_logout_slot s st) = fk_ready n st"
  "fk_ready n (fk_set_status s k st) = fk_ready n st" "fk_ready n (st\<lparr>fs_files := fs\<rparr>) = fk_ready n st"
  unfolding fk_login_slot_def fk_logout_slot_def fk_set_status_def
  by (simp_all add: fk_ready_upd) (simp add: fk_ready_def fun_eq_iff)

interpretation fk_server: chat_server fk_chat wf_fork fk_ready pipe_send find_slot_by_username fk_login_slot fk_logout_slot
  "\<lambda>e s st. st" fk_set_status "\<lambda>fs st. st\<lparr>fs_files := fs\<rparr>" "\<lambda>st. st\<lparr>fs_crashed := True\<rparr>"
  "\<lambda>st s. cstr (fc_username (fs_clients st s))" fk_sessions True False
proof (unfold_locales, goal_cases)
  case (1 n st i m)
  then show ?case by (rule fk_send_chat)
next
  case (2 k st i j n m)
  then show ?case by (rule fk_send_ready)
next
  case (3 n st i k)
  then show ?case by (simp add: fk_ready_def)
next
  case (4 i m st)
  then show ?case by (simp add: fk_users_def fun_eq_iff)
next
  case (5 st u)
  then show ?case by (rule fk_find_user_abs)
next
  case (16 st s)
  then show ?case using wf_ftableD(1) [of st s] by (simp add: ch_name_def fk_users_def wf_fork_def wf_fclient_def)
next
  case (17 st)
  then show ?case by (rule fk_list_chat)
qed (simp_all add: fk_login_chat fk_logout_chat fk_status_chat fk_put_chat ch_close_def)

lemma pipe_others_sink: "pipe_others s m st = fk_sink.to_others s m [0..<10] st"
  by (simp add: pipe_others_def fk_sink.to_others_def fk_online_def)

lemma route_message_route: "route_message e s m st = fk_server.route_with e s m st"
proof -
  obtain n u p where "sscanf_user_pass (payload m) = (n, u, p)" by (metis prod_cases3)
  then show ?thesis
    by (cases "msg_type m") (simp_all add: route_message_def fk_server.route_with_def Let_def
      pipe_others_sink fk_set_status_def flip: fk_online_def cong: option.case_cong)
qed

lemma fk_route_chat:
  assumes "wf_fork st" "s < 10" "fk_ready 2 st s" "\<forall>j<10. fk_online st j \<longrightarrow> fk_ready 2 st j"
  shows "fk_chat (route_message e s m st) = spec_message True False e s m (fk_chat st)"
  using fk_server.route_refines [OF assms(1,2), of e m] assms(3,4)
  by (simp add: route_message_route fk_server.all_ready_def)

subsection \<open>From the socket of the child to the parent\<close>

text \<open>Steps of a child that leave the abstract state as it is.\<close>

lemma fk_chat_upd_child:
  assumes "\<And>c. w_out (cp_out (f c)) @ cp_to (f c) = w_out (cp_out c) @ cp_to c"
  shows "fk_chat (upd_child i f st) = fk_chat st"
proof -
  have "fk_users (upd_child i f st) = fk_users st" by (simp add: fk_users_def fun_eq_iff)
  moreover have "fk_stream (upd_child i f st) = fk_stream st"
    using update_nth_field [of "\<lambda>c. w_out (cp_out c) @ cp_to c" f] assms
    by (simp add: fk_stream_def Let_def fun_eq_iff)
  ultimately show ?thesis by (intro chat.equality) simp_all
qed

lemma fk_ready_upd_child:
  assumes "\<And>c. cp_alive (f c) = cp_alive c"
  shows "fk_ready n (upd_child i f st) = fk_ready n st"
  using update_nth_field [of cp_alive f] assms by (simp add: fk_ready_def Let_def fun_eq_iff)

lemma child_sock_message:
  assumes "wf_message m" "r_bytes (cp_in (fs_children st ! i)) = pack_message m @ later" "no_rd_err (cp_in (fs_children st ! i))"
  obtains rs where "r_bytes rs = later" "no_rd_err rs"
    "child_sock e i st = upd_child i (\<lambda>c. c\<lparr>cp_in := rs, cp_from := cp_from c @ pack_message m\<rparr>) st"
proof -
  obtain rs where "recv_message (cp_in (fs_children st ! i)) = (Some m, rs)" "r_bytes rs = later" "no_rd_err rs"
    using recv_packed [of m _ later] assms by auto
  with that [of rs] show ?thesis by (simp add: child_sock_def Let_def)
qed

text \<open>One message of a client: received by its child, handed to the parent, routed.\<close>

lemma fk_serve:
  assumes "wf_fork st" "\<not> fs_crashed st" "fc_pid (fs_clients st s) \<noteq> 0" "chunked chunks"
    and "fk_ready 2 st s" "\<forall>j<10. fk_online st j \<longrightarrow> fk_ready 2 st j"
    and i: "i = fc_pipe (fs_clients st s)"
    and "cp_from (fs_children st ! i) = []" "wf_message m"
    and "r_bytes (cp_in (fs_children st ! i)) = pack_message m @ later" "no_rd_err (cp_in (fs_children st ! i))"
  shows "fk_step clean st (child_sock e i st) \<and> fk_step clean (child_sock e i st) (fk_parent e s chunks (child_sock e i st)) \<and>
    fk_chat (fk_parent e s chunks (child_sock e i st)) = spec_message True False e s m (fk_chat st)"
proof -
  note pc = parent_child [OF assms(1,3), folded i]
  have alive: "cp_alive (fs_children st ! i)" using assms(5) by (simp add: fk_ready_def Let_def i)
  obtain rs where cs: "child_sock e i st = upd_child i (\<lambda>c. c\<lparr>cp_in := rs, cp_from := cp_from c @ pack_message m\<rparr>) st"
    using child_sock_message [OF assms(9-11)] by metis
  let ?st1 = "child_sock e i st"
  have 1: "fs_clients ?st1 = fs_clients st" "fs_crashed ?st1 = fs_crashed st" "cp_from (fs_children ?st1 ! i) = pack_message m"
    "cp_alive (fs_children ?st1 ! i)"
    using pc(1) assms(8) alive by (simp_all add: cs)
  obtain rs2 where "pipe_recv \<lparr>r_bytes = pack_message m, r_script = chunks\<rparr> = (Some m, rs2)" "r_bytes rs2 = []"
    using pipe_recv_packed [of m chunks "[]"] assms(4,9) by auto
  then have par: "fk_parent e s chunks ?st1 = route_message e s m (upd_child i (\<lambda>c. c\<lparr>cp_from := []\<rparr>) ?st1)"
    using 1 i by (simp add: fk_parent_def Let_def)
  let ?st2 = "upd_child i (\<lambda>c. c\<lparr>cp_from := []\<rparr>) ?st1"
  have chat: "fk_chat ?st2 = fk_chat st" by (simp add: cs fk_chat_upd_child)
  have ready: "fk_ready n ?st2 = fk_ready n st" for n by (simp add: cs fk_ready_upd_child)
  have w2: "wf_fork ?st2" by (rule wf_upd_child [OF wf_child_sock [OF assms(1)]]) simp_all
  have "fk_online ?st2 = fk_online st" by (simp add: fk_online_def 1 fun_eq_iff)
  then have "fk_chat (route_message e s m ?st2) = spec_message True False e s m (fk_chat st)"
    using fk_route_chat [OF w2 pc(2)] assms(5,6) chat ready by simp
  moreover have "fk_step clean st ?st1" using fk_step_sock [OF assms(2) pc(1) alive] by blast
  moreover have "fk_step clean ?st1 (fk_parent e s chunks ?st1)"
    using 1 assms(2,3,4) pc(2) i by (intro fk_step_parent) simp_all
  ultimately show ?thesis by (simp add: par)
qed

text \<open>The child sends what is in its pipe, message by message, until it is empty.\<close>

lemma fk_drain:
  assumes "flow True st" "\<not> fs_crashed st" "i < length (fs_children st)" "cp_alive (fs_children st ! i)"
  shows "\<exists>st'. (fk_step True)\<^sup>*\<^sup>* st st' \<and> fk_chat st' = fk_chat st \<and> cp_to (fs_children st' ! i) = [] \<and>
    w_out (cp_out (fs_children st' ! i)) = w_out (cp_out (fs_children st ! i)) @ cp_to (fs_children st ! i)"
  using assms
proof (induction "length (cp_to (fs_children st ! i))" arbitrary: st rule: less_induct)
  case less
  let ?c = "fs_children st ! i"
  show ?case
  proof (cases "cp_to ?c = []")
    case True
    then show ?thesis by (intro exI [of _ st]) simp
  next
    case False
    have p: "message_stream (cp_to ?c)" "no_wr_err (cp_out ?c)" using less.prems by (simp_all add: flow_def piped_def)
    have ch: "chunked []" by (simp add: chunked_def)
    from p(1) False ch obtain m rest where m: "valid_message m" "cp_to ?c = pack_message m @ rest" "message_stream rest"
      "child_pipe i [] st = upd_child i (\<lambda>c. c\<lparr>cp_out := snd (send_message (cp_out c) (pad_names m)), cp_to := rest\<rparr>) st"
      by (rule child_pipe_first)
    let ?st = "child_pipe i [] st"
    obtain w where w: "send_message (cp_out ?c) (pad_names m) = (True, w)" "w_out w = w_out (cp_out ?c) @ pack_message m"
      using send_message_ok [OF p(2), of "pad_names m"] by auto
    have 1: "fs_children ?st = (fs_children st)[i := ?c\<lparr>cp_out := w, cp_to := rest\<rparr>]" "fs_crashed ?st = fs_crashed st"
      "fs_clients ?st = fs_clients st"
      using w by (simp_all add: m(4))
    have "fk_users ?st = fk_users st" by (simp add: fk_users_def m(4) fun_eq_iff)
    moreover have "fk_stream ?st = fk_stream st"
      using less.prems(3) w m(2) by (auto simp: fk_stream_def Let_def fun_eq_iff 1 nth_list_update)
    ultimately have chat: "fk_chat ?st = fk_chat st" by (intro chat.equality) (simp_all add: m(4))
    have "length (cp_to (fs_children ?st ! i)) < length (cp_to ?c)" using less.prems(3) m(2) by (simp add: 1)
    from less.hyps [OF this flow_child_pipe [OF less.prems(1,3) False ch]] less.prems 1
    obtain st' where st': "(fk_step True)\<^sup>*\<^sup>* ?st st'" "fk_chat st' = fk_chat ?st" "cp_to (fs_children st' ! i) = []"
      "w_out (cp_out (fs_children st' ! i)) = w_out w @ rest" by auto
    have "fk_step True st ?st" by (rule fk_step_pipe [OF less.prems(2-4) False ch])
    with st' chat w m(2) show ?thesis by (intro exI [of _ st']) (simp add: converse_rtranclp_into_rtranclp)
  qed
qed

end
