(* ===== verification/Fork_Properties.thy ===== *)
theory Fork_Properties
  imports Fork_Refines Epoll_Effects
begin

text \<open>
  The properties of the fork server, \<open>src/chat_server_fork.c\<close>: what one message
  does, what holds in every reachable state of parent and children, and what depends on the
  order in which the end of a child is noticed.
\<close>

subsection \<open>A concrete server for the witnesses\<close>

text \<open>Two connections, with the messages \<open>ms\<close> and \<open>ks\<close> to come.\<close>

definition fk_demo :: "Message list \<Rightarrow> Message list \<Rightarrow> fserver" where
  "fk_demo ms ks =
     fst (fk_accept demo_env ''10.0.0.2'' (Child 8) \<lparr>r_bytes = concat (map pack_message ks), r_script = []\<rparr> \<lparr>w_out = [], w_script = []\<rparr>
       (fst (fk_accept demo_env ''10.0.0.1'' (Child 7) \<lparr>r_bytes = concat (map pack_message ms), r_script = []\<rparr> \<lparr>w_out = [], w_script = []\<rparr>
         (fk_start (\<lambda>_. None)))))"

lemma fk_demo_eq:
  "fs_children (fk_demo ms ks) =
     [\<lparr>cp_slot = 0, cp_pid = 7, cp_in = \<lparr>r_bytes = concat (map pack_message ms), r_script = []\<rparr>, cp_out = \<lparr>w_out = [], w_script = []\<rparr>,
       cp_to = [], cp_from = [], cp_alive = True, cp_reaped = False\<rparr>,
      \<lparr>cp_slot = 1, cp_pid = 8, cp_in = \<lparr>r_bytes = concat (map pack_message ks), r_script = []\<rparr>, cp_out = \<lparr>w_out = [], w_script = []\<rparr>,
       cp_to = [], cp_from = [], cp_alive = True, cp_reaped = False\<rparr>]"
  "fs_crashed (fk_demo ms ks) = False"
  "fc_active (fs_clients (fk_demo ms ks) j) = False"
  "fc_pid (fs_clients (fk_demo ms ks) j) = (if j = 0 then 7 else if j = 1 then 8 else 0)"
  "fc_pipe (fs_clients (fk_demo ms ks) j) = (if j = 1 then 1 else 0)"
  by (simp_all add: fk_demo_def fk_accept_def find_free_slot_def fclient_table_def fk_start_def zero_fclient_def upt_rec)

lemma reachable_fk_demo: "fk_reachable True (fk_demo ms ks)"
proof -
  let ?st = "fst (fk_accept demo_env ''10.0.0.1'' (Child 7) \<lparr>r_bytes = concat (map pack_message ms), r_script = []\<rparr> \<lparr>w_out = [], w_script = []\<rparr>
         (fk_start (\<lambda>_. None)))"
  have 1: "fk_reachable True ?st"
    by (rule fk_reach_step [OF fk_reach_start fk_step_accept]) (simp_all add: fk_start_def fresh_pid_def no_wr_err_def)
  have c: "\<forall>c\<in>set (fs_children ?st). cp_pid c \<noteq> 8" "\<not> fs_crashed ?st"
    by (simp_all add: fk_accept_def find_free_slot_def fclient_table_def fk_start_def zero_fclient_def upt_rec)
  show ?thesis
    unfolding fk_demo_def by (rule fk_reach_step [OF 1 fk_step_accept]) (use c in \<open>simp_all add: fresh_pid_def no_wr_err_def\<close>)
qed

lemma fk_demo_ready: "j < 2 \<Longrightarrow> fk_ready n (fk_demo ms ks) j" "\<not> fk_online (fk_demo ms ks) j"
  by (auto simp: fk_ready_def Let_def fk_demo_eq fk_online_def less_2_cases_iff)

subsection \<open>The properties\<close>

lemma child_of_pid:
  assumes "wf_fork st" "i < length (fs_children st)" "j < length (fs_children st)" "\<not> cp_reaped (fs_children st ! i)"
    "\<not> cp_reaped (fs_children st ! j)" "cp_pid (fs_children st ! i) = cp_pid (fs_children st ! j)"
  shows "i = j"
proof -
  have "\<forall>i j. i < length (fs_children st) \<longrightarrow> j < length (fs_children st) \<longrightarrow> \<not> cp_reaped (fs_children st ! i) \<longrightarrow>
        \<not> cp_reaped (fs_children st ! j) \<longrightarrow> cp_pid (fs_children st ! i) = cp_pid (fs_children st ! j) \<longrightarrow> i = j"
    using assms(1) unfolding wf_fork_def wf_ftable_def by (elim conjE)
  from this [rule_format, OF assms(2-6)] show ?thesis .
qed

lemma slot_of_pid:
  assumes "wf_fork st" "fc_pid (fs_clients st i) \<noteq> 0" "fc_pid (fs_clients st j) \<noteq> 0"
    and "fc_pid (fs_clients st i) = fc_pid (fs_clients st j)"
  shows "i = j"
proof -
  let ?p = "\<lambda>k. fc_pipe (fs_clients st k)"
  note pi = parent_child [OF assms(1,2)] and pj = parent_child [OF assms(1,3)]
  have "cp_pid (fs_children st ! ?p i) = cp_pid (fs_children st ! ?p j)" using pi(4) pj(4) assms(4) by (simp only:)
  then have eq: "?p i = ?p j" by (rule child_of_pid [OF assms(1) pi(1) pj(1) pi(5) pj(5)])
  have "i = cp_slot (fs_children st ! ?p i)" by (rule pi(3) [symmetric])
  also have "\<dots> = cp_slot (fs_children st ! ?p j)" by (simp only: eq)
  also have "\<dots> = j" by (rule pj(3))
  finally show ?thesis .
qed

lemma reset_stream: "fk_stream (reset_slot s st) = (fk_stream st)(s := [])"
  by (simp add: fk_stream_def reset_slot_def fun_eq_iff)

text \<open>C3: The fork server implements the abstract chat server: a message a client has sent
  is taken over by its child, handed to the parent through the pipe and routed, two steps of
  the system after which users, streams, history files and crashes are what
  \<open>spec_message\<close> gives, on every message type and branch. A connection may log in again
  under its own name, and \<open>MSG_LOGOUT\<close> keeps the connection.\<close>
theorem fork_refines_chat:
  assumes "fk_reachable clean st" "\<not> fs_crashed st" "fc_pid (fs_clients st s) \<noteq> 0" "chunked chunks"
    and "fk_ready 2 st s" "\<forall>j<10. fk_online st j \<longrightarrow> fk_ready 2 st j"
    and "i = fc_pipe (fs_clients st s)" "cp_from (fs_children st ! i) = []" "wf_message m"
    and "r_bytes (cp_in (fs_children st ! i)) = pack_message m @ later" "no_rd_err (cp_in (fs_children st ! i))"
  shows "fk_step clean st (child_sock e i st) \<and> fk_step clean (child_sock e i st) (fk_parent e s chunks (child_sock e i st)) \<and>
    fk_chat (fk_parent e s chunks (child_sock e i st)) = spec_message True False e s m (fk_chat st)"
  using fk_serve [OF _ assms(2-11)] fk_reachable_inv [OF assms(1)] by blast

theorem fork_refines_chat_witness:
  "fk_stream (fk_parent demo_env 0 [] (child_sock demo_env 0 (fk_demo [new_message 9 MSG_LIST_USERS [] [] []] []))) 0
   = pack_message (server_reply demo_env MSG_USER_LIST (sender (new_message 9 MSG_LIST_USERS [] [] [])) [])"
proof -
  let ?m = "new_message 9 MSG_LIST_USERS [] [] []"
  let ?st = "fk_demo [?m] []"
  have "fk_chat (fk_parent demo_env 0 [] (child_sock demo_env 0 ?st)) = spec_message True False demo_env 0 ?m (fk_chat ?st)"
    using fork_refines_chat [OF reachable_fk_demo, of "[?m]" "[]" 0 "[]" 0 ?m "[]" demo_env] fk_demo_ready
    by (simp add: fk_demo_eq chunked_def no_rd_err_def)
  from arg_cong [OF this, of ch_stream] show ?thesis
    by (simp add: spec_message_def ch_send_def ch_list_def fk_users_def fk_stream_def fk_demo_eq List.map_filter_def)
qed


text \<open>C21: What is queued for a client is delivered: in every reachable state without write
  errors, whatever the parent has put into the pipe of a running child, the child's own steps
  move all of it to the client's socket, in order and unchanged, and leave everything else
  as it is.\<close>
theorem fork_delivers_queued:
  assumes "fk_reachable True st" "\<not> fs_crashed st" "i < length (fs_children st)" "cp_alive (fs_children st ! i)"
  shows "\<exists>st'. (fk_step True)\<^sup>*\<^sup>* st st' \<and> fk_chat st' = fk_chat st \<and> cp_to (fs_children st' ! i) = [] \<and>
    w_out (cp_out (fs_children st' ! i)) = w_out (cp_out (fs_children st ! i)) @ cp_to (fs_children st ! i)"
  using fk_drain [OF _ assms(2-4)] fk_reachable_inv [OF assms(1)] by blast

text \<open>C22: The pipes carry whole messages: in every reachable state \<open>pipe_recv\<close> on a
  pipe with data, in either direction and for every size of the reads, succeeds with a
  well-formed message, and the length field it trusts never exceeds its buffer.\<close>
theorem fork_pipes_whole:
  assumes "fk_reachable clean st" "c \<in> set (fs_children st)" "bs = cp_to c \<or> bs = cp_from c" "bs \<noteq> []" "chunked chunks"
  shows "\<exists>m rs. pipe_recv \<lparr>r_bytes = bs, r_script = chunks\<rparr> = (Some m, rs) \<and> valid_message m \<and>
    76 \<le> length bs \<and> unat (read_u16_be (bs ! 74) (bs ! 75)) \<le> MAX_PAYLOAD_LEN \<and> message_stream (r_bytes rs)"
proof -
  have "message_stream bs" using fk_reachable_inv [OF assms(1)] assms(2,3) by (auto simp: flow_def piped_def)
  then obtain m rest where m: "valid_message m" "bs = pack_message m @ rest" "message_stream rest"
    using message_stream_cases [OF _ assms(4)] by blast
  have len: "unat (payload_len m) \<le> 1024" using m(1) by (simp add: valid_message_def)
  have "76 \<le> length (pack_message m)" using length_pack_valid [OF len] m(1) by (simp add: valid_message_def)
  moreover have "read_u16_be (bs ! 74) (bs ! 75) = payload_len m" using pack_header(6) [OF len, of _ rest] m(2) by simp
  moreover obtain rs where "pipe_recv \<lparr>r_bytes = bs, r_script = chunks\<rparr> = (Some (pad_names m), rs)" "r_bytes rs = rest"
    using pipe_recv_packed [OF m(1) assms(5), of rest] m(2) by auto
  ultimately show ?thesis using m len valid_pad [OF m(1)] by simp
qed

text \<open>C23: What the others are told of a connection that ends depends on the order of two
  events: when the parent reads the pipe before \<open>SIGCHLD\<close> arrives, every online user
  gets a notice that the user left, an empty name when the connection never logged in; when
  the signal comes first, the slot is free at once, the child's last message stays unread in
  the pipe and nobody is told.\<close>
theorem fork_exit_race:
  assumes "fk_reachable clean st" "fc_pid (fs_clients st s) \<noteq> 0" "chunked chunks"
    and "\<not> fs_crashed st" "\<not> cp_alive (fs_children st ! fc_pipe (fs_clients st s))"
    and i: "i = fc_pipe (fs_clients st s)"
    and "\<forall>j<10. j \<noteq> s \<longrightarrow> fk_online st j \<longrightarrow> fk_ready 1 st j"
    and "wf_message m" "msg_type m = MSG_LOGOUT" "cp_from (fs_children st ! i) = pack_message m"
    and name: "u = (case fk_names st s of None \<Rightarrow> [] | Some u \<Rightarrow> u)"
    and nt: "bye = new_message (e_now e) MSG_BROADCAST ''server'' [] (snprintf 64 (u @ '' left''))"
  shows "fk_step clean st (fk_parent e s chunks st) \<and> fk_step clean st (sigchld i st) \<and>
    fk_names (fk_parent e s chunks st) s = None \<and>
    (\<forall>j. fk_stream (fk_parent e s chunks st) j =
       fk_stream st j @ (if j < 10 \<and> j \<noteq> s \<and> fk_online st j then pack_message bye else [])) \<and>
    fk_names (sigchld i st) s = None \<and> fc_pid (fs_clients (sigchld i st) s) = 0 \<and>
    cp_from (fs_children (sigchld i st) ! i) = pack_message m \<and>
    (\<forall>j. j \<noteq> s \<longrightarrow> fk_stream (sigchld i st) j = fk_stream st j)"
proof -
  have w: "wf_fork st" using fk_reachable_inv [OF assms(1)] by blast
  then have t: "wf_ftable st" by (simp add: wf_fork_def)
  note pc = parent_child [OF w assms(2), folded i]
  have u: "cstr (fc_username (fs_clients st s)) = u"
    using wf_ftableD(1) [OF t, of s] by (simp add: name fk_names_def wf_fclient_def)
  obtain rs where "pipe_recv \<lparr>r_bytes = pack_message m, r_script = chunks\<rparr> = (Some m, rs)" "r_bytes rs = []"
    using pipe_recv_packed [of m chunks "[]"] assms(3,8) by auto
  let ?st1 = "upd_child i (\<lambda>c. c\<lparr>cp_from := []\<rparr>) st"
  let ?st2 = "fk_logout_slot s ?st1"
  have par: "fk_parent e s chunks st = pipe_others s bye ?st2"
    using \<open>pipe_recv _ = _\<close> \<open>r_bytes rs = []\<close> assms(9,10) i u
    by (simp add: fk_parent_def Let_def route_message_def nt)
  have r: "fk_ready n ?st2 = fk_ready n st" for n by (simp add: fk_ready_upd_child)
  have on: "fk_online ?st2 = (fk_online st)(s := False)" by (simp add: fk_online_def fk_logout_slot_def fun_eq_iff)
  have str: "fk_stream ?st2 = fk_stream st"
    using arg_cong [OF fk_logout_chat [of s ?st1], of ch_stream] arg_cong [OF fk_chat_upd_child [of "\<lambda>c. c\<lparr>cp_from := []\<rparr>" i st], of ch_stream]
    by (simp add: ch_set_user_def)
  have "\<forall>j<10. j \<noteq> s \<longrightarrow> fk_online ?st2 j \<longrightarrow> fk_ready (Suc 0) ?st2 j" using assms(7) r on by simp
  from fk_sink.broadcast_stream [OF this, of bye]
  have "fk_stream (fk_parent e s chunks st) j =
       fk_stream st j @ (if j < 10 \<and> j \<noteq> s \<and> fk_online st j then pack_message bye else [])" for j
    using on str by (simp add: par pipe_others_sink)
  moreover have "fk_names (fk_parent e s chunks st) s = None" by (simp add: par fk_names_def fk_logout_slot_def)
  moreover have f: "find_slot (\<lambda>c. fc_pid c = cp_pid (fs_children st ! i)) (fclient_table st) = Some s"
  proof (rule find_slot_unique)
    show "s < length (fclient_table st)" using pc(2) by simp
    show "fc_pid (fclient_table st ! s) = cp_pid (fs_children st ! i)" using pc(2,4) by simp
    fix k assume k: "k < length (fclient_table st)" "fc_pid (fclient_table st ! k) = cp_pid (fs_children st ! i)"
    then have pk: "fc_pid (fs_clients st k) = fc_pid (fs_clients st s)" using pc(4) by simp
    then have "fc_pid (fs_clients st k) \<noteq> 0" using assms(2) by simp
    from slot_of_pid [OF w this assms(2) pk] show "k = s" .
  qed
  have sg: "sigchld i st = reset_slot s (upd_child i (\<lambda>c. c\<lparr>cp_reaped := True\<rparr>) st)"
    by (simp add: sigchld_def Let_def f)
  have "fk_stream (upd_child i (\<lambda>c. c\<lparr>cp_reaped := True\<rparr>) st) = fk_stream st"
    using arg_cong [OF fk_chat_upd_child [of "\<lambda>c. c\<lparr>cp_reaped := True\<rparr>" i st], of ch_stream] by simp
  then have "fk_stream (sigchld i st) j = fk_stream st j" if "j \<noteq> s" for j
    using that by (simp add: sg reset_stream)
  moreover have "fk_names (sigchld i st) s = None" "fc_pid (fs_clients (sigchld i st) s) = 0"
    "cp_from (fs_children (sigchld i st) ! i) = pack_message m"
    using pc(1) assms(10) by (simp_all add: sg reset_slot_def fk_names_def)
  moreover have "fk_step clean st (fk_parent e s chunks st)"
    using fk_step_parent [OF assms(4) _ assms(2) _ assms(3)] pc(2) assms(5) by simp
  moreover have "fk_step clean st (sigchld i st)"
    using fk_step_sigchld [OF assms(4) pc(1)] pc(5) assms(5) i by simp
  ultimately show ?thesis by blast
qed

text \<open>What the router leaves alone.\<close>

lemma route_frame:
  "fc_pid (fs_clients (route_message e s m st) j) = fc_pid (fs_clients st j)"
  "fc_pipe (fs_clients (route_message e s m st) j) = fc_pipe (fs_clients st j)"
  "sent_only st (route_message e s m st)"
proof -
  obtain n u p where sc: "sscanf_user_pass (payload m) = (n, u, p)" by (metis prod_cases3)
  have upd: "sent_only st (pipe_send k x st')" "sent_only st (pipe_others k x st')" if "fs_children st' = fs_children st" for k x st'
    using that pipe_send_sent [of st' k x] pipe_others_frame(4) [of st' k x] by (simp_all add: sent_only_def)
  have two: "sent_only st (pipe_send k x (pipe_send l y st'))" "sent_only st (pipe_send k x (pipe_others l y st'))"
    if "fs_children st' = fs_children st" for k x l y st'
    using upd [OF that] pipe_send_sent sent_only_trans by blast+
  show "fc_pid (fs_clients (route_message e s m st) j) = fc_pid (fs_clients st j)"
    "fc_pipe (fs_clients (route_message e s m st) j) = fc_pipe (fs_clients st j)"
    "sent_only st (route_message e s m st)"
    by (cases "msg_type m"; simp add: route_message_def Let_def sc fk_login_slot_def fk_logout_slot_def upd two
        split: option.split; simp add: sent_only_def)+
qed

lemma fork_linked:
  assumes "fk_reachable clean st" "fk_online st j"
  shows "fc_pid (fs_clients st j) \<noteq> 0" "fc_pipe (fs_clients st j) < length (fs_children st)"
    "cp_slot (fs_children st ! fc_pipe (fs_clients st j)) = j"
proof -
  have w: "wf_fork st" using fk_reachable_inv [OF assms(1)] by blast
  then show p: "fc_pid (fs_clients st j) \<noteq> 0"
    using wf_ftableD(1) [of st j] assms(2) by (simp add: wf_fork_def wf_fclient_def fk_online_def)
  show "fc_pipe (fs_clients st j) < length (fs_children st)" "cp_slot (fs_children st ! fc_pipe (fs_clients st j)) = j"
    by (rule parent_child [OF w p])+
qed

definition fk_logged :: fserver where
  "fk_logged = (let m = pad_names (new_message 9 MSG_LOGIN ''cy'' ''server'' ''cy:pw'')
     in fk_parent demo_env (Suc 0) [] (child_sock demo_env (Suc 0) (fk_demo [] [m])))"

lemma reachable_fk_logged: "fk_reachable True fk_logged" and fk_logged_alive: "\<not> fs_crashed fk_logged"
  and fk_logged_users: "fk_users fk_logged (Suc 0) = Some (''cy'', 0)" "fk_users fk_logged 0 = None"
  and fk_logged_stream: "fk_stream fk_logged (Suc 0) = pack_message (server_reply demo_env MSG_ACK ''cy'' ''Login successful'')"
proof -
  let ?m = "pad_names (new_message 9 MSG_LOGIN ''cy'' ''server'' ''cy:pw'')"
  let ?st = "fk_demo [] [?m]"
  have wm: "wf_message ?m" "msg_type ?m = MSG_LOGIN" by simp_all
  have w: "wf_fork ?st" using fk_reachable_inv [OF reachable_fk_demo] by blast
  have s: "fk_step True ?st (child_sock demo_env (Suc 0) ?st) \<and>
      fk_step True (child_sock demo_env (Suc 0) ?st) (fk_parent demo_env (Suc 0) [] (child_sock demo_env (Suc 0) ?st)) \<and>
      fk_chat (fk_parent demo_env (Suc 0) [] (child_sock demo_env (Suc 0) ?st)) = spec_message True False demo_env (Suc 0) ?m (fk_chat ?st)"
    by (rule fk_serve [OF w, where later = "[]" and i = "Suc 0"])
      (simp_all add: fk_demo_eq fk_demo_ready chunked_def no_rd_err_def wm del: pad_names_wf)
  then show "fk_reachable True fk_logged"
    unfolding fk_logged_def Let_def using fk_reach_step [OF fk_reach_step [OF reachable_fk_demo]] by blast
  have none: "fk_users ?st = (\<lambda>_. None)" "fk_stream ?st = (\<lambda>_. [])"
    by (simp_all add: fk_users_def fk_stream_def fk_demo_eq fun_eq_iff)
  then have "ch_find (fk_chat ?st) ''cy'' = None" by (simp add: ch_find_def find_slot_None_iff)
  with s login_payload wm(2) have c: "fk_chat fk_logged = ch_send (Suc 0) (server_reply demo_env MSG_ACK ''cy'' ''Login successful'')
      (ch_set_user (Suc 0) (Some (''cy'', 0)) (fk_chat ?st))"
    by (simp add: fk_logged_def Let_def spec_message_def del: pad_names_wf)
  from arg_cong [OF c, of ch_users] arg_cong [OF c, of ch_stream] arg_cong [OF c, of ch_crashed] none
  show "\<not> fs_crashed fk_logged" "fk_users fk_logged (Suc 0) = Some (''cy'', 0)" "fk_users fk_logged 0 = None"
    "fk_stream fk_logged (Suc 0) = pack_message (server_reply demo_env MSG_ACK ''cy'' ''Login successful'')"
    by (simp_all add: ch_send_def ch_set_user_def fk_demo_eq)
qed

lemma fk_logged_links:
  "fc_pid (fs_clients fk_logged j) = (if j = 0 then 7 else if j = 1 then 8 else 0)"
  "fc_pipe (fs_clients fk_logged j) = (if j = 1 then 1 else 0)"
  "length (fs_children fk_logged) = 2"
  "cp_in (fs_children fk_logged ! 0) = \<lparr>r_bytes = [], r_script = []\<rparr>" "cp_from (fs_children fk_logged ! 0) = []"
  "cp_alive (fs_children fk_logged ! 0)" "cp_alive (fs_children fk_logged ! Suc 0)"
  "cp_out (fs_children fk_logged ! Suc 0) = \<lparr>w_out = [], w_script = []\<rparr>"
proof -
  let ?m = "pad_names (new_message 9 MSG_LOGIN ''cy'' ''server'' ''cy:pw'')"
  let ?st = "fk_demo [] [?m]"
  have wm: "wf_message ?m" by simp
  obtain rs where cs: "child_sock demo_env (Suc 0) ?st = upd_child (Suc 0) (\<lambda>c. c\<lparr>cp_in := rs, cp_from := cp_from c @ pack_message ?m\<rparr>) ?st"
    using child_sock_message [OF wm, of ?st "Suc 0" "[]"] by (auto simp: fk_demo_eq no_rd_err_def)
  obtain rs2 where pr: "pipe_recv \<lparr>r_bytes = pack_message ?m, r_script = []\<rparr> = (Some ?m, rs2)"
    using pipe_recv_packed [of ?m "[]" "[]"] by (auto simp: chunked_def)
  let ?st2 = "upd_child (Suc 0) (\<lambda>c. c\<lparr>cp_from := r_bytes rs2\<rparr>) (child_sock demo_env (Suc 0) ?st)"
  have lg: "fk_logged = route_message demo_env (Suc 0) ?m ?st2"
    using pr by (simp add: fk_logged_def Let_def fk_parent_def cs fk_demo_eq del: pad_names_wf)
  show "fc_pid (fs_clients fk_logged j) = (if j = 0 then 7 else if j = 1 then 8 else 0)"
    "fc_pipe (fs_clients fk_logged j) = (if j = 1 then 1 else 0)"
    by (simp_all add: lg route_frame cs fk_demo_eq del: pad_names_wf)
  have so: "sent_only ?st2 fk_logged" unfolding lg by (rule route_frame(3))
  then show "length (fs_children fk_logged) = 2" by (simp add: sent_only_def cs fk_demo_eq del: pad_names_wf)
  have "same_child (fs_children ?st2 ! 0) (fs_children fk_logged ! 0)" "same_child (fs_children ?st2 ! Suc 0) (fs_children fk_logged ! Suc 0)"
    using so by (simp_all only: sent_only_def)
  from this [THEN same_childD] show "cp_in (fs_children fk_logged ! 0) = \<lparr>r_bytes = [], r_script = []\<rparr>"
    "cp_from (fs_children fk_logged ! 0) = []" "cp_alive (fs_children fk_logged ! 0)" "cp_alive (fs_children fk_logged ! Suc 0)"
    "cp_out (fs_children fk_logged ! Suc 0) = \<lparr>w_out = [], w_script = []\<rparr>"
    by (simp_all add: cs fk_demo_eq del: pad_names_wf)
qed

lemma fk_logged_queue: "cp_to (fs_children fk_logged ! Suc 0) = pack_message (server_reply demo_env MSG_ACK ''cy'' ''Login successful'')"
  using fk_logged_stream by (simp add: fk_stream_def fk_logged_links Let_def)

lemma fk_logged_names: "fk_names fk_logged (Suc 0) = Some ''cy''" "fk_names fk_logged 0 = None"
  using fk_logged_users by (auto simp: fk_users_def fk_names_def split: if_splits)


theorem fork_delivers_queued_witness:
  "\<exists>st'. (fk_step True)\<^sup>*\<^sup>* fk_logged st' \<and>
     w_out (cp_out (fs_children st' ! Suc 0)) = pack_message (server_reply demo_env MSG_ACK ''cy'' ''Login successful'')"
  using fork_delivers_queued [OF reachable_fk_logged fk_logged_alive, of "Suc 0"]
  by (auto simp: fk_logged_links fk_logged_queue)

theorem fork_pipes_whole_witness:
  "\<exists>m rs. pipe_recv \<lparr>r_bytes = cp_to (fs_children fk_logged ! Suc 0), r_script = [RData 3]\<rparr> = (Some m, rs)"
  using fork_pipes_whole [OF reachable_fk_logged, of "fs_children fk_logged ! Suc 0" "cp_to (fs_children fk_logged ! Suc 0)" "[RData 3]"]
  by (auto simp: fk_logged_links fk_logged_queue chunked_def)

text \<open>The connection that never logged in ends.\<close>

definition fk_ended :: fserver where
  "fk_ended = child_sock demo_env 0 fk_logged"

theorem fork_exit_race_witness:
  "fk_stream (fk_parent demo_env 0 [] fk_ended) 1 = fk_stream fk_ended 1
     @ pack_message (new_message 7 MSG_BROADCAST ''server'' [] '' left'') \<and>
   fk_stream (sigchld 0 fk_ended) 1 = fk_stream fk_ended 1 \<and> fc_pid (fs_clients (sigchld 0 fk_ended) 0) = 0"
proof -
  let ?lo = "new_message 7 MSG_LOGOUT (fc_username (fs_clients fk_logged (cp_slot (fs_children fk_logged ! 0)))) [] []"
  obtain rs where "recv_message \<lparr>r_bytes = [], r_script = []\<rparr> = (None, rs)"
    using recv_at_eof [of "\<lparr>r_bytes = [], r_script = []\<rparr>"] by auto
  then have e: "fk_ended = upd_child 0 (\<lambda>c. c\<lparr>cp_in := rs, cp_from := cp_from c @ pack_message
      (new_message 7 MSG_LOGOUT (fc_username (fs_clients fk_logged (cp_slot c))) [] []), cp_alive := False\<rparr>) fk_logged"
    by (simp add: fk_ended_def child_sock_def fk_logged_links)
  have r: "fk_reachable True fk_ended"
    unfolding fk_ended_def
    using fk_step_sock [OF fk_logged_alive, of 0] fk_logged_links by (intro fk_reach_step [OF reachable_fk_logged]) simp
  have n: "fk_names fk_ended j = fk_names fk_logged j" for j by (simp add: e fk_names_def)
  have on: "fk_online fk_ended j \<Longrightarrow> fk_ready 1 fk_ended j" if "j \<noteq> 0" for j
    using fork_linked [OF r, of j] that
    by (auto simp: e fk_ready_def Let_def fk_logged_links nth_list_update split: if_splits)
  have "fk_online fk_ended (Suc 0)" using n [of "Suc 0"] fk_logged_names(1) by (auto simp: fk_names_def fk_online_def split: if_splits)
  have a: "fc_pid (fs_clients fk_ended 0) \<noteq> 0" "\<not> fs_crashed fk_ended" "0 = fc_pipe (fs_clients fk_ended 0)"
    "\<not> cp_alive (fs_children fk_ended ! fc_pipe (fs_clients fk_ended 0))" "cp_from (fs_children fk_ended ! 0) = pack_message ?lo"
    by (simp_all add: e fk_logged_links fk_logged_alive)
  have b: "chunked []" "\<forall>j<10. j \<noteq> 0 \<longrightarrow> fk_online fk_ended j \<longrightarrow> fk_ready 1 fk_ended j" "wf_message ?lo" "msg_type ?lo = MSG_LOGOUT"
    "[] = (case fk_names fk_ended 0 of None \<Rightarrow> [] | Some u \<Rightarrow> u)"
    "new_message 7 MSG_BROADCAST ''server'' [] '' left'' = new_message (e_now demo_env) MSG_BROADCAST ''server'' [] (snprintf 64 ([] @ '' left''))"
    using on n [of 0] fk_logged_names by (simp_all add: chunked_def)
  note main = fork_exit_race [OF r a(1) b(1) a(2,4,3) b(2-4) a(5) b(5,6)]
  have o1: "fk_online fk_ended 1" using \<open>fk_online fk_ended (Suc 0)\<close> by simp
  have "fk_stream (fk_parent demo_env 0 [] fk_ended) 1 = fk_stream fk_ended 1
     @ pack_message (new_message 7 MSG_BROADCAST ''server'' [] '' left'')"
    using main [THEN conjunct2, THEN conjunct2, THEN conjunct2, THEN conjunct1, rule_format, of 1] o1 by simp
  moreover have "fk_stream (sigchld 0 fk_ended) 1 = fk_stream fk_ended 1" "fc_pid (fs_clients (sigchld 0 fk_ended) 0) = 0"
    using main by simp_all
  ultimately show ?thesis by blast
qed

end
