(* ===== verification/Fork_Lifecycle.thy ===== *)
theory Fork_Lifecycle
  imports Fork_Properties
begin

text \<open>
  The fork server over its whole life: the descriptors the parent never closes, and what
  becomes of the children when the parent has ended; last, whole rounds of the two loops as
  sequences of steps.
\<close>

section \<open>The descriptors of the parent\<close>

lemma fds_simps [simp]:
  "fs_fds (upd_fclient s f st) = fs_fds st" "fs_fds (upd_child i g st) = fs_fds st"
  "fs_fds (pipe_send s m st) = fs_fds st" "fs_fds (reset_slot s st) = fs_fds st"
  "fs_fds (fk_login_slot s u st) = fs_fds st" "fs_fds (fk_logout_slot s st) = fs_fds st"
  by (simp_all add: upd_fclient_def upd_child_def pipe_send_def reset_slot_def fk_login_slot_def fk_logout_slot_def Let_def)

lemma fds_others [simp]: "fs_fds (pipe_others k m st) = fs_fds st"
  unfolding pipe_others_def by (rule fold_fixed_field) simp

lemma fds_route [simp]: "fs_fds (route_message e s m st) = fs_fds st"
  by (simp add: route_message_def Let_def split: msg_type_t.split prod.split option.split)

lemma fds_steps [simp]:
  "fs_fds (child_sock e i st) = fs_fds st" "fs_fds (child_pipe i chunks st) = fs_fds st"
  "fs_fds (fk_parent e s chunks st) = fs_fds st" "fs_fds (sigchld i st) = fs_fds st"
  by (simp_all add: child_sock_def child_pipe_def fk_parent_def sigchld_def Let_def split: prod.split option.split)

lemma children_steps [simp]:
  "length (fs_children (child_sock e i st)) = length (fs_children st)"
  "length (fs_children (child_pipe i chunks st)) = length (fs_children st)"
  "length (fs_children (fk_parent e s chunks st)) = length (fs_children st)"
  "length (fs_children (sigchld i st)) = length (fs_children st)"
proof -
  have r: "length (fs_children (route_message e s m st)) = length (fs_children st)" for m st
    using route_frame(3) [of st e s m] by (simp add: sent_only_def)
  show "length (fs_children (child_sock e i st)) = length (fs_children st)"
    "length (fs_children (child_pipe i chunks st)) = length (fs_children st)"
    "length (fs_children (fk_parent e s chunks st)) = length (fs_children st)"
    "length (fs_children (sigchld i st)) = length (fs_children st)"
    by (simp_all add: child_sock_def child_pipe_def fk_parent_def sigchld_def reset_slot_def r Let_def split: prod.split option.split)
qed

text \<open>Every new child costs two descriptors, and none is ever given back.\<close>

lemma fk_step_fds:
  assumes "fk_step clean st st'"
  shows "fs_fds st + 2 * (length (fs_children st') - length (fs_children st)) \<le> fs_fds st' \<and>
    length (fs_children st) \<le> length (fs_children st')"
  using assms
proof cases
  case (fk_step_accept made ws e ip rs)
  then show ?thesis by (auto simp: fk_accept_def split: option.split fork_result.split)
qed simp_all

lemma fk_steps_fds:
  "(fk_step clean)\<^sup>*\<^sup>* st st' \<Longrightarrow>
     fs_fds st + 2 * (length (fs_children st') - length (fs_children st)) \<le> fs_fds st' \<and>
     length (fs_children st) \<le> length (fs_children st')"
  by (induction rule: rtranclp_induct) (auto dest!: fk_step_fds)

lemma fk_reachable_steps: "fk_reachable clean st \<Longrightarrow> \<exists>fs. (fk_step clean)\<^sup>*\<^sup>* (fk_start fs) st"
  by (induction rule: fk_reachable.induct) (blast intro: rtranclp.rtrancl_into_rtrancl)+

text \<open>C25: The parent of the fork server runs out of descriptors. In every reachable state
  it holds, besides its first four, two descriptors for every connection it has ever given to
  a child, also for those that ended long ago and when no client is connected; the number
  never falls. A process that may hold \<open>limit\<close> descriptors therefore serves at most
  \<open>(limit - 4) / 2\<close> connections in its whole life, 510 with the usual limit of
  1024, and then no further one.\<close>
theorem fork_descriptors_leak:
  assumes "fk_reachable clean st"
  shows "4 + 2 * length (fs_children st) \<le> fs_fds st \<and>
    (\<forall>st'. (fk_step clean)\<^sup>*\<^sup>* st st' \<longrightarrow> fs_fds st \<le> fs_fds st') \<and>
    (\<forall>limit st'. (fk_step clean)\<^sup>*\<^sup>* st st' \<longrightarrow> fs_fds st' \<le> limit \<longrightarrow> length (fs_children st') \<le> (limit - 4) div 2)"
proof -
  obtain fs where start: "(fk_step clean)\<^sup>*\<^sup>* (fk_start fs) st" using fk_reachable_steps [OF assms] by blast
  have all: "4 + 2 * length (fs_children st') \<le> fs_fds st'" if "(fk_step clean)\<^sup>*\<^sup>* st st'" for st'
    using fk_steps_fds [OF rtranclp_trans [OF start that]] by (simp add: fk_start_def)
  have "fs_fds st \<le> fs_fds st'" if "(fk_step clean)\<^sup>*\<^sup>* st st'" for st'
    using fk_steps_fds [OF that] by linarith
  moreover have "length (fs_children st') \<le> (limit - 4) div 2"
    if "(fk_step clean)\<^sup>*\<^sup>* st st'" "fs_fds st' \<le> limit" for st' limit
    using all [OF that(1)] that(2) by linarith
  ultimately show ?thesis using all [of st] by blast
qed

text \<open>Both clients of the example have gone, and their children have been waited for.\<close>

definition fk_gone :: fserver where
  "fk_gone = sigchld 1 (child_sock demo_env 1 (sigchld 0 (child_sock demo_env 0 (fk_demo [] []))))"

lemma fk_gone_facts: "fk_reachable True fk_gone" "fc_pid (fs_clients fk_gone j) = 0" "length (fs_children fk_gone) = 2"
proof -
  obtain rs where rs: "recv_message \<lparr>r_bytes = [], r_script = []\<rparr> = (None, rs)"
    using recv_at_eof [of "\<lparr>r_bytes = [], r_script = []\<rparr>"] by auto
  let ?d = "fk_demo [] []"
  let ?a = "child_sock demo_env 0 ?d"
  let ?b = "sigchld 0 ?a" let ?c = "child_sock demo_env 1 ?b"
  note d = fk_demo_eq [of "[]" "[]"]
  have a: "\<not> cp_alive (fs_children ?a ! 0)" "\<not> cp_reaped (fs_children ?a ! 0)" "cp_pid (fs_children ?a ! 0) = 7"
      "fs_children ?a ! Suc 0 = fs_children ?d ! Suc 0" "fs_clients ?a = fs_clients ?d" "\<not> fs_crashed ?a" "length (fs_children ?a) = 2"
    using d rs by (simp_all add: child_sock_def Let_def)
  have ra: "fk_reachable True ?a"
    using d by (intro fk_reach_step [OF reachable_fk_demo fk_step_sock]) simp_all
  have "find_slot (\<lambda>c. fc_pid c = 7) (fclient_table ?a) = Some 0"
    using a(5) d by (simp add: fclient_table_def upt_rec)
  then have b: "fs_children ?b ! Suc 0 = fs_children ?d ! Suc 0" "\<not> fs_crashed ?b" "length (fs_children ?b) = 2"
      "fc_pid (fs_clients ?b j) = (if j = 1 then 8 else 0)" for j
    using a d by (simp_all add: sigchld_def Let_def reset_slot_def)
  have rb: "fk_reachable True ?b"
    using a by (intro fk_reach_step [OF ra fk_step_sigchld]) simp_all
  have c: "\<not> cp_alive (fs_children ?c ! 1)" "\<not> cp_reaped (fs_children ?c ! 1)" "cp_pid (fs_children ?c ! 1) = 8"
      "fs_clients ?c = fs_clients ?b" "\<not> fs_crashed ?c" "length (fs_children ?c) = 2"
    using d rs b by (simp_all add: child_sock_def Let_def)
  have rc: "fk_reachable True ?c"
    using b d by (intro fk_reach_step [OF rb fk_step_sock]) simp_all
  have "find_slot (\<lambda>c. fc_pid c = 8) (fclient_table ?c) = Some 1"
    using c(4) b(4) by (simp add: fclient_table_def upt_rec)
  then show "fc_pid (fs_clients fk_gone j) = 0"
    unfolding fk_gone_def using c b(4) [of j] by (simp add: sigchld_def Let_def reset_slot_def)
  show "fk_reachable True fk_gone"
    unfolding fk_gone_def using c by (intro fk_reach_step [OF rc fk_step_sigchld]) simp_all
  show "length (fs_children fk_gone) = 2" using d by (simp add: fk_gone_def)
qed

theorem fork_descriptors_leak_witness:
  "fk_reachable True fk_gone \<and> {j. fc_pid (fs_clients fk_gone j) \<noteq> 0} = {} \<and> 8 \<le> fs_fds fk_gone"
  using fork_descriptors_leak [OF fk_gone_facts(1), THEN conjunct1] fk_gone_facts by simp

section \<open>The end of the server\<close>

text \<open>The process numbers the parent sends \<open>SIGTERM\<close> to when its loop has ended.\<close>

definition fk_shutdown :: "fserver \<Rightarrow> nat list" where
  "fk_shutdown st = filter (\<lambda>p. 0 < p) (map fc_pid (fclient_table st))"

text \<open>Then it exits. The signal finds the handler the children have inherited, which sets
  \<open>running\<close>, and \<open>child_main\<close> does not read \<open>running\<close>. So a child
  goes on: it serves its socket, where what it hands to the parent nobody reads (\<open>silent\<close>
  leaves these steps out), and its pipe, which becomes readable without data when nobody
  holds the writing end. Besides the parent these are the children forked later, which have
  inherited it.\<close>

inductive orphan_step :: "bool \<Rightarrow> fserver \<Rightarrow> fserver \<Rightarrow> bool" for silent :: bool where
  orphan_sock: "\<not> silent \<Longrightarrow> i < length (fs_children st) \<Longrightarrow> cp_alive (fs_children st ! i) \<Longrightarrow>
     orphan_step silent st (child_sock e i st)"
| orphan_pipe: "i < length (fs_children st) \<Longrightarrow> cp_alive (fs_children st ! i) \<Longrightarrow>
     cp_to (fs_children st ! i) \<noteq> [] \<or>
       (\<forall>j. i < j \<longrightarrow> j < length (fs_children st) \<longrightarrow> \<not> cp_alive (fs_children st ! j)) \<Longrightarrow> chunked chunks \<Longrightarrow>
     orphan_step silent st (child_pipe i chunks st)"

definition child_weight :: "fchild \<Rightarrow> nat" where
  "child_weight c = (if cp_alive c then Suc (length (r_bytes (cp_in c)) + length (cp_to c)) else 0)"

definition orphan_weight :: "fserver \<Rightarrow> nat" where
  "orphan_weight st = sum_list (map child_weight (fs_children st))"

lemma orphan_weight_upd:
  assumes "i < length (fs_children st)" "child_weight (f (fs_children st ! i)) < child_weight (fs_children st ! i)"
  shows "orphan_weight (upd_child i f st) < orphan_weight st"
proof -
  let ?w = "map child_weight (fs_children st)"
  have "sum_list (?w[i := child_weight (f (fs_children st ! i))]) + ?w ! i = sum_list ?w + child_weight (f (fs_children st ! i))"
    using assms(1) elem_le_sum_list [of i ?w] by (simp add: sum_list_update)
  with assms show ?thesis by (simp add: orphan_weight_def upd_child_def map_update)
qed

lemma pipe_full_consumes:
  "pipe_full need acc s = (Some out, s') \<Longrightarrow>
     length out + length (r_bytes s') = length acc + length (r_bytes s) \<and> need \<le> length out"
proof (induction need acc s rule: pipe_full.induct)
  case (1 need acc s)
  show ?case
  proof (cases "length acc < need")
    case False
    with "1.prems" show ?thesis by (simp add: pipe_full.simps [of need acc])
  next
    case True
    obtain r s1 where c: "c_read (need - length acc) s = (r, s1)" by fastforce
    with "1.prems" True obtain bs where bs: "r = Bytes bs" "bs \<noteq> []"
      by (auto simp: pipe_full.simps [of need acc] split: rd_out.splits if_splits)
    with c have l: "length bs + length (r_bytes s1) = length (r_bytes s)"
      using arg_cong [OF c_read_Bytes(1) [of "need - length acc" s bs s1], of length] by simp
    have "pipe_full need (acc @ bs) s1 = (Some out, s')"
      using "1.prems" True c bs by (simp add: pipe_full.simps [of need acc])
    from "1.IH" [OF True c [symmetric] bs this] l show ?thesis by simp
  qed
qed

lemma pipe_recv_consumes: "pipe_recv s = (Some m, s') \<Longrightarrow> length (r_bytes s') < length (r_bytes s)"
  by (auto simp: pipe_recv_def Let_def split: prod.splits option.splits dest!: pipe_full_consumes)

lemma child_sock_weight:
  assumes "i < length (fs_children st)" "cp_alive (fs_children st ! i)"
  shows "orphan_weight (child_sock e i st) < orphan_weight st"
  using assms recv_message_consumes [of "cp_in (fs_children st ! i)"]
  by (auto simp: child_sock_def Let_def child_weight_def intro!: orphan_weight_upd split: prod.split option.split)

lemma child_pipe_weight:
  assumes "i < length (fs_children st)" "cp_alive (fs_children st ! i)"
  shows "orphan_weight (child_pipe i chunks st) < orphan_weight st"
  using assms pipe_recv_consumes [of "\<lparr>r_bytes = cp_to (fs_children st ! i), r_script = chunks\<rparr>"]
  by (auto simp: child_pipe_def Let_def child_weight_def intro!: orphan_weight_upd split: prod.split option.split)

lemma orphan_step_weight: "orphan_step silent st st' \<Longrightarrow> orphan_weight st' < orphan_weight st"
  by (induction rule: orphan_step.induct) (simp_all add: child_sock_weight child_pipe_weight)

lemma orphan_run_bound: "(orphan_step silent ^^ n) st st' \<Longrightarrow> n + orphan_weight st' \<le> orphan_weight st"
proof (induction n arbitrary: st')
  case (Suc n)
  then obtain st1 where "(orphan_step silent ^^ n) st st1" "orphan_step silent st1 st'" by auto
  with Suc.IH [of st1] orphan_step_weight show ?case by fastforce
qed simp

subsection \<open>No running child is forgotten\<close>

definition attached :: "fserver \<Rightarrow> fchild \<Rightarrow> nat \<Rightarrow> bool" where
  "attached st c i \<longleftrightarrow> \<not> cp_reaped c \<and> cp_slot c < MAX_CLIENTS \<and> fc_pipe (fs_clients st (cp_slot c)) = i \<and>
     fc_pid (fs_clients st (cp_slot c)) = cp_pid c \<and> cp_pid c \<noteq> 0"

definition all_attached :: "fserver \<Rightarrow> bool" where
  "all_attached st \<longleftrightarrow> (\<forall>i<length (fs_children st). cp_alive (fs_children st ! i) \<longrightarrow> attached st (fs_children st ! i) i)"

lemma all_attached_mono:
  assumes "all_attached st" "length (fs_children st') = length (fs_children st)"
    and "\<And>i. i < length (fs_children st) \<Longrightarrow> cp_alive (fs_children st' ! i) \<Longrightarrow>
      cp_alive (fs_children st ! i) \<and> cp_reaped (fs_children st' ! i) = cp_reaped (fs_children st ! i) \<and>
      cp_slot (fs_children st' ! i) = cp_slot (fs_children st ! i) \<and> cp_pid (fs_children st' ! i) = cp_pid (fs_children st ! i) \<and>
      fc_pid (fs_clients st' (cp_slot (fs_children st ! i))) = fc_pid (fs_clients st (cp_slot (fs_children st ! i))) \<and>
      fc_pipe (fs_clients st' (cp_slot (fs_children st ! i))) = fc_pipe (fs_clients st (cp_slot (fs_children st ! i)))"
  shows "all_attached st'"
  using assms by (simp add: all_attached_def attached_def)

lemma attached_upd_child:
  assumes "all_attached st" "i < length (fs_children st) \<Longrightarrow> cp_alive (f (fs_children st ! i)) \<Longrightarrow>
      cp_alive (fs_children st ! i) \<and> cp_slot (f (fs_children st ! i)) = cp_slot (fs_children st ! i) \<and>
      cp_pid (f (fs_children st ! i)) = cp_pid (fs_children st ! i) \<and> cp_reaped (f (fs_children st ! i)) = cp_reaped (fs_children st ! i)"
  shows "all_attached (upd_child i f st)"
  using assms(1)
proof (rule all_attached_mono)
  fix j assume j: "j < length (fs_children st)" "cp_alive (fs_children (upd_child i f st) ! j)"
  show "cp_alive (fs_children st ! j) \<and> cp_reaped (fs_children (upd_child i f st) ! j) = cp_reaped (fs_children st ! j) \<and>
      cp_slot (fs_children (upd_child i f st) ! j) = cp_slot (fs_children st ! j) \<and>
      cp_pid (fs_children (upd_child i f st) ! j) = cp_pid (fs_children st ! j) \<and>
      fc_pid (fs_clients (upd_child i f st) (cp_slot (fs_children st ! j))) = fc_pid (fs_clients st (cp_slot (fs_children st ! j))) \<and>
      fc_pipe (fs_clients (upd_child i f st) (cp_slot (fs_children st ! j))) = fc_pipe (fs_clients st (cp_slot (fs_children st ! j)))"
  proof (cases "i = j")
    case True
    with j assms(2) show ?thesis by simp
  next
    case False
    with j show ?thesis by simp
  qed
qed simp

lemma attached_route:
  assumes "all_attached st"
  shows "all_attached (route_message e s m st)"
proof (rule all_attached_mono [OF assms])
  let ?st = "route_message e s m st"
  have so: "sent_only st ?st" by (rule route_frame(3))
  then show "length (fs_children ?st) = length (fs_children st)" by (simp only: sent_only_def)
  fix i assume a: "cp_alive (fs_children ?st ! i)"
  from so have "same_child (fs_children st ! i) (fs_children ?st ! i)" by (simp only: sent_only_def)
  from same_childD [OF this] a show "cp_alive (fs_children st ! i) \<and> cp_reaped (fs_children ?st ! i) = cp_reaped (fs_children st ! i) \<and>
      cp_slot (fs_children ?st ! i) = cp_slot (fs_children st ! i) \<and> cp_pid (fs_children ?st ! i) = cp_pid (fs_children st ! i) \<and>
      fc_pid (fs_clients ?st (cp_slot (fs_children st ! i))) = fc_pid (fs_clients st (cp_slot (fs_children st ! i))) \<and>
      fc_pipe (fs_clients ?st (cp_slot (fs_children st ! i))) = fc_pipe (fs_clients st (cp_slot (fs_children st ! i)))"
    by (simp add: route_frame)
qed

lemma attached_child_steps:
  "all_attached st \<Longrightarrow> all_attached (child_sock e i st)" "all_attached st \<Longrightarrow> all_attached (child_pipe i chunks st)"
  by (auto simp: child_sock_def child_pipe_def Let_def intro!: attached_upd_child split: prod.split option.split)

text \<open>Clearing a slot whose child has exited.\<close>

lemma attached_reset:
  assumes "all_attached st" "\<And>j. j < length (fs_children st) \<Longrightarrow> cp_alive (fs_children st ! j) \<Longrightarrow> cp_slot (fs_children st ! j) \<noteq> s"
  shows "all_attached (reset_slot s st)"
  using assms(1) by (rule all_attached_mono) (simp_all add: reset_slot_def assms(2))

lemma attached_parent:
  assumes "all_attached st" "wf_fork st" "flow clean st" "fc_pid (fs_clients st s) \<noteq> 0" "chunked chunks"
    "cp_from (fs_children st ! fc_pipe (fs_clients st s)) \<noteq> [] \<or> \<not> cp_alive (fs_children st ! fc_pipe (fs_clients st s))"
  shows "all_attached (fk_parent e s chunks st)"
proof -
  let ?i = "fc_pipe (fs_clients st s)"
  have upd: "all_attached (upd_child ?i (\<lambda>c. c\<lparr>cp_from := r\<rparr>) st)" for r
    by (rule attached_upd_child [OF assms(1)]) simp_all
  from fk_parent_cases [OF assms(3,2,4,5), of e] show ?thesis
  proof (elim disjE conjE exE)
    fix r
    assume e: "cp_from (fs_children st ! ?i) = []" "fk_parent e s chunks st = reset_slot s (upd_child ?i (\<lambda>c. c\<lparr>cp_from := r\<rparr>) st)"
    with assms(6) have dead: "\<not> cp_alive (fs_children st ! ?i)" by simp
    have live: "cp_slot (fs_children st ! j) \<noteq> s" if "j < length (fs_children st)" "cp_alive (fs_children st ! j)" for j
      using assms(1) that dead by (auto simp: all_attached_def attached_def)
    have "cp_slot (fs_children (upd_child ?i (\<lambda>c. c\<lparr>cp_from := r\<rparr>) st) ! j) \<noteq> s"
      if "j < length (fs_children st)" "cp_alive (fs_children (upd_child ?i (\<lambda>c. c\<lparr>cp_from := r\<rparr>) st) ! j)" for j
      using that dead live [of j] by (cases "j = ?i") simp_all
    then show ?thesis unfolding e(2) by (intro attached_reset [OF upd]) simp_all
  next
    fix m rest
    let ?st = "upd_child ?i (\<lambda>c. c\<lparr>cp_from := rest\<rparr>) st"
    assume e: "fk_parent e s chunks st = route_message e s (pad_names m) ?st"
    show ?thesis unfolding e by (rule attached_route [OF upd])
  qed
qed

lemma attached_sigchld:
  assumes "all_attached st" "wf_fork st" "i < length (fs_children st)" "\<not> cp_alive (fs_children st ! i)" "\<not> cp_reaped (fs_children st ! i)"
  shows "all_attached (sigchld i st)"
proof -
  let ?st = "upd_child i (\<lambda>c. c\<lparr>cp_reaped := True\<rparr>) st"
  have upd: "all_attached ?st"
    by (rule attached_upd_child [OF assms(1)]) (use assms(4) in simp)
  show ?thesis
  proof (cases "find_slot (\<lambda>c. fc_pid c = cp_pid (fs_children st ! i)) (fclient_table st)")
    case None
    with upd show ?thesis by (simp add: sigchld_def)
  next
    case (Some s)
    from find_slot_SomeD [OF this] have s: "fc_pid (fs_clients st s) = cp_pid (fs_children st ! i)" by auto
    have live: "cp_slot (fs_children st ! j) \<noteq> s" if j: "j < length (fs_children st)" "cp_alive (fs_children st ! j)" for j
    proof
      assume eq: "cp_slot (fs_children st ! j) = s"
      have "attached st (fs_children st ! j) j" using assms(1) j by (simp add: all_attached_def)
      with eq s have "\<not> cp_reaped (fs_children st ! j)" "cp_pid (fs_children st ! j) = cp_pid (fs_children st ! i)"
        by (auto simp: attached_def)
      from child_of_pid [OF assms(2) j(1) assms(3) this(1) assms(5) this(2)] j(2) assms(4) show False by simp
    qed
    have "cp_slot (fs_children ?st ! j) \<noteq> s" if "j < length (fs_children st)" "cp_alive (fs_children ?st ! j)" for j
      using that assms(4) live [of j] by (cases "j = i") simp_all
    then have "all_attached (reset_slot s ?st)" by (intro attached_reset [OF upd]) simp_all
    with Some show ?thesis by (simp add: sigchld_def)
  qed
qed

lemma attached_accept:
  assumes "all_attached st" "\<forall>pid. made = Child pid \<longrightarrow> fresh_pid pid st"
  shows "all_attached (fst (fk_accept e ip made rs ws st))"
proof (cases "find_free_slot st")
  case None
  with assms(1) show ?thesis by (simp add: fk_accept_def)
next
  case (Some s)
  from find_slot_SomeD [OF this [unfolded find_free_slot_def]]
  have s: "s < 10" "fc_pid (fs_clients st s) = 0" by auto
  show ?thesis
  proof (cases made)
    case (PipeFails x)
    have "all_attached (st\<lparr>fs_fds := n\<rparr>)" for n using assms(1) by (rule all_attached_mono) simp_all
    with Some PipeFails show ?thesis by (simp add: fk_accept_def)
  next
    case ForkFails
    have "all_attached (upd_fclient s (fk_set_ip ip) (st\<lparr>fs_fds := fs_fds st + 4\<rparr>))"
      using assms(1) by (rule all_attached_mono) simp_all
    with Some ForkFails show ?thesis by (simp add: fk_accept_def)
  next
    case (Child pid)
    with assms(2) have "pid \<noteq> 0" by (simp add: fresh_pid_def)
    with assms(1) Some Child s show ?thesis
      by (auto simp: fk_accept_def all_attached_def attached_def nth_append less_Suc_eq)
  qed
qed

lemma reachable_attached: "fk_reachable clean st \<Longrightarrow> all_attached st"
proof (induction rule: fk_reachable.induct)
  case (fk_reach_start fs)
  show ?case by (simp add: all_attached_def fk_start_def)
next
  case (fk_reach_step st st')
  from fk_reachable_inv [OF fk_reach_step(1)] have i: "wf_fork st" "flow clean st" by simp_all
  from fk_reach_step(2) show ?case
  proof cases
    case (fk_step_parent s chunks e)
    with fk_reach_step i show ?thesis by (simp add: attached_parent)
  qed (use fk_reach_step i in \<open>simp_all add: attached_accept attached_child_steps attached_sigchld\<close>)
qed

subsection \<open>The children end\<close>

lemma orphan_pipe_newest:
  fixes st :: fserver
  assumes "i < length (fs_children st)" "cp_alive (fs_children st ! i)"
  obtains k where "k < length (fs_children st)" "cp_alive (fs_children st ! k)"
    "\<And>j. k < j \<Longrightarrow> j < length (fs_children st) \<Longrightarrow> \<not> cp_alive (fs_children st ! j)"
proof -
  let ?P = "\<lambda>j. j < length (fs_children st) \<and> cp_alive (fs_children st ! j)"
  have b: "\<forall>j. ?P j \<longrightarrow> j \<le> length (fs_children st)" by auto
  have "?P (Greatest ?P)" using assms b by (intro GreatestI_nat [of ?P i "length (fs_children st)"]) simp_all
  moreover have "j \<le> Greatest ?P" if "?P j" for j using that b by (intro Greatest_le_nat [of ?P j "length (fs_children st)"]) simp_all
  ultimately show ?thesis by (intro that [of "Greatest ?P"]) (auto simp: not_le [symmetric])
qed

text \<open>What a step of the pipe does when there are no write errors: the queue either moves to
  the socket, or it is empty and the child ends.\<close>

lemma child_pipe_moves:
  assumes "flow True st" "i < length (fs_children st)" "cp_alive (fs_children st ! i)" "chunked chunks"
  obtains w to b where "fs_children (child_pipe i chunks st) =
      (fs_children st)[i := (fs_children st ! i)\<lparr>cp_out := w, cp_to := to, cp_alive := b\<rparr>]"
    "flow True (child_pipe i chunks st)" "w_out w @ to = w_out (cp_out (fs_children st ! i)) @ cp_to (fs_children st ! i)"
    "b \<or> cp_to (fs_children st ! i) = [] \<and> to = []"
proof (cases "cp_to (fs_children st ! i) = []")
  case True
  obtain rs where rs: "pipe_recv \<lparr>r_bytes = [], r_script = chunks\<rparr> = (None, rs)" using pipe_recv_Nil by blast
  have e: "child_pipe i chunks st = upd_child i (\<lambda>c. c\<lparr>cp_to := [], cp_alive := False\<rparr>) st"
    using rs True pipe_recv_left [OF rs] by (simp add: child_pipe_def Let_def)
  have f: "flow True (upd_child i (\<lambda>c. c\<lparr>cp_to := [], cp_alive := False\<rparr>) st)"
    by (rule flow_upd [OF assms(1)]) (simp add: piped_def)
  show thesis
    by (rule that [where w = "cp_out (fs_children st ! i)" and to = "[]" and b = False]) (use True f in \<open>simp_all add: e\<close>)
next
  case False
  have p: "message_stream (cp_to (fs_children st ! i))" "no_wr_err (cp_out (fs_children st ! i))"
    using assms(1,2) by (simp_all add: flow_def piped_def)
  obtain m rest where m: "cp_to (fs_children st ! i) = pack_message m @ rest"
    "child_pipe i chunks st = upd_child i (\<lambda>c. c\<lparr>cp_out := snd (send_message (cp_out c) (pad_names m)), cp_to := rest\<rparr>) st"
    by (rule child_pipe_first [OF p(1) False assms(4)])
  obtain w where w: "send_message (cp_out (fs_children st ! i)) (pad_names m) = (True, w)"
      "w_out w = w_out (cp_out (fs_children st ! i)) @ pack_message m"
    using send_message_ok [OF p(2), of "pad_names m"] by auto
  have c: "fs_children (child_pipe i chunks st) = (fs_children st)[i := (fs_children st ! i)\<lparr>cp_out := w, cp_to := rest, cp_alive := True\<rparr>]"
    using w(1) assms(3) by (cases "fs_children st ! i") (simp add: m(2))
  show thesis
    by (rule that [OF c flow_child_pipe [OF assms(1,2) False assms(4)]]) (simp_all add: w(2) m(1))
qed

lemma orphans_drain:
  assumes "flow True st"
  shows "\<exists>st'. (orphan_step True)\<^sup>*\<^sup>* st st' \<and> length (fs_children st') = length (fs_children st) \<and>
    (\<forall>i<length (fs_children st). \<not> cp_alive (fs_children st' ! i) \<and>
       w_out (cp_out (fs_children st' ! i)) =
         w_out (cp_out (fs_children st ! i)) @ (if cp_alive (fs_children st ! i) then cp_to (fs_children st ! i) else []))"
  using assms
proof (induction "orphan_weight st" arbitrary: st rule: less_induct)
  case less
  show ?case
  proof (cases "\<exists>i<length (fs_children st). cp_alive (fs_children st ! i)")
    case False
    then show ?thesis by (intro exI [of _ st]) simp
  next
    case True
    then obtain k where k: "k < length (fs_children st)" "cp_alive (fs_children st ! k)"
      "\<And>j. k < j \<Longrightarrow> j < length (fs_children st) \<Longrightarrow> \<not> cp_alive (fs_children st ! j)"
      using orphan_pipe_newest by blast
    let ?st = "child_pipe k [] st"
    have ch: "chunked []" by (simp add: chunked_def)
    have step: "orphan_step True st ?st" by (rule orphan_pipe [OF k(1,2) _ ch]) (use k(3) in blast)
    obtain w to b where mv: "fs_children ?st = (fs_children st)[k := (fs_children st ! k)\<lparr>cp_out := w, cp_to := to, cp_alive := b\<rparr>]"
      "flow True ?st" "w_out w @ to = w_out (cp_out (fs_children st ! k)) @ cp_to (fs_children st ! k)"
      "b \<or> cp_to (fs_children st ! k) = [] \<and> to = []"
      by (rule child_pipe_moves [OF less.prems k(1,2) ch])
    from less.hyps [OF child_pipe_weight [OF k(1,2)] mv(2)] obtain st' where
      st': "(orphan_step True)\<^sup>*\<^sup>* ?st st'" "length (fs_children st') = length (fs_children st)"
        "\<forall>i<length (fs_children st). \<not> cp_alive (fs_children st' ! i) \<and>
       w_out (cp_out (fs_children st' ! i)) =
         w_out (cp_out (fs_children ?st ! i)) @ (if cp_alive (fs_children ?st ! i) then cp_to (fs_children ?st ! i) else [])"
      by (auto simp: mv(1))
    have "w_out (cp_out (fs_children st' ! i)) =
         w_out (cp_out (fs_children st ! i)) @ (if cp_alive (fs_children st ! i) then cp_to (fs_children st ! i) else [])"
      if "i < length (fs_children st)" for i
      using st'(3) that mv(3,4) k(2) by (cases "i = k") (auto simp: mv(1))
    with st' step show ?thesis by (intro exI [of _ st']) (simp add: converse_rtranclp_into_rtranclp)
  qed
qed



section \<open>Rounds of the loops\<close>

text \<open>What \<open>child_main\<close> does after one \<open>select\<close>: the socket first, and
  the pipe unless the child has left the loop.\<close>

definition child_round :: "env \<Rightarrow> nat \<Rightarrow> bool \<Rightarrow> bool \<Rightarrow> rd_res list \<Rightarrow> fserver \<Rightarrow> fserver" where
  "child_round e i sock_ready pipe_ready chunks st =
     (let st1 = (if sock_ready then child_sock e i st else st)
      in if pipe_ready \<and> cp_alive (fs_children st1 ! i) then child_pipe i chunks st1 else st1)"

text \<open>What the parent does at \<open>check_children\<close>: the slots in their order, each
  with a child whose pipe \<open>select\<close> has reported.\<close>

definition fk_round :: "(nat \<Rightarrow> env) \<Rightarrow> (nat \<Rightarrow> bool) \<Rightarrow> (nat \<Rightarrow> rd_res list) \<Rightarrow> fserver \<Rightarrow> fserver" where
  "fk_round e readable chunks =
     fold (\<lambda>s st. if \<not> fs_crashed st \<and> 0 < fc_pid (fs_clients st s) \<and> readable s
                  then fk_parent (e s) s (chunks s) st else st) [0..<MAX_CLIENTS]"

lemma child_round_steps:
  assumes "\<not> fs_crashed st" "i < length (fs_children st)" "cp_alive (fs_children st ! i)" "chunked chunks"
    and "pipe_ready \<Longrightarrow> cp_to (fs_children st ! i) \<noteq> []"
  shows "(fk_step clean)\<^sup>*\<^sup>* st (child_round e i sock_ready pipe_ready chunks st)"
proof -
  let ?st1 = "if sock_ready then child_sock e i st else st"
  have 1: "(fk_step clean)\<^sup>*\<^sup>* st ?st1" using fk_step_sock [OF assms(1-3)] by auto
  have 2: "\<not> fs_crashed ?st1" "i < length (fs_children ?st1)" "cp_to (fs_children ?st1 ! i) = cp_to (fs_children st ! i)"
    using assms(1,2) by (auto simp: child_sock_def Let_def split: prod.split option.split)
  show ?thesis
  proof (cases "pipe_ready \<and> cp_alive (fs_children ?st1 ! i)")
    case True
    with 2 assms(5) have "fk_step clean ?st1 (child_pipe i chunks ?st1)"
      by (intro fk_step_pipe [OF 2(1,2) _ _ assms(4)]) simp_all
    with 1 True show ?thesis unfolding child_round_def Let_def by (simp only: if_True simp_thms rtranclp.rtrancl_into_rtrancl)
  next
    case False
    with 1 show ?thesis unfolding child_round_def Let_def by (simp only: if_False)
  qed
qed

text \<open>Serving one slot leaves what decides about the others alone.\<close>

lemma fk_parent_others:
  fixes e :: env
  assumes "flow clean st" "wf_fork st" "fc_pid (fs_clients st s) \<noteq> 0" "chunked chunks" "j \<noteq> s" "fc_pid (fs_clients st j) \<noteq> 0"
  defines "st' \<equiv> fk_parent e s chunks st" and "k \<equiv> fc_pipe (fs_clients st j)"
  shows "fc_pid (fs_clients st' j) = fc_pid (fs_clients st j) \<and> fc_pipe (fs_clients st' j) = k \<and>
    cp_from (fs_children st' ! k) = cp_from (fs_children st ! k) \<and> cp_alive (fs_children st' ! k) = cp_alive (fs_children st ! k)"
proof -
  let ?i = "fc_pipe (fs_clients st s)"
  have ne: "k \<noteq> ?i" using parent_child(3) [OF assms(2,3)] parent_child(3) [OF assms(2,6)] assms(5) by (auto simp: k_def)
  from fk_parent_cases [OF assms(1-4), of e] show ?thesis
  proof (elim disjE conjE exE)
    fix r assume "fk_parent e s chunks st = reset_slot s (upd_child ?i (\<lambda>c. c\<lparr>cp_from := r\<rparr>) st)"
    with ne assms(5) show ?thesis by (simp add: st'_def reset_slot_def k_def)
  next
    fix m rest
    let ?st = "upd_child ?i (\<lambda>c. c\<lparr>cp_from := rest\<rparr>) st"
    assume e: "fk_parent e s chunks st = route_message e s (pad_names m) ?st"
    have "same_child (fs_children ?st ! k) (fs_children st' ! k)"
      using route_frame(3) [of ?st e s "pad_names m"] unfolding st'_def e by (simp only: sent_only_def)
    from same_childD [OF this] ne show ?thesis by (simp add: st'_def e route_frame k_def)
  qed
qed

lemma fk_round_steps:
  assumes "wf_fork st" "flow clean st" "\<And>s. chunked (chunks s)"
    and "\<And>s. s < MAX_CLIENTS \<Longrightarrow> readable s \<Longrightarrow> fc_pid (fs_clients st s) \<noteq> 0 \<Longrightarrow>
      cp_from (fs_children st ! fc_pipe (fs_clients st s)) \<noteq> [] \<or> \<not> cp_alive (fs_children st ! fc_pipe (fs_clients st s))"
  shows "(fk_step clean)\<^sup>*\<^sup>* st (fk_round e readable chunks st)"
proof -
  let ?f = "\<lambda>s st. if \<not> fs_crashed st \<and> 0 < fc_pid (fs_clients st s) \<and> readable s then fk_parent (e s) s (chunks s) st else st"
  let ?ok = "\<lambda>st s. fc_pid (fs_clients st s) \<noteq> 0 \<longrightarrow> readable s \<longrightarrow>
      cp_from (fs_children st ! fc_pipe (fs_clients st s)) \<noteq> [] \<or> \<not> cp_alive (fs_children st ! fc_pipe (fs_clients st s))"
  have "(fk_step clean)\<^sup>*\<^sup>* st (fold ?f xs st)"
    if "wf_fork st" "flow clean st" "distinct xs" "set xs \<subseteq> {0..<MAX_CLIENTS}" "\<forall>s\<in>set xs. ?ok st s" for xs st
    using that
  proof (induction xs arbitrary: st)
    case (Cons s xs)
    show ?case
    proof (cases "\<not> fs_crashed st \<and> 0 < fc_pid (fs_clients st s) \<and> readable s")
      case False
      have "(fk_step clean)\<^sup>*\<^sup>* st (fold ?f xs st)" by (rule Cons.IH) (use Cons.prems in auto)
      with False show ?thesis by auto
    next
      case True
      let ?st = "fk_parent (e s) s (chunks s) st"
      have pid: "fc_pid (fs_clients st s) \<noteq> 0" using True by simp
      have "fk_step clean st ?st"
        by (rule fk_step_parent) (use True Cons.prems assms(3) in auto)
      moreover have "wf_fork ?st \<and> flow clean ?st" by (rule wf_fk_parent [OF Cons.prems(2,1) pid assms(3)])
      moreover have "?ok ?st j" if "j \<in> set xs" for j
      proof -
        have j: "j \<noteq> s" "?ok st j" using that Cons.prems(3,5) by auto
        show ?thesis
        proof (cases "fc_pid (fs_clients st j) = 0")
          case True
          from fk_parent_cases [OF Cons.prems(2,1) pid assms(3) [of s], of "e s"] True j(1) have "fc_pid (fs_clients ?st j) = 0"
            by (auto simp: reset_slot_def route_frame)
          then show ?thesis by simp
        next
          case False
          from fk_parent_others [OF Cons.prems(2,1) pid assms(3) j(1) False, of "e s"] j(2) show ?thesis by simp
        qed
      qed
      ultimately have "(fk_step clean)\<^sup>*\<^sup>* ?st (fold ?f xs ?st)" using Cons.IH [of ?st] Cons.prems(3,4) by auto
      with \<open>fk_step clean st ?st\<close> have "(fk_step clean)\<^sup>*\<^sup>* st (fold ?f xs ?st)" by (rule converse_rtranclp_into_rtranclp)
      with True show ?thesis by simp
    qed
  qed simp
  from this [of st "[0..<MAX_CLIENTS]"] assms show ?thesis by (auto simp: fk_round_def)
qed

end
