(* ===== verification/Discovery_Threads.thy ===== *)
theory Discovery_Threads
  imports Discovery
begin

text \<open>
  The discovery server as a concurrent program: the accept loop of \<open>main\<close>, one
  detached thread per connection running \<open>handle_connection\<close>, the signal handler
  and the exit of the process. A thread is cut at its system calls and at
  \<open>reg_lock\<close>: it receives, enters the one critical section of its request, and
  sends. \<open>disc_step\<close> is any interleaving; its events name the accepted connections
  and, in the order of the lock, the requests served. The invariant
  \<open>disc_inv\<close> ties every state to the sequential run \<open>discovery_run\<close> of
  the served requests.
\<close>

subsection \<open>The state\<close>

datatype disc_phase = DRecv | DServe Message | DReply Message | DDone

record disc_thread =
  dt_ip :: "char list"
  dt_in :: rsock
  dt_out :: wsock
  dt_phase :: disc_phase

text \<open>\<open>ds_running\<close> is the flag of the signal handler; \<open>ds_alive\<close> ends
  when \<open>main\<close> returns and with it every thread.\<close>

record disc_server =
  ds_reg :: registry
  ds_threads :: "disc_thread list"
  ds_running :: bool
  ds_alive :: bool

definition disc_start :: disc_server where
  "disc_start = \<lparr>ds_reg = empty_registry, ds_threads = [], ds_running = True, ds_alive = True\<rparr>"

subsection \<open>The steps\<close>

text \<open>A connection has been accepted; \<open>started\<close> tells whether both
  \<open>malloc\<close> and \<open>pthread_create\<close> succeed. Otherwise it is closed at once.\<close>

definition disc_accept :: "char list \<Rightarrow> rsock \<Rightarrow> wsock \<Rightarrow> bool \<Rightarrow> disc_server \<Rightarrow> disc_server" where
  "disc_accept ip rs ws started sv =
     (if started
      then sv\<lparr>ds_threads := ds_threads sv @ [\<lparr>dt_ip = ip, dt_in = rs, dt_out = ws, dt_phase = DRecv\<rparr>]\<rparr>
      else sv)"

text \<open>The next step of \<open>handle_connection\<close> in thread \<open>i\<close>.\<close>

definition disc_thread_step :: "64 word \<Rightarrow> nat \<Rightarrow> disc_server \<Rightarrow> disc_server" where
  "disc_thread_step now i sv =
     (let t = ds_threads sv ! i
      in case dt_phase t of
           DRecv \<Rightarrow>
             (case recv_message (dt_in t) of
                (None, rs) \<Rightarrow> sv\<lparr>ds_threads := (ds_threads sv)[i := t\<lparr>dt_in := rs, dt_phase := DDone\<rparr>]\<rparr>
              | (Some req, rs) \<Rightarrow> sv\<lparr>ds_threads := (ds_threads sv)[i := t\<lparr>dt_in := rs, dt_phase := DServe req\<rparr>]\<rparr>)
         | DServe req \<Rightarrow>
             (case handle_request (dt_ip t) now (ds_reg sv) req of
                (reg, resp) \<Rightarrow>
                  sv\<lparr>ds_reg := reg, ds_threads := (ds_threads sv)[i := t\<lparr>dt_phase := DReply resp\<rparr>]\<rparr>)
         | DReply resp \<Rightarrow>
             sv\<lparr>ds_threads := (ds_threads sv)[i := t\<lparr>dt_out := snd (send_message (dt_out t) resp), dt_phase := DDone\<rparr>]\<rparr>
         | DDone \<Rightarrow> sv)"

definition disc_signal :: "disc_server \<Rightarrow> disc_server" where
  "disc_signal sv = sv\<lparr>ds_running := False\<rparr>"

definition disc_exit :: "disc_server \<Rightarrow> disc_server" where
  "disc_exit sv = sv\<lparr>ds_alive := False\<rparr>"

text \<open>The events: a connection that got its thread, a request served in its critical
  section by a thread.\<close>

datatype disc_event = DAccepted "char list \<times> rsock \<times> wsock" | DServed nat disc_request

definition serve_event :: "64 word \<Rightarrow> nat \<Rightarrow> disc_server \<Rightarrow> disc_event list" where
  "serve_event now i sv =
     (let t = ds_threads sv ! i
      in case dt_phase t of DServe req \<Rightarrow> [DServed i (dt_ip t, now, req)] | _ \<Rightarrow> [])"

inductive disc_step :: "disc_server \<Rightarrow> disc_event list \<Rightarrow> disc_server \<Rightarrow> bool" where
  disc_step_accept: "ds_alive sv \<Longrightarrow> ds_running sv \<Longrightarrow>
     disc_step sv (if started then [DAccepted (ip, rs, ws)] else []) (disc_accept ip rs ws started sv)"
| disc_step_thread: "ds_alive sv \<Longrightarrow> i < length (ds_threads sv) \<Longrightarrow>
     disc_step sv (serve_event now i sv) (disc_thread_step now i sv)"
| disc_step_signal: "ds_alive sv \<Longrightarrow> disc_step sv [] (disc_signal sv)"
| disc_step_exit: "ds_alive sv \<Longrightarrow> \<not> ds_running sv \<Longrightarrow> disc_step sv [] (disc_exit sv)"

inductive disc_trace :: "disc_event list \<Rightarrow> disc_server \<Rightarrow> bool" where
  disc_trace_start: "disc_trace [] disc_start"
| disc_trace_step: "disc_trace evs sv \<Longrightarrow> disc_step sv ev sv' \<Longrightarrow> disc_trace (evs @ ev) sv'"

subsection \<open>What a trace has accepted, served and answered\<close>

fun conns_of :: "disc_event list \<Rightarrow> (char list \<times> rsock \<times> wsock) list" where
  "conns_of [] = []"
| "conns_of (DAccepted c # evs) = c # conns_of evs"
| "conns_of (DServed i r # evs) = conns_of evs"

fun served_of :: "disc_event list \<Rightarrow> (nat \<times> disc_request) list" where
  "served_of [] = []"
| "served_of (DAccepted c # evs) = served_of evs"
| "served_of (DServed i r # evs) = (i, r) # served_of evs"

text \<open>The answer the sequential run gives to the request of thread \<open>i\<close>.\<close>

definition answer_of :: "(nat \<times> disc_request) list \<Rightarrow> nat \<Rightarrow> Message option" where
  "answer_of log i = map_of (zip (map fst log) (snd (discovery_run empty_registry (map snd log)))) i"

lemma conns_of_append [simp]: "conns_of (xs @ ys) = conns_of xs @ conns_of ys"
  by (induction xs rule: conns_of.induct) auto

lemma served_of_append [simp]: "served_of (xs @ ys) = served_of xs @ served_of ys"
  by (induction xs rule: served_of.induct) auto

lemma discovery_run_snoc:
  "fst (discovery_run reg (rs @ [(ip, now, req)])) = fst (handle_request ip now (fst (discovery_run reg rs)) req)"
  "snd (discovery_run reg (rs @ [(ip, now, req)])) =
     snd (discovery_run reg rs) @ [snd (handle_request ip now (fst (discovery_run reg rs)) req)]"
  by (induction reg rs rule: discovery_run.induct) (auto split: prod.splits)

lemma length_discovery_run [simp]: "length (snd (discovery_run reg rs)) = length rs"
  by (induction reg rs rule: discovery_run.induct) (auto split: prod.splits)

lemma answer_of_Nil [simp]: "answer_of [] i = None"
  by (simp add: answer_of_def)

lemma answer_of_None: "answer_of log i = None \<longleftrightarrow> i \<notin> fst ` set log"
  by (simp add: answer_of_def map_of_zip_is_None)

lemma answer_of_snoc:
  assumes "i \<notin> fst ` set log"
  shows "answer_of (log @ [(i, ip, now, req)]) j =
    (if j = i then Some (snd (handle_request ip now (fst (discovery_run empty_registry (map snd log))) req))
     else answer_of log j)"
proof -
  define a where "a = zip (map fst log) (snd (discovery_run empty_registry (map snd log)))"
  have "map_of a i = None" using assms by (simp add: a_def map_of_zip_is_None)
  then show ?thesis
    by (cases "map_of a j") (auto simp: answer_of_def discovery_run_snoc map_add_def simp flip: a_def)
qed

subsection \<open>The invariant\<close>

definition thread_ok :: "char list \<times> rsock \<times> wsock \<Rightarrow> Message option \<Rightarrow> disc_thread \<Rightarrow> bool" where
  "thread_ok c ans t \<longleftrightarrow>
     (case c of (ip, rs, ws) \<Rightarrow>
        dt_ip t = ip \<and>
        (case dt_phase t of
           DRecv \<Rightarrow> ans = None \<and> dt_in t = rs \<and> dt_out t = ws
         | DServe req \<Rightarrow> ans = None \<and> fst (recv_message rs) = Some req \<and> dt_out t = ws
         | DReply resp \<Rightarrow> ans = Some resp \<and> dt_out t = ws
         | DDone \<Rightarrow> (case ans of None \<Rightarrow> fst (recv_message rs) = None \<and> dt_out t = ws
                      | Some resp \<Rightarrow> dt_out t = snd (send_message ws resp))))"

definition disc_inv :: "disc_event list \<Rightarrow> disc_server \<Rightarrow> bool" where
  "disc_inv evs sv \<longleftrightarrow>
     (let cs = conns_of evs; log = served_of evs
      in ds_reg sv = fst (discovery_run empty_registry (map snd log)) \<and>
         distinct (map fst log) \<and> length (ds_threads sv) = length cs \<and>
         (\<forall>(i, ip, now, req)\<in>set log. i < length cs \<and>
            fst (cs ! i) = ip \<and> fst (recv_message (fst (snd (cs ! i)))) = Some req) \<and>
         (\<forall>i<length cs. thread_ok (cs ! i) (answer_of log i) (ds_threads sv ! i)))"

lemma disc_inv_start: "disc_inv [] disc_start"
  by (simp add: disc_inv_def disc_start_def)

lemma disc_inv_accept:
  assumes "disc_inv evs sv"
  shows "disc_inv (evs @ (if started then [DAccepted (ip, rs, ws)] else [])) (disc_accept ip rs ws started sv)"
proof (cases started)
  case True
  let ?log = "served_of evs" and ?cs = "conns_of evs"
  have "length ?cs \<notin> fst ` set ?log" using assms by (fastforce simp: disc_inv_def Let_def)
  then have "answer_of ?log (length ?cs) = None" by (simp add: answer_of_None)
  moreover have "(\<forall>i<Suc n. P i) \<longleftrightarrow> (\<forall>i<n. P i) \<and> P n" for n :: nat and P by (auto simp: less_Suc_eq)
  ultimately show ?thesis
    using assms True by (fastforce simp: disc_inv_def disc_accept_def Let_def nth_append thread_ok_def)
qed (use assms in \<open>simp add: disc_inv_def disc_accept_def\<close>)

lemma disc_invD:
  assumes "disc_inv evs sv" "i < length (ds_threads sv)"
  shows "i < length (conns_of evs)" "thread_ok (conns_of evs ! i) (answer_of (served_of evs) i) (ds_threads sv ! i)"
  using assms by (auto simp: disc_inv_def Let_def)

text \<open>A step that only changes thread \<open>i\<close>.\<close>

lemma disc_inv_update:
  assumes "disc_inv evs sv" "thread_ok (conns_of evs ! i) (answer_of (served_of evs) i) t"
  shows "disc_inv evs (sv\<lparr>ds_threads := (ds_threads sv)[i := t]\<rparr>)"
proof -
  have "thread_ok (conns_of evs ! j) (answer_of (served_of evs) j) ((ds_threads sv)[i := t] ! j)"
    if "j < length (conns_of evs)" for j
    using assms that by (cases "j = i") (simp_all add: disc_inv_def Let_def)
  with assms(1) show ?thesis by (simp add: disc_inv_def Let_def)
qed

lemma disc_inv_serve:
  assumes inv: "disc_inv evs sv" and i: "i < length (ds_threads sv)"
    and ph: "dt_phase (ds_threads sv ! i) = DServe req"
  shows "disc_inv (evs @ serve_event now i sv) (disc_thread_step now i sv)"
proof -
  let ?t = "ds_threads sv ! i" and ?log = "served_of evs" and ?cs = "conns_of evs"
  obtain reg resp where h: "handle_request (dt_ip ?t) now (ds_reg sv) req = (reg, resp)" by force
  obtain ip rs ws where c: "?cs ! i = (ip, rs, ws)" by (metis prod_cases3)
  from disc_invD [OF inv i] ph c
  have t: "i < length ?cs" "answer_of ?log i = None" "dt_ip ?t = ip" "fst (recv_message rs) = Some req" "dt_out ?t = ws"
    by (simp_all add: thread_ok_def)
  have reg: "ds_reg sv = fst (discovery_run empty_registry (map snd ?log))" using inv by (simp add: disc_inv_def Let_def)
  have new: "i \<notin> fst ` set ?log" using t(2) by (simp add: answer_of_None)
  note ans = answer_of_snoc [OF new, of ip now req]
  have "fst (discovery_run empty_registry (map snd ?log @ [(ip, now, req)])) = reg"
    using h t(3) reg by (simp add: discovery_run_snoc)
  moreover have "thread_ok (?cs ! j) (answer_of (?log @ [(i, ip, now, req)]) j) ((ds_threads sv)[i := ?t\<lparr>dt_phase := DReply resp\<rparr>] ! j)"
    if "j < length ?cs" for j
    using that inv h t reg c by (auto simp: ans nth_list_update disc_inv_def Let_def) (auto simp: thread_ok_def)
  ultimately show ?thesis
    using inv ph h t c new
    by (auto simp: disc_inv_def Let_def serve_event_def disc_thread_step_def)
qed

lemma disc_inv_thread:
  assumes inv: "disc_inv evs sv" and i: "i < length (ds_threads sv)"
  shows "disc_inv (evs @ serve_event now i sv) (disc_thread_step now i sv)"
proof (cases "\<exists>req. dt_phase (ds_threads sv ! i) = DServe req")
  case True
  with disc_inv_serve [OF assms] show ?thesis by blast
next
  case False
  let ?t = "ds_threads sv ! i"
  from disc_invD(2) [OF assms] obtain ip rs ws where
      t: "thread_ok (ip, rs, ws) (answer_of (served_of evs) i) ?t" "conns_of evs ! i = (ip, rs, ws)"
    by (metis prod_cases3)
  have ev: "serve_event now i sv = []" using False by (simp add: serve_event_def Let_def split: disc_phase.split)
  show ?thesis
  proof (cases "dt_phase ?t")
    case DRecv
    obtain r rs' where r: "recv_message rs = (r, rs')" by force
    show ?thesis unfolding ev using DRecv t r inv
      by (cases r) (auto simp: disc_thread_step_def thread_ok_def intro!: disc_inv_update)
  next
    case (DReply resp)
    show ?thesis unfolding ev using DReply t inv
      by (auto simp: disc_thread_step_def thread_ok_def intro!: disc_inv_update)
  next
    case DDone
    with inv ev show ?thesis by (simp add: disc_thread_step_def)
  qed (use False in auto)
qed

lemma disc_inv_trace: "disc_trace evs sv \<Longrightarrow> disc_inv evs sv"
proof (induction rule: disc_trace.induct)
  case disc_trace_start
  show ?case by (rule disc_inv_start)
next
  case (disc_trace_step evs sv ev sv')
  from disc_trace_step(2) show ?case
  proof cases
    case disc_step_accept
    with disc_trace_step.IH disc_inv_accept show ?thesis by simp
  next
    case disc_step_thread
    with disc_trace_step.IH disc_inv_thread show ?thesis by simp
  qed (use disc_trace_step.IH in \<open>simp_all add: disc_inv_def disc_signal_def disc_exit_def\<close>)
qed

text \<open>A thread that is not interrupted does what \<open>handle_connection\<close> does.\<close>

lemma thread_alone:
  assumes "i < length (ds_threads sv)" "ds_threads sv ! i = \<lparr>dt_ip = ip, dt_in = rs, dt_out = ws, dt_phase = DRecv\<rparr>"
    and "handle_connection ip now (ds_reg sv) rs ws = (reg', rs', ws')"
  shows "((disc_thread_step now i) ^^ 3) sv =
    sv\<lparr>ds_reg := reg', ds_threads := (ds_threads sv)[i := \<lparr>dt_ip = ip, dt_in = rs', dt_out = ws', dt_phase = DDone\<rparr>]\<rparr>"
proof (cases "recv_message rs")
  case (Pair r rs1)
  with assms show ?thesis
    by (cases r) (auto simp: numeral_3_eq_3 disc_thread_step_def handle_connection_def split: prod.splits)
qed

lemma answer_of_SomeD:
  assumes "answer_of log i = Some resp"
  shows "\<exists>k<length log. fst (log ! k) = i \<and> snd (discovery_run empty_registry (map snd log)) ! k = resp"
  using map_of_SomeD [OF assms [unfolded answer_of_def]] by (auto simp: in_set_zip)

lemma disc_trace_wf: "disc_trace evs sv \<Longrightarrow> wf_registry (ds_reg sv)"
  using disc_inv_trace [of evs sv] by (simp add: disc_inv_def Let_def discovery_run_keeps_registry wf_empty_registry)

section \<open>Properties of the concurrent server\<close>

text \<open>C26: The discovery server is linearizable. Whatever the interleaving of the threads,
  of new connections, of failed thread starts and of a shutdown, the registry is the one
  the requests leave when they are handled one after the other in the order in which their
  threads hold \<open>reg_lock\<close>; each of them is the first message of its own connection and
  is served once; and every connection has been sent nothing or the answer that the
  sequential run gives to its request, and has been sent that answer once its thread has
  ended, unless no message was received on it.\<close>
theorem discovery_linearizable:
  assumes "disc_trace evs sv" "cs = conns_of evs" "log = served_of evs"
    and "discovery_run empty_registry (map snd log) = (reg, resps)"
  shows "ds_reg sv = reg \<and> wf_registry reg \<and> distinct (map fst log) \<and>
    (\<forall>(i, ip, now, req)\<in>set log. i < length cs \<and> ip = fst (cs ! i) \<and> fst (recv_message (fst (snd (cs ! i)))) = Some req) \<and>
    (\<forall>i<length cs. case (cs ! i, ds_threads sv ! i) of ((ip, rs, ws), t) \<Rightarrow>
       (\<exists>k<length log. fst (log ! k) = i \<and> dt_out t = snd (send_message ws (resps ! k))) \<or>
       dt_out t = ws \<and> (dt_phase t = DDone \<longrightarrow> fst (recv_message rs) = None))"
proof -
  note inv = disc_inv_trace [OF assms(1)]
  have seq: "fst (discovery_run empty_registry (map snd log)) = reg" "snd (discovery_run empty_registry (map snd log)) = resps"
    by (simp_all add: assms(4))
  have "case (cs ! i, ds_threads sv ! i) of ((ip, rs, ws), t) \<Rightarrow>
      (\<exists>k<length log. fst (log ! k) = i \<and> dt_out t = snd (send_message ws (resps ! k))) \<or>
      dt_out t = ws \<and> (dt_phase t = DDone \<longrightarrow> fst (recv_message rs) = None)" if "i < length cs" for i
  proof -
    obtain ip rs ws where c: "cs ! i = (ip, rs, ws)" by (metis prod_cases3)
    have t: "thread_ok (ip, rs, ws) (answer_of log i) (ds_threads sv ! i)"
      using inv that c by (auto simp: disc_inv_def Let_def assms(2,3))
    show ?thesis
    proof (cases "answer_of log i")
      case None
      with t show ?thesis by (auto simp: c thread_ok_def split: disc_phase.splits)
    next
      case (Some resp)
      with answer_of_SomeD [OF Some] t seq(2) show ?thesis by (auto simp: c thread_ok_def split: disc_phase.splits)
    qed
  qed
  moreover have "wf_registry reg" using disc_trace_wf [OF assms(1)] inv seq(1) by (simp add: disc_inv_def Let_def assms(3))
  ultimately show ?thesis using inv seq(1) by (auto simp: disc_inv_def Let_def assms(2,3))
qed

definition disc_demo :: "disc_server" where
  "disc_demo = disc_accept ''10.0.0.1''
     \<lparr>r_bytes = pack_message (new_message 5 MSG_REGISTER ''bob'' ''discovery'' ''bob:pw:9001''), r_script = [RIntr, RData 9]\<rparr>
     \<lparr>w_out = [], w_script = [WData 7]\<rparr> True disc_start"

theorem discovery_linearizable_witness:
  "let req = new_message 5 MSG_REGISTER ''bob'' ''discovery'' ''bob:pw:9001'';
       sv = disc_thread_step 6 0 (disc_thread_step 5 0 disc_demo)
   in ds_reg sv = fst (discovery_run empty_registry [(''10.0.0.1'', 6, req)]) \<and> wf_registry (ds_reg sv)"
proof -
  let ?req = "new_message 5 MSG_REGISTER ''bob'' ''discovery'' ''bob:pw:9001''"
  let ?rs = "\<lparr>r_bytes = pack_message ?req, r_script = [RIntr, RData 9]\<rparr>" and ?ws = "\<lparr>w_out = [], w_script = [WData 7]\<rparr>"
  let ?c = "(''10.0.0.1'', ?rs, ?ws)" and ?s1 = "disc_thread_step 5 0 disc_demo"
  obtain rs' where "recv_message ?rs = (Some ?req, rs')"
    using recv_packed [of ?req ?rs "[]"] by (auto simp: no_rd_err_def)
  then have s1: "?s1 = disc_demo\<lparr>ds_threads := [\<lparr>dt_ip = ''10.0.0.1'', dt_in = rs', dt_out = ?ws, dt_phase = DServe ?req\<rparr>]\<rparr>"
    by (simp add: disc_thread_step_def disc_demo_def disc_accept_def disc_start_def Let_def)
  have alive: "ds_alive disc_demo" "ds_running disc_demo" "length (ds_threads disc_demo) = 1"
    by (simp_all add: disc_demo_def disc_accept_def disc_start_def)
  have "disc_trace ([] @ [DAccepted ?c]) disc_demo"
    using disc_step_accept [of disc_start True "''10.0.0.1''" ?rs ?ws]
    by (intro disc_trace_step [OF disc_trace_start]) (simp_all add: disc_demo_def disc_start_def)
  from disc_trace_step [OF this disc_step_thread [of _ 0 5]]
  have "disc_trace [DAccepted ?c] ?s1"
    using alive by (simp add: serve_event_def disc_demo_def disc_accept_def disc_start_def)
  from disc_trace_step [OF this disc_step_thread [of _ 0 6]]
  have tr: "disc_trace [DAccepted ?c, DServed 0 (''10.0.0.1'', 6, ?req)] (disc_thread_step 6 0 ?s1)"
    using alive by (simp add: s1 serve_event_def)
  obtain reg resps where r: "discovery_run empty_registry [(''10.0.0.1'', 6, ?req)] = (reg, resps)" by force
  with discovery_linearizable [OF tr refl refl, of reg resps] show ?thesis by (simp add: Let_def del: discovery_run.simps)
qed

end
