(* ===== verification/Server_Main.thy ===== *)
theory Server_Main
  imports Startup Epoll_Handlers Thread_Server Fork_Server Discovery_Threads
begin

text \<open>
  The \<open>main\<close> functions of the servers around their loops: the system calls before
  the loop, each of which may fail and end the program, the state the loop starts in, and
  what is closed when the loop has ended. (What ends the fork server is in
  \<open>Fork_Lifecycle\<close>.) Setting signal handlers and socket options is left out; no
  result of theirs is looked at.
\<close>

subsection \<open>Before the loop\<close>

text \<open>The results of the system calls: \<open>mmap\<close>, \<open>stat\<close> and
  \<open>mkdir\<close> of the history directory, \<open>socket\<close>, \<open>bind\<close> to a
  port, \<open>listen\<close> with a backlog, \<open>epoll_create1\<close>.\<close>

record boot_env =
  b_mmap :: bool
  b_stat :: bool
  b_mkdir :: bool
  b_socket :: bool
  b_bind :: "16 word \<Rightarrow> bool"
  b_listen :: "nat \<Rightarrow> bool"
  b_epoll :: bool

text \<open>Either the program ends with status 1 after \<open>perror\<close> has named a call, or
  it listens on a port, has announced itself, and enters its loop in a state.\<close>

datatype 'st boot = Exit1 "char list" | Listening "16 word" "char list" 'st

definition listen_socket :: "boot_env \<Rightarrow> int \<Rightarrow> nat \<Rightarrow> char list option" where
  "listen_socket b port backlog =
     (if \<not> b_socket b then Some ''socket''
      else if \<not> b_bind b (htons port) then Some ''bind''
      else if \<not> b_listen b backlog then Some ''listen''
      else None)"

definition banner :: "char list \<Rightarrow> int \<Rightarrow> char list" where
  "banner tag port = ''['' @ tag @ ''] Listening on port '' @ show_int port @ [newline]"

text \<open>\<open>if (stat(HISTORY_DIR, &st) != 0) mkdir(HISTORY_DIR, 0755);\<close> the result of
  \<open>mkdir\<close> is not looked at; without the directory no file in it can be opened.\<close>

definition with_history_dir :: "boot_env \<Rightarrow> env \<Rightarrow> env" where
  "with_history_dir b e = e\<lparr>e_appendable := (\<lambda>path. (b_stat b \<or> b_mkdir b) \<and> e_appendable e path)\<rparr>"

definition discovery_boot :: "boot_env \<Rightarrow> char list list \<Rightarrow> disc_server boot" where
  "discovery_boot b argv =
     (let port = discovery_port argv
      in case listen_socket b port 32 of
           Some call \<Rightarrow> Exit1 call
         | None \<Rightarrow> Listening (htons port) (banner ''DISCOVERY'' port) disc_start)"

definition fork_boot :: "boot_env \<Rightarrow> char list list \<Rightarrow> files \<Rightarrow> fserver boot" where
  "fork_boot b argv fs =
     (let port = sa_port (fork_args argv)
      in if \<not> b_mmap b then Exit1 ''mmap''
         else case listen_socket b port MAX_CLIENTS of
           Some call \<Rightarrow> Exit1 call
         | None \<Rightarrow> Listening (htons port) (banner ''FORK SERVER'' port) (fk_start fs))"

definition thread_boot :: "boot_env \<Rightarrow> char list list \<Rightarrow> files \<Rightarrow> tserver boot" where
  "thread_boot b argv fs =
     (let port = sa_port (thread_args argv)
      in case listen_socket b port MAX_CLIENTS of
           Some call \<Rightarrow> Exit1 call
         | None \<Rightarrow> Listening (htons port) (banner ''THREAD SERVER'' port) (th_start fs))"

definition epoll_boot :: "boot_env \<Rightarrow> char list list \<Rightarrow> files \<Rightarrow> epoll boot" where
  "epoll_boot b argv fs =
     (let port = sa_port (epoll_args argv)
      in case listen_socket b port (MAX_CLIENTS * 2) of
           Some call \<Rightarrow> Exit1 call
         | None \<Rightarrow>
             (if \<not> b_epoll b then Exit1 ''epoll_create1''
              else Listening (htons port) (banner ''EPOLL SERVER'' port) (ep_start fs)))"

subsection \<open>After the loop\<close>

text \<open>The descriptors the epoll server closes, in this order; queued output is not
  flushed.\<close>

definition ep_shutdown :: "nat \<Rightarrow> nat \<Rightarrow> epoll \<Rightarrow> nat list" where
  "ep_shutdown srv epfd st = map ec_fd (filter ec_in_use (client_table st)) @ [srv, epfd]"

text \<open>The thread server closes the sockets of its slots under the threads that still use
  them; \<open>pthread_mutex_destroy\<close> of locks that a thread may hold is left out.\<close>

definition th_shutdown :: "tstate \<Rightarrow> tstate" where
  "th_shutdown st = fold (\<lambda>i st. if tc_in_use (ts_clients st i)
       then st\<lparr>ts_open := (ts_open st)(tc_sockfd (ts_clients st i) := False)\<rparr> else st) [0..<MAX_CLIENTS] st"

subsection \<open>What holds of them\<close>

lemma listen_socket_None:
  "listen_socket b port n = None \<longleftrightarrow> b_socket b \<and> b_bind b (htons port) \<and> b_listen b n"
  by (simp add: listen_socket_def)

text \<open>The port listened on is the one announced only when it is one; any other number is
  cut to 16 bits, and an argument that is no number gives port 0, for which the kernel
  chooses a port the program never tells.\<close>

lemma htons_announced: "uint (htons port) = port \<longleftrightarrow> 0 \<le> port \<and> port < 65536"
proof
  show "0 \<le> port \<and> port < 65536" if "uint (htons port) = port"
    using uint_lt2p [of "htons port"] uint_ge_0 [of "htons port"] that by simp
qed (simp add: htons_def uint_word_of_int)

lemma atoi_no_number: "scan_int (cstr s) = None \<Longrightarrow> htons (atoi s) = 0"
  by (simp add: atoi_def htons_def)

text \<open>A server that listens starts in a reachable state.\<close>

lemma boot_reachable:
  "fork_boot b argv fs = Listening p line fk \<Longrightarrow> p = htons (sa_port (fork_args argv)) \<and> fk_reachable clean fk"
  "thread_boot b argv fs = Listening p line th \<Longrightarrow> p = htons (sa_port (thread_args argv)) \<and> th_reachable clean th"
  "epoll_boot b argv fs = Listening p line ep \<Longrightarrow> p = htons (sa_port (epoll_args argv)) \<and> ep_reachable ep"
  "discovery_boot b argv = Listening p line ds \<Longrightarrow> p = htons (discovery_port argv) \<and> disc_trace [] ds"
  by (auto simp: fork_boot_def thread_boot_def epoll_boot_def discovery_boot_def Let_def
      fk_reach_start th_reach_start reach_start disc_trace_start split: option.splits if_splits)

text \<open>Without the directory the servers run and acknowledge, and keep no history.\<close>

lemma no_directory_no_history:
  "\<not> b_stat b \<Longrightarrow> \<not> b_mkdir b \<Longrightarrow> save_history (with_history_dir b e) who rcp text ts fs = Some fs"
  by (simp add: save_history_def with_history_dir_def Let_def)

text \<open>At its end the epoll server closes the descriptor of every connection once.\<close>

lemma ep_shutdown_closes:
  assumes "ep_reachable st" "srv \<notin> fds" "epfd \<notin> fds" "srv \<noteq> epfd"
    and fds: "fds = {ec_fd (ep_clients st i) |i. ec_in_use (ep_clients st i)}"
  shows "distinct (ep_shutdown srv epfd st) \<and> set (ep_shutdown srv epfd st) = fds \<union> {srv, epfd}"
proof -
  have w: "wf_table st" using wf_reachable [OF assms(1)] by (simp add: wf_epoll_def)
  have "inj_on (\<lambda>i. ec_fd (ep_clients st i)) {i. ec_in_use (ep_clients st i)}"
    using w by (auto simp: inj_on_def wf_table_def)
  moreover have e: "map ec_fd (filter ec_in_use (client_table st)) =
      map (\<lambda>i. ec_fd (ep_clients st i)) (filter (\<lambda>i. ec_in_use (ep_clients st i)) [0..<MAX_CLIENTS])"
    by (simp add: client_table_def filter_map comp_def)
  ultimately have "distinct (map ec_fd (filter ec_in_use (client_table st)))"
    by (auto simp: distinct_map intro: inj_on_subset)
  moreover have "set (map ec_fd (filter ec_in_use (client_table st))) = fds"
    using w unfolding e by (auto simp: fds wf_table_def)
  ultimately show ?thesis using assms(2-4) by (auto simp: ep_shutdown_def)
qed

lemma th_shutdown_closes:
  "ts_clients (th_shutdown st) = ts_clients st \<and>
   (ts_open (th_shutdown st) fd \<longleftrightarrow> ts_open st fd \<and> (\<forall>i<MAX_CLIENTS. tc_in_use (ts_clients st i) \<longrightarrow> tc_sockfd (ts_clients st i) \<noteq> fd))"
proof -
  let ?f = "\<lambda>i st. if tc_in_use (ts_clients st i) then st\<lparr>ts_open := (ts_open st)(tc_sockfd (ts_clients st i) := False)\<rparr> else st"
  have "ts_clients (fold ?f xs st) = ts_clients st \<and> (ts_open (fold ?f xs st) fd \<longleftrightarrow>
      ts_open st fd \<and> (\<forall>i\<in>set xs. tc_in_use (ts_clients st i) \<longrightarrow> tc_sockfd (ts_clients st i) \<noteq> fd))" for xs
    by (induction xs arbitrary: st) auto
  from this [of "[0..<MAX_CLIENTS]"] show ?thesis by (auto simp: th_shutdown_def)
qed

end
