(* ===== verification/Spec2Isabelle.thy ===== *)
theory Spec2Isabelle
  imports Session_Refines Thread_Races Fork_Lifecycle Discovery_Threads Server_Main
begin

text \<open>
  Multi-client chat: a verification development for the C programs of the repository
  (\<open>protocol.h\<close>, \<open>protocol.c\<close>, \<open>discovery_server.c\<close>,
  \<open>chat_server_epoll.c\<close>, \<open>chat_server_thread.c\<close>,
  \<open>chat_server_fork.c\<close>, \<open>chat_client.c\<close> under \<open>src/\<close>).

  The system. A discovery server keeps a registry of users (name, password, address, port).
  A chat server accepts up to ten clients, checks a login against the discovery server,
  forwards broadcasts and private messages, keeps a history file per sender and answers
  lists of users. All parties speak one message format: a 76-byte header and up to 1024
  bytes of payload over TCP. There are three chat servers with one router and different
  concurrency: \<open>epoll\<close> (one process, non-blocking sockets with send buffers),
  \<open>pthread\<close> (one thread per client, a lock for the table and one per connection)
  and \<open>fork\<close> (one child per client, pipes to the parent, which routes).

  The theories, each in the order of the code it models.

  Shared by the programs:
  \<^item> \<open>Chat_Prelude\<close>: first-match table search, byte arrays with slices and block
    copies, folds.
  \<^item> \<open>C_Strings\<close>: C strings in arrays; \<open>strncpy\<close>, \<open>strncmp\<close>,
    \<open>snprintf\<close>, \<open>strncat\<close>; the \<open>sscanf\<close> formats of the programs, with
    the round trips of the register and login payloads.
  \<^item> \<open>Protocol\<close>: message types, the struct, \<open>pack_message\<close>,
    \<open>unpack_message\<close>, \<open>make_message\<close>. Fields keep their widths
    (8, 16 and 64 bits).
  \<^item> \<open>Stream_IO\<close>: \<open>send_message\<close> and \<open>recv_message\<close> on a
    blocking descriptor whose reads and writes follow a script of outcomes; byte sequences
    made of whole messages.
  \<^item> \<open>Discovery\<close>: the registry, \<open>register_user\<close>, the requests, the
    connection thread; the locale \<open>credential_store\<close> is the contract of
    registration, interpreted on the registry; the properties of the discovery server.
  \<^item> \<open>Discovery_Threads\<close>: the discovery server as a concurrent program: the accept
    loop, one thread per connection cut at its system calls and at \<open>reg_lock\<close>, the
    signal and the exit; every trace is tied to the sequential run of the served requests.
  \<^item> \<open>Wire\<close>: the properties of the codec and the streams, and one exchange with
    the discovery server over its sockets.
  \<^item> \<open>Chat_Common\<close>: \<open>validate\<close>, \<open>save_history\<close>, the history
    reader, the user list; the locales \<open>message_sink\<close> (what queueing a message to a
    slot does to the clients' streams) and \<open>session_table\<close> (who is logged in
    where).
  \<^item> \<open>Chat_Spec\<close>: the abstract chat server \<open>spec_message\<close> and the
    locale \<open>chat_server\<close>, the contract of the operations a router is made of; a
    sublocale gives it the laws of \<open>message_sink\<close>. In it the router is shown once
    to implement the abstract server; each of the three servers interprets it.

  The epoll server:
  \<^item> \<open>Send_Buffer\<close>: the 64 KiB send buffer, the kernel's side of a non-blocking
    descriptor, the write loops; the locale \<open>byte_queue\<close>, interpreted on the
    buffer.
  \<^item> \<open>Epoll_Server\<close>: the client table, its helpers and
    \<open>process_message\<close>. \<open>Epoll_Invariant\<close>: the invariant
    \<open>wf_epoll\<close> and the interpretation of \<open>session_table\<close>.
    \<open>Epoll_Delivery\<close>: the interpretation of \<open>message_sink\<close>.
  \<^item> \<open>Epoll_Loop\<close>: \<open>handle_read\<close>, \<open>handle_write\<close>, the accept
    branch, the event dispatch, and the step relation \<open>ep_step\<close> over what the
    network and the kernel may do. \<open>Epoll_Frames\<close>: the message loop implements
    the specification \<open>frames\<close>. \<open>Epoll_Handlers\<close>: every step keeps the
    invariants. \<open>Epoll_Effects\<close>: effects on sessions and streams, and the
    concrete servers of the witnesses. \<open>Epoll_Properties\<close>: the properties.
    \<open>Epoll_Refines\<close>: the interpretation of \<open>chat_server\<close> and the
    refinement. \<open>Epoll_Chunks\<close>: how a byte sequence is cut into reads makes no
    difference.

  The thread server:
  \<^item> \<open>Thread_Server\<close>: the table, the steps of a client thread (an
    \<open>action\<close> is what it does between two points where another thread may run; the
    code a thread has still to execute is a list of actions), the accept branch, and
    \<open>th_step\<close>, any interleaving. \<open>Thread_Invariant\<close>: the table, the
    framing of the output, the bound on what a thread has to do.
    \<open>Thread_Refines\<close>: a thread that is not interrupted implements the abstract
    server. \<open>Thread_Properties\<close>, \<open>Thread_Races\<close>: the properties, and
    what goes wrong between the locks.

  The fork server:
  \<^item> \<open>Fork_Server\<close>: the shared table, the children with their sockets and
    pipes, the parent's router, \<open>child_main\<close>, \<open>sigchld_handler\<close>, and
    \<open>fk_step\<close>, what may happen next. \<open>Fork_Invariant\<close>: the links of slots
    and children, whole messages in the pipes. \<open>Fork_Refines\<close>: the refinement.
    \<open>Fork_Properties\<close>: the properties. \<open>Fork_Lifecycle\<close>: the
    descriptors the parent never closes, the signals it sends at its end, what becomes of the
    children then, and rounds of the two loops.

  The client and the start of the programs:
  \<^item> \<open>Chat_Client\<close>: \<open>chat_client.c\<close>: the command language, the two
    blocking request/reply exchanges at start-up, the receiver thread and the input loop.
  \<^item> \<open>Startup\<close>: the arguments of the servers, \<open>inet_pton\<close>, the
    address \<open>validate\<close> connects to, \<open>tcp_connect\<close> of the client.
  \<^item> \<open>Server_Main\<close>: the \<open>main\<close> functions of the servers around their
    loops: the system calls before, the state the loop starts in, what is closed after.
  \<^item> \<open>Client_Session\<close>: \<open>main\<close> of the client, from the menu to the
    end, and what a session of typed commands sends and shows.
  \<^item> \<open>Session_Refines\<close>: such a session against the epoll server, from the keys to
    the abstract state; in the locale \<open>chat_server\<close>, how much room a message takes.

  This theory: the properties that span the programs, and that the three servers agree.

  Abstractions. \<open>credentials\<close> turns the registry into a map; \<open>ep_names\<close>,
  \<open>th_names\<close>, \<open>fk_names\<close> a client table into a map from slots to names;
  \<open>ep_stream\<close> is every byte committed to a slot's client, what the kernel has
  taken followed by what the send buffer holds, \<open>fk_stream\<close> what the child has
  written followed by what is in its pipe; \<open>ep_chat\<close>, \<open>th_chat\<close>,
  \<open>fk_chat\<close> combine users, streams and files into a state of the abstract server;
  \<open>sb_content\<close> is the queue in a send buffer; \<open>frames\<close> the
  messages in a byte sequence. A property with \<open>ep_ready\<close> assumes that the slot's
  coming writes meet no error other than \<open>EAGAIN\<close> and that its buffer has room;
  \<open>th_ready\<close> and \<open>fk_ready\<close> are the same for an open socket without
  write errors and a running child. The properties on full buffers, write errors and ended
  connections say what happens otherwise.

  Environment. The clock, the local time zone, whether a history file can be opened, and the
  discovery server's answer are fields of \<open>env\<close>; what the kernel does with a read
  or write is a script. No fuel is used: every loop of the model terminates, the message
  loop since each message shortens the buffer, the socket loops since each round transfers
  bytes or uses up a script entry (a loop over \<open>EINTR\<close> ends when the interruptions
  do), a thread between two receives by \<open>th_weight\<close>, at most 54 steps.
  \<open>None\<close> as result of \<open>save_history\<close> and the \<open>crashed\<close> flags
  stand for the crash of the process on a null pointer from \<open>localtime\<close>.

  Granularity. A critical section, a send under a send lock, a use of a file and a receive
  are single steps of a thread, also when the system would let other threads run in the
  middle of them; the parent of the fork server handles a signal between two messages, not
  within one; a write to a pipe that has to wait for room is taken as done, so that parent
  and child never wait for each other.

  Not modelled: the registration of signal handlers and socket options, whose results the
  programs ignore; \<open>select\<close> and its time limit, which only wake the loops; console
  output of the servers but for the first line, the prompts of the client, file permissions;
  reading past the end of an unterminated array (a payload of exactly 1024 bytes is taken to
  end there); the static buffer of \<open>localtime\<close> shared by threads; the destruction
  of locks at the end of the thread server; of the descriptors children inherit, all but the
  writing ends that decide when the pipe of an orphan ends. \<open>src/benchmark.py\<close>,
  the empty \<open>src/x.cpp\<close> and the build rules are no part of the system.
\<close>

section \<open>From the keyboard to the screen\<close>

lemma new_payload_scan:
  "cstring p \<Longrightarrow> length p \<le> 1024 \<Longrightarrow> sscanf_user_pass (payload (new_message now t s r p)) = sscanf_user_pass p"
  "cstring p \<Longrightarrow> length p \<le> 1024 \<Longrightarrow> sscanf_user_pass_port (payload (new_message now t s r p)) = sscanf_user_pass_port p"
  using sscanf_cstr [of "payload (new_message now t s r p)"] by (simp_all del: sscanf_cstr)

lemma register_message_scan:
  assumes "user_ok u" "pass_ok p" "int32 port"
  shows "sscanf_user_pass_port (payload (register_message t u p port)) = (3, u, p, port)"
proof -
  let ?pl = "u @ '':'' @ p @ '':'' @ show_int port"
  have pl: "cstring ?pl" "length ?pl \<le> 1022"
    using assms(1,2) length_show_int [OF assms(3)] by (auto simp: user_ok_def pass_ok_def)
  have "snprintf 1024 ?pl = ?pl" using pl(2) by (intro snprintf_fits) linarith
  with new_payload_scan(2) [OF pl(1)] pl(2) sscanf_register_roundtrip [OF assms] show ?thesis
    by (simp add: register_message_def)
qed

lemma user_pass_fits:
  assumes "user_ok u" "word_ok q"
  shows "snprintf 1024 (u @ '':'' @ q) = u @ '':'' @ q" "cstring (u @ '':'' @ q)" "length (u @ '':'' @ q) \<le> 95"
  using assms by (auto simp: user_ok_def word_ok_def)

lemma login_message_scan:
  assumes "user_ok u" "word_ok q"
  shows "sscanf_user_pass (payload (login_message now u q)) = (2, u, q)"
  using new_payload_scan(1) [of "u @ '':'' @ q"] user_pass_fits [OF assms] sscanf_login_roundtrip [OF assms]
  by (simp add: login_message_def)

lemma message_types [simp]:
  "msg_type (new_message now t s r p) = t" "msg_status (new_message now t s r p) = 0"
  "timestamp (new_message now t s r p) = now"
  "msg_type (register_message now u pw port) = MSG_REGISTER" "msg_type (login_message now u pw) = MSG_LOGIN"
  "msg_type (validate_request e u pw) = MSG_VALIDATE"
  by (simp_all add: make_message_def Let_def register_message_def login_message_def validate_request_def)

lemma wf_requests [simp]:
  "wf_message (register_message now u pw port)" "wf_message (login_message now u pw)" "wf_message (validate_request e u pw)"
  by (simp_all add: register_message_def login_message_def validate_request_def)

lemma registered_credentials:
  assumes "wf_registry reg" "user_ok u" "pass_ok p" "int32 port"
    and ex: "disc_exchange ip now reg (register_message t u p port) = (reg1, Some resp)" "msg_status resp = 0"
  shows "wf_registry reg1 \<and> credentials reg1 u = Some (p, take 15 (cstr ip), port)"
proof -
  have reg1: "register_user reg u p (take 15 (cstr ip)) port = Some reg1"
    using register_message_scan [OF assms(2-4), of t] ex
    by (auto simp: disc_exchange_eq handle_request_def Let_def split: option.splits)
  have a: "reg_args u p (take 15 (cstr ip)) port"
    using assms(2-4) cstring_cstr by (simp add: reg_args_def)
  show ?thesis
    using register_user_wf [OF reg1 assms(1) a] register_user_credentials [OF reg1 assms(1) a assms(2)] by simp
qed

lemma validate_over_wire:
  assumes "wf_registry reg" "user_ok u" "word_ok q" "credentials reg u = Some (p, a)"
    and "e_disc_host e \<noteq> []" "e_disc e = (\<lambda>req. snd (disc_exchange ip now reg req))"
  shows "validate e u q \<longleftrightarrow> q = p"
proof -
  let ?m = "validate_request e u q"
  have "sscanf_user_pass (payload ?m) = (2, u, q)"
    using new_payload_scan(1) [of "u @ '':'' @ q"] user_pass_fits [OF assms(2,3)] sscanf_login_roundtrip [OF assms(2,3)]
    by (simp add: validate_request_def)
  from validate_status [OF assms(1) message_types(6) this, of ip now] assms(4-6) show ?thesis
    by (auto simp: validate_def disc_exchange_eq)
qed



text \<open>C8: The client and the server agree on a login: \<open>login_to_chat\<close> reports
  success exactly when the server has put the user online on this connection, and that is
  when nobody is online under the name and the credential check accepts.\<close>
theorem client_login_agrees:
  assumes "wf_epoll st" "ec_in_use (ep_clients st s)" "ep_stream st s = []" "ep_ready 1 st s"
    and "user_ok u" "word_ok pw" "ep_names st s = None"
    and st': "st' = process_message e s (login_message now u pw) st"
    and "r_bytes rs = ep_stream st' s" "no_rd_err rs"
    and "login_to_chat now u pw (Some (rs, ws)) = (ok, conn)"
  shows "(ok \<longleftrightarrow> ep_names st' s = Some u) \<and> (ok \<longleftrightarrow> (\<forall>i. ep_names st i \<noteq> Some u) \<and> validate e u pw)"
proof -
  have l: "length u \<le> 31" "cstring u" using assms(5) by (auto simp: user_ok_def)
  have t: "wf_table st" "s < 10" using assms(1,2) by (simp_all add: wf_epoll_def wf_table_def)
  define good where "good = ((\<forall>i. ep_names st i \<noteq> Some u) \<and> validate e u pw)"
  define reply where "reply = (if good then server_reply e MSG_ACK u ''Login successful''
    else error_reply e u (if find_by_user st u \<noteq> None then ''Already logged in'' else ''Invalid credentials''))"
  have g: "good \<longleftrightarrow> find_by_user st u = None \<and> validate e u pw"
    using lookup_names(2) [OF assms(1) l] by (simp add: good_def)
  have pm: "st' = slot_send s reply (if good then login_slot s u st else st)"
    using login_message_scan [OF assms(5,6), of now] g unfolding st' reply_def
    by (auto simp: process_message_def Let_def)
  have "ep_ready 1 (if good then login_slot s u st else st) s" using assms(4) by simp
  from reply_stream [OF this] assms(3) have str: "ep_stream st' s = pack_message reply" by (simp add: pm)
  have names: "ep_names st' s = Some u \<longleftrightarrow> good"
    using assms(7) ep_sessions.login_names [OF t assms(5)] by (simp add: pm)
  have w: "wf_message reply" by (simp add: reply_def)
  have "fst (recv_message rs) = Some reply"
    using recv_packed [of reply rs "[]"] assms(9,10) str w by auto
  then have "ok \<longleftrightarrow> msg_status reply = 0 \<and> msg_type reply \<noteq> MSG_ERROR"
    using assms(11) by (auto simp: login_to_chat_def Let_def split: prod.splits)
  also have "\<dots> \<longleftrightarrow> good" by (simp add: reply_def)
  finally show ?thesis using names by (simp add: good_def)
qed

theorem client_login_agrees_witness:
  "fst (login_to_chat 9 ''cy'' ''pw'' (Some (\<lparr>r_bytes = ep_stream (process_message demo_env 2 (login_message 9 ''cy'' ''pw'') demo) 2,
     r_script = [RData 3]\<rparr>, \<lparr>w_out = [], w_script = []\<rparr>)))
   \<and> \<not> fst (login_to_chat 9 ''al'' ''pw'' (Some (\<lparr>r_bytes = ep_stream (process_message demo_env 2 (login_message 9 ''al'' ''pw'') demo) 2,
     r_script = []\<rparr>, \<lparr>w_out = [], w_script = []\<rparr>)))"
proof -
  have u: "user_ok ''cy''" "user_ok ''al''" "word_ok ''pw''" by (simp_all add: user_ok_def word_ok_def is_space_def)
  let ?rs1 = "\<lparr>r_bytes = ep_stream (process_message demo_env 2 (login_message 9 ''cy'' ''pw'') demo) 2, r_script = [RData 3]\<rparr>"
  let ?rs2 = "\<lparr>r_bytes = ep_stream (process_message demo_env 2 (login_message 9 ''al'' ''pw'') demo) 2, r_script = []\<rparr>"
  let ?ws = "\<lparr>w_out = [], w_script = []\<rparr> :: wsock"
  obtain ok1 c1 where 1: "login_to_chat 9 ''cy'' ''pw'' (Some (?rs1, ?ws)) = (ok1, c1)" by fastforce
  obtain ok2 c2 where 2: "login_to_chat 9 ''al'' ''pw'' (Some (?rs2, ?ws)) = (ok2, c2)" by fastforce
  have "\<forall>i. ep_names demo i \<noteq> Some ''cy''" "ep_names demo 2 = None" by simp_all
  then have "ok1"
    using client_login_agrees [OF wf_demo _ _ _ u(1,3) _ refl _ _ 1, where s = 2 and e = demo_env]
    by (auto simp: no_rd_err_def simp del: demo_names)
  moreover have "ep_names demo 0 = Some ''al''" "ep_names demo 2 = None" by simp_all
  then have "\<not> ok2"
    using client_login_agrees [OF wf_demo _ _ _ u(2,3) _ refl _ _ 2, where s = 2 and e = demo_env]
    by (auto simp: no_rd_err_def simp del: demo_names)
  ultimately show ?thesis unfolding 1 2 by simp
qed

lemma ep_stream_strip: "ep_stream (strip s st) = ep_stream st"
  by (simp add: ep_stream_def fun_eq_iff Let_def)

text \<open>C7: A private message from keyboard to screen: the line typed by one logged-in user,
  sent by his client, read by the server in one \<open>handle_read\<close>, reaches the named
  user's stream once and nobody else's; that user's client receives the message and prints
  sender and text as they were typed.\<close>
theorem typed_message_is_displayed:
  assumes "wf_epoll st" "\<not> ep_crashed st" "find_by_fd st fd = Some s" "k_end (ep_kern st) fd = SockOpen"
    and "ep_names st s = Some u" "ep_names st t = Some v" "CHR '' '' \<notin> set v" "text_ok txt" "length txt \<le> 1000"
    and "ep_ready 2 st s" "ep_ready 2 st t" "rbuf_content st s = []"
    and typed: "k_in (ep_kern st) fd =
      w_out (fst (input_line now u (render (CPrivate v txt) @ [newline]) \<lparr>w_out = [], w_script = []\<rparr>))"
    and m: "m = new_message now MSG_PRIVATE u v txt"
    and hist: "save_history e (sender m) (receiver m) (payload m) now (ep_files st) = Some fs"
    and "r_bytes rs = pack_message m @ later" "no_rd_err rs" "lt now = Some tb"
  shows "ep_stream (handle_read e fd st) j = ep_stream st j @ (if j = t then pack_message m else [])
      @ (if j = s then pack_message (server_reply e MSG_ACK (sender m) []) else []) \<and>
    fst (recv_message rs) = Some m \<and>
    print_message lt m = Some ([newline] @ YLW @ ''['' @ tb @ ''] '' @ BLD @ u @ RST @ YLW @ '' (private): '' @ RST
      @ txt @ [newline] @ ''> '')"
proof -
  have names: "ec_active (ep_clients st s)" "user_ok u" "user_ok v"
    using assms(1,5,6) wf_table_active by (auto simp: ep_names_def wf_epoll_def split: if_splits)
  then have uv: "length u \<le> 31" "cstring u" "length v \<le> 31" "cstring v" by (auto simp: user_ok_def)
  have tx: "cstring txt" using assms(8) by (simp add: text_ok_def)
  have w: "wf_message m" by (simp add: m)
  have "k_in (ep_kern st) fd = pack_message m"
    using typed input_line_render [of "CPrivate v txt" "[newline]" now u] assms(7,8) uv(4)
      send_message_ok [of "\<lparr>w_out = [], w_script = []\<rparr>" m]
    by (auto simp: m no_wr_err_def)
  then have bytes: "rbuf_content st s @ k_in (ep_kern st) fd = pack_message m" using assms(12) by simp
  have fr: "frames (pack_message m) = ([m], [], False)"
    using frames_pack [of m "[]"] w by (simp add: frames.simps [of "[]"])
  have "length (pack_message m) < 1116" using length_pack_le [of m] by linarith
  then have "strip s (handle_read e fd st) = strip s (process_message e s m (drained fd st))"
    using handle_read_frames [OF assms(1-4) bytes [symmetric], of e] fr
    by (simp add: run_frames_def Let_def del: length_pack_message cong: if_cong)
  then have hr: "ep_stream (handle_read e fd st) = ep_stream (process_message e s m (drained fd st))"
    by (metis ep_stream_strip)
  let ?d = "drained fd st" and ?ack = "server_reply e MSG_ACK (sender m) []"
  have "find_by_user st (receiver m) = Some t"
    using lookup_names(1) [OF assms(1) uv(3,4)] assms(6) lookup_cstr [of st "receiver m"] uv(3,4) by (simp add: m)
  then have "find_by_user ?d (receiver m) = Some t" by (simp add: find_by_user_def client_table_def)
  then have "process_message e s m ?d = slot_send s ?ack (slot_send t m (?d\<lparr>ep_files := fs\<rparr>))"
    using names(1) hist by (simp add: process_message_def Let_def m)
  then have str: "ep_stream (handle_read e fd st) j = ep_stream st j @ (if j = t then pack_message m else [])
      @ (if j = s then pack_message ?ack else [])"
    using ep_sink.private_and_ack [of 0 "?d\<lparr>ep_files := fs\<rparr>" t 0 s ?ack m j] assms(10,11) hr
    by (simp add: numeral_2_eq_2)
  have "fst (recv_message rs) = Some m"
    using recv_packed [of m rs later] w assms(16,17) by auto
  moreover have "print_message lt m = Some ([newline] @ YLW @ ''['' @ tb @ ''] '' @ BLD @ u @ RST @ YLW @ '' (private): '' @ RST
      @ txt @ [newline] @ ''> '')"
    using assms(9,18) uv tx by (simp add: print_message_def m Let_def)
  ultimately show ?thesis using str by blast
qed

theorem typed_message_is_displayed_witness:
  "ep_stream (handle_read demo_env 5 (demo\<lparr>ep_kern := (ep_kern demo)\<lparr>k_in := (\<lambda>_. [])(5 :=
       w_out (fst (input_line 9 ''al'' (''/msg bo see you'' @ [newline]) \<lparr>w_out = [], w_script = []\<rparr>)))\<rparr>\<rparr>)) 1
   = pack_message (new_message 9 MSG_PRIVATE ''al'' ''bo'' ''see you'')"
proof -
  let ?m = "new_message 9 MSG_PRIVATE ''al'' ''bo'' ''see you''"
  let ?in = "w_out (fst (input_line 9 ''al'' (render (CPrivate ''bo'' ''see you'') @ [newline]) \<lparr>w_out = [], w_script = []\<rparr>))"
  let ?st = "demo\<lparr>ep_kern := (ep_kern demo)\<lparr>k_in := (\<lambda>_. [])(5 := ?in)\<rparr>\<rparr>"
  have w: "wf_epoll ?st" by (rule wf_kern) simp_all
  have f: "find_by_fd ?st 5 = Some 0" using find_by_fd_in_use [OF w, of 0] by simp
  have r: "ep_ready n ?st j = ep_ready n demo j" "ep_stream ?st j = ep_stream demo j" for n j
    by (simp_all add: ep_ready_def ep_stream_def Let_def good_script_def)
  have t: "text_ok ''see you''" by (simp add: text_ok_def newline_def CR_def)
  have c: "rbuf_content ?st 0 = []" by (simp add: rbuf_content_def)
  obtain fs where fs: "save_history demo_env (sender ?m) (receiver ?m) (payload ?m) 9 (ep_files ?st) = Some fs"
    using demo_save by blast
  have rs: "r_bytes \<lparr>r_bytes = pack_message ?m, r_script = []\<rparr> = pack_message ?m @ []" by simp
  show ?thesis
    using typed_message_is_displayed [OF w _ f _ _ _ _ t _ _ _ c _ refl fs rs,
        where t = 1 and lt = "\<lambda>_. Some []" and tb = "[]" and j = 1] r
    by (simp add: no_rd_err_def)
qed

section \<open>The three servers\<close>

text \<open>Where the two policies make no difference.\<close>

lemma spec_policy:
  assumes "msg_type m \<noteq> MSG_LOGOUT"
    and "msg_type m = MSG_LOGIN \<longrightarrow> ch_find ch (fst (snd (sscanf_user_pass (payload m)))) \<noteq> Some s"
  shows "spec_message True False e s m ch = spec_message False True e s m ch"
proof -
  obtain n u p where sc: "sscanf_user_pass (payload m) = (n, u, p)" by (metis prod_cases3)
  show ?thesis using assms by (cases "msg_type m") (simp_all add: spec_message_def sc)
qed

text \<open>C4: The three servers are interchangeable for a client: when an epoll, a thread and a
  fork server have the same users, streams and history files and the same message arrives on
  the same slot, they end with the same users, streams and history files, the thread server
  when its thread is not interrupted, the fork server after its child and its parent have
  each taken one step. Excepted are \<open>MSG_LOGOUT\<close>, after which only the fork server
  keeps the connection, and a login under the name the connection already has, which only the
  fork server accepts.\<close>
theorem servers_agree:
  assumes "wf_epoll ep" "ep_ready 2 ep s" "s < 10" "\<forall>i<10. ep_online ep i \<longrightarrow> ep_ready 2 ep i"
    and "th_reachable clean sv" "\<not> ts_crashed (sv_state sv)" "i < length (sv_threads sv)" "s = th_slot (sv_threads sv ! i)"
    and "th_todo (sv_threads sv ! i) = [ARoute m, ARecv]"
    and "th_ready 2 (sv_state sv) s" "\<forall>j<10. th_online (sv_state sv) j \<longrightarrow> th_ready 2 (sv_state sv) j"
    and "fk_reachable clean fk" "\<not> fs_crashed fk" "fc_pid (fs_clients fk s) \<noteq> 0" "chunked chunks"
    and "fk_ready 2 fk s" "\<forall>j<10. fk_online fk j \<longrightarrow> fk_ready 2 fk j"
    and "k = fc_pipe (fs_clients fk s)" "cp_from (fs_children fk ! k) = []" "wf_message m"
    and "r_bytes (cp_in (fs_children fk ! k)) = pack_message m @ later" "no_rd_err (cp_in (fs_children fk ! k))"
    and same: "th_chat (sv_state sv) = ep_chat ep" "fk_chat fk = ep_chat ep"
    and "msg_type m \<noteq> MSG_LOGOUT"
    and "msg_type m = MSG_LOGIN \<longrightarrow> find_by_user ep (fst (snd (sscanf_user_pass (payload m)))) \<noteq> Some s"
  shows "\<exists>sv'. (th_step clean)\<^sup>*\<^sup>* sv sv' \<and> th_chat (sv_state sv') = ep_chat (process_message e s m ep) \<and>
    fk_chat (fk_parent e s chunks (child_sock e k fk)) = ep_chat (process_message e s m ep)"
proof -
  have ep: "ep_chat (process_message e s m ep) = spec_message False True e s m (ep_chat ep)"
    by (rule ep_route_chat [OF assms(1-4)])
  have pol: "spec_message True False e s m (ep_chat ep) = spec_message False True e s m (ep_chat ep)"
    using assms(25,26) find_by_user_abs [OF assms(1)] by (intro spec_policy) simp_all
  have "th_todo (sv_threads sv ! i) = [ARoute m, if msg_type m = MSG_LOGOUT then ACleanup else ARecv]"
    using assms(9,25) by simp
  from route_run [OF assms(5-8) this assms(10,11), of e] same(1) ep
  obtain sv' where "(th_step clean)\<^sup>*\<^sup>* sv sv'" "th_chat (sv_state sv') = ep_chat (process_message e s m ep)" by auto
  moreover have "wf_fork fk" using fk_reachable_inv [OF assms(12)] by blast
  from fk_serve [OF this assms(13-22), of clean e] same(2) ep pol
  have "fk_chat (fk_parent e s chunks (child_sock e k fk)) = ep_chat (process_message e s m ep)" by simp
  ultimately show ?thesis by blast
qed

theorem servers_agree_witness:
  "let m = new_message 9 MSG_LIST_USERS [] [] [] in
   ep_stream (process_message demo_env 0 m demo_accepted) 0 \<noteq> [] \<and>
   fk_stream (fk_parent demo_env 0 [] (child_sock demo_env 0 (fk_demo [m] []))) 0 = ep_stream (process_message demo_env 0 m demo_accepted) 0 \<and>
   (\<exists>sv'. th_reachable True sv' \<and> th_stream (sv_state sv') 0 = ep_stream (process_message demo_env 0 m demo_accepted) 0)"
proof -
  let ?m = "new_message 9 MSG_LIST_USERS [] [] []"
  let ?sv = "th_run demo_env 0 (th_demo [?m])" and ?fk = "fk_demo [?m] []" and ?ep = demo_accepted
  have wm: "wf_message ?m" by simp
  note d = th_demo_recv [OF wm, of "[]"]
  have rsv: "th_reachable True ?sv" by (rule reachable_th_run [OF reachable_th_demo]) simp_all
  let ?chat = "\<lparr>ch_users = (\<lambda>_. None), ch_stream = (\<lambda>_. []), ch_files = (\<lambda>_. None), ch_crashed = False\<rparr>"
  have "ep_files ?ep = (\<lambda>_. None)" by (simp add: demo_accepted_def accept_one_def start_find_free Let_def) (simp add: ep_start_def)
  then have ep: "ep_chat ?ep = ?chat"
    by (simp add: ep_chat_def ep_users_def ep_stream_def Let_def zero_client_def fun_eq_iff)
  have "ts_files (sv_state ?sv) = ts_files (sv_state (th_demo [?m]))"
    by (simp add: th_run_def Let_def split: prod.split option.split)
  moreover have "ts_files (sv_state (th_demo [?m])) = (\<lambda>_. None)"
    by (simp add: th_demo_def th_accept_def Let_def) (simp add: th_start_def)
  ultimately have th: "th_chat (sv_state ?sv) = ?chat"
    using d(2,3,5) by (simp add: th_chat_def th_users_def th_stream_def zero_tclient_def fun_eq_iff)
  have "fs_files ?fk = (\<lambda>_. None)"
    by (simp add: fk_demo_def fk_accept_def find_free_slot_def fclient_table_def fk_start_def zero_fclient_def upt_rec)
  then have fk: "fk_chat ?fk = ?chat"
    by (simp add: fk_chat_def fk_users_def fk_stream_def fk_demo_eq fun_eq_iff)
  have ready: "ep_ready 2 ?ep 0" "\<forall>i<10. ep_online ?ep i \<longrightarrow> ep_ready 2 ?ep i"
    "th_ready 2 (sv_state ?sv) 0" "\<forall>j<10. th_online (sv_state ?sv) j \<longrightarrow> th_ready 2 (sv_state ?sv) j"
    using d by (simp_all add: ep_ready_def ep_online_def good_script_def th_ready_def th_online_def Let_def no_wr_err_def
        zero_tclient_def zero_client_def)
  have wep: "wf_epoll ?ep" by (rule wf_reachable [OF reachable_accepted])
  obtain sv' where sv': "(th_step True)\<^sup>*\<^sup>* ?sv sv'" "th_chat (sv_state sv') = ep_chat (process_message demo_env 0 ?m ?ep)"
      "fk_chat (fk_parent demo_env 0 [] (child_sock demo_env 0 ?fk)) = ep_chat (process_message demo_env 0 ?m ?ep)"
    using servers_agree [OF wep ready(1) _ ready(2) rsv d(5), of 0 ?m ?fk "[]" 0 "[]" demo_env] d(1) ready(3,4) reachable_fk_demo
      ep th fk fk_demo_ready
    by (auto simp: fk_demo_eq chunked_def no_rd_err_def)
  have "ep_stream (process_message demo_env 0 ?m ?ep) 0 \<noteq> []"
    using reply_stream [of ?ep 0 _ 0] ep_sink.ready_less [OF ready(1), of 1] by (simp add: process_message_def Let_def)
  with arg_cong [OF sv'(2), of ch_stream] arg_cong [OF sv'(3), of ch_stream] reachable_steps [OF sv'(1) rsv]
  show ?thesis by (auto simp: Let_def)
qed

end
